(* ===== verification/Diode_Base.thy ===== *)
theory Diode_Base
  imports Main "HOL-Library.Word" "HOL-Library.Multiset"
begin

section \<open>Bytes, 32-bit counters and faults\<close>

text \<open>
  Shared vocabulary of the development: the byte and buffer types, the unsigned 32-bit
  arithmetic of the sources written out on natural numbers, the little-endian encoding of
  the header fields of the diode protocol, and the faults that stand for undefined
  behaviour of the C++ code (accesses outside a buffer, divisions by zero).
\<close>

named_theorems u32_simps \<open>unsigned 32-bit arithmetic without wrap-around\<close>
named_theorems len_simps \<open>lengths that the operations of the model preserve\<close>

type_synonym byte = "8 word"
type_synonym bytes = "byte list"

text \<open>Undefined behaviour of the sources, made visible as a value.\<close>

datatype fault =
    Out_Of_Bounds      \<comment> \<open>an access outside the buffer it belongs to\<close>
  | Buffer_Overflow    \<comment> \<open>a string copied into a fixed array that is too small\<close>
  | Div_By_Zero        \<comment> \<open>\<open>/\<close> or \<open>%\<close> with a zero divisor\<close>
  | Null_Pointer       \<comment> \<open>an access through a pointer that is NULL\<close>
  | Bad_Shift          \<comment> \<open>a shift of a 32-bit value by 32 or more\<close>
  | Assertion_Failed   \<comment> \<open>an \<open>assert\<close> of the source that does not hold\<close>

subsection \<open>Unsigned 32-bit arithmetic\<close>

definition u32 :: "nat \<Rightarrow> nat" where
  "u32 n = n mod 4294967296"

definition u32_sub :: "nat \<Rightarrow> nat \<Rightarrow> nat" where
  "u32_sub a b = u32 (u32 a + (4294967296 - u32 b))"

lemma u32_id [u32_simps]: "n < 4294967296 \<Longrightarrow> u32 n = n"
  by (simp add: u32_def)

lemma u32_bound [simp]: "u32 n < 4294967296"
  by (simp add: u32_def)

lemma u32_idem [simp]: "u32 (u32 n) = u32 n"
  by (simp add: u32_def)

lemma u32_le: "u32 n \<le> n"
  by (simp add: u32_def)

lemma u32_sub_id [u32_simps]: "b \<le> a \<Longrightarrow> a < 4294967296 \<Longrightarrow> u32_sub a b = a - b"
  by (simp add: u32_sub_def u32_def mod_if)

subsection \<open>Little-endian fields\<close>

definition le32 :: "nat \<Rightarrow> bytes" where
  "le32 n = [of_nat n, of_nat (n div 256), of_nat (n div 65536), of_nat (n div 16777216)]"

fun nat_of_le :: "bytes \<Rightarrow> nat" where
  "nat_of_le [] = 0"
| "nat_of_le (b # bs) = unat b + 256 * nat_of_le bs"

lemma length_le32 [simp]: "length (le32 n) = 4"
  by (simp add: le32_def)

lemma unat_of_nat_byte: "unat (of_nat n :: byte) = n mod 256"
  by (simp add: unat_of_nat)

lemma nat_of_le_le32: "nat_of_le (le32 n) = u32 n"
proof -
  have a: "m mod (256 * k) = 256 * (m div 256 mod k) + m mod 256" for m k :: nat
    by (rule mod_mult2_eq)
  have "n mod 4294967296 = n mod 256 + 256 * (n div 256 mod 256 + 256 * (n div 65536 mod 256
        + 256 * (n div 16777216 mod 256)))"
    using a [of n 16777216] a [of "n div 256" 65536] a [of "n div 65536" 256]
    by (simp add: div_mult2_eq [symmetric])
  then show ?thesis
    by (simp add: le32_def unat_of_nat_byte u32_def)
qed

lemma nat_of_le_bound: "nat_of_le bs < 256 ^ length bs"
proof (induction bs)
  case Nil
  then show ?case by simp
next
  case (Cons b bs)
  have "unat b < 256"
    using unsigned_less [of b, where ?'a = nat] by simp
  with Cons show ?case by simp
qed

subsection \<open>Big-endian fields\<close>

text \<open>What \<open>htons\<close>, \<open>htonl\<close> and their inverses make of a field in network order.\<close>

definition be16 :: "nat \<Rightarrow> bytes" where
  "be16 n = [of_nat (n div 256), of_nat n]"

definition be32 :: "nat \<Rightarrow> bytes" where
  "be32 n = rev (le32 n)"

definition nat_of_be :: "bytes \<Rightarrow> nat" where
  "nat_of_be bs = nat_of_le (rev bs)"

lemma length_be16 [simp]: "length (be16 n) = 2" and length_be32 [simp]: "length (be32 n) = 4"
  by (simp_all add: be16_def be32_def)

lemma nat_of_be_be32 [simp]: "nat_of_be (be32 n) = u32 n"
  by (simp add: nat_of_be_def be32_def nat_of_le_le32)

lemma nat_of_be_be16 [simp]: "nat_of_be (be16 n) = n mod 65536"
  using mod_mult2_eq [of n 256 256] by (simp add: nat_of_be_def be16_def unat_of_nat_byte)

subsection \<open>C strings\<close>

text \<open>The characters of a buffer up to, and without, the first NUL.\<close>

definition c_str :: "bytes \<Rightarrow> bytes" where
  "c_str b = takeWhile (\<lambda>x. x \<noteq> 0) b"

lemma c_str_id: "0 \<notin> set b \<Longrightarrow> c_str b = b"
  unfolding c_str_def by (rule takeWhile_eq_all_conv [THEN iffD2]) auto

lemma c_str_padded: "0 \<notin> set b \<Longrightarrow> c_str (b @ 0 # xs) = b"
  unfolding c_str_def by (induction b) auto

subsection \<open>Truth values\<close>

lemma ex_bool [simp]: "\<exists>b. \<not> b" "\<exists>b. b"
  by blast+

subsection \<open>Lists\<close>

lemma take_append_exact [simp]: "length xs = n \<Longrightarrow> take n (xs @ ys) = xs"
  by simp

lemma drop_append_exact [simp]: "length xs = n \<Longrightarrow> drop n (xs @ ys) = ys"
  by simp

lemma mset_swap_nth:
  "i < length xs \<Longrightarrow> j < length xs \<Longrightarrow> mset (xs[i := xs ! j, j := xs ! i]) = mset xs"
  by (rule mset_swap)

end
