(* ===== verification/PvTypes.thy ===== *)
theory PvTypes
  imports Diode_Base
begin

section \<open>EPICS field types and the descriptors built from them\<close>

text \<open>
  The type tables of the sender (\<open>cainfo\<close> of EpicsParserAndSubscriber.cpp) and of the
  receiver (the initialisation part of \<open>DiodeReceiverCycleLoop\<close>, and the static table
  \<open>descriptors\<close> of DiodeReceiver.cpp). An EPICS field type is known to both sides by the
  text that the EPICS library returns for it, so a type is modelled by that text's
  constructor; every other text is \<open>DBF_OTHER\<close>.
\<close>

datatype dbf_type =
    DBF_STRING | DBF_SHORT | DBF_USHORT | DBF_FLOAT | DBF_CHAR | DBF_UCHAR
  | DBF_LONG | DBF_ULONG | DBF_DOUBLE | DBF_OTHER nat

text \<open>The type descriptors that the sources name.\<close>

datatype type_descriptor =
    SignedInteger8Bit | UnsignedInteger8Bit | SignedInteger16Bit | UnsignedInteger16Bit
  | SignedInteger32Bit | UnsignedInteger32Bit | SignedInteger64Bit | UnsignedInteger64Bit
  | Float32Bit | Float64Bit | CArray nat \<comment> \<open>character array with its number of bits\<close>
  | VoidType

definition MAX_STRING_SIZE :: nat where
  "MAX_STRING_SIZE = 40"

text \<open>The static table that the receiver indexes with the type id of a received variable.\<close>

definition descriptors :: "type_descriptor list" where
  "descriptors =
     [SignedInteger8Bit, UnsignedInteger8Bit, SignedInteger16Bit, UnsignedInteger16Bit,
      SignedInteger32Bit, UnsignedInteger32Bit, SignedInteger64Bit, UnsignedInteger64Bit,
      Float32Bit, Float64Bit, CArray (MAX_STRING_SIZE * 8)]"

definition NUMBER_OF_TYPES :: nat where
  "NUMBER_OF_TYPES = 11"

text \<open>The number of bytes that a descriptor describes.\<close>

fun td_bytes :: "type_descriptor \<Rightarrow> nat" where
  "td_bytes SignedInteger8Bit = 1"
| "td_bytes UnsignedInteger8Bit = 1"
| "td_bytes SignedInteger16Bit = 2"
| "td_bytes UnsignedInteger16Bit = 2"
| "td_bytes SignedInteger32Bit = 4"
| "td_bytes UnsignedInteger32Bit = 4"
| "td_bytes SignedInteger64Bit = 8"
| "td_bytes UnsignedInteger64Bit = 8"
| "td_bytes Float32Bit = 4"
| "td_bytes Float64Bit = 8"
| "td_bytes (CArray bits) = bits div 8"
| "td_bytes VoidType = 0"

text \<open>
  Channel states of the EPICS library, in the order of its enumeration; the sources test
  \<open>state != 2\<close>.
\<close>

datatype channel_state = Cs_never_conn | Cs_prev_conn | Cs_conn | Cs_closed

record ca_channel =
  ca_state :: channel_state
  ca_element_count :: nat
  ca_field_type :: dbf_type

subsection \<open>The sender's table\<close>

record sender_info =
  si_type :: dbf_type
  si_numberOfElements :: nat
  si_memorySize :: nat
  si_td :: type_descriptor
  si_typeId :: nat

definition cainfo :: "ca_channel \<Rightarrow> sender_info" where
  "cainfo ch =
     (let nElems = (if ca_state ch \<noteq> Cs_conn then 0 else ca_element_count ch);
          dbf = ca_field_type ch;
          mk = (\<lambda>t m d i. \<lparr>si_type = t, si_numberOfElements = nElems, si_memorySize = m,
                           si_td = d, si_typeId = i\<rparr>)
      in case dbf of
           DBF_DOUBLE \<Rightarrow> mk dbf 8 Float64Bit 9
         | DBF_FLOAT \<Rightarrow> mk dbf 4 Float32Bit 8
         | DBF_LONG \<Rightarrow> mk dbf 4 SignedInteger32Bit 4
         | DBF_ULONG \<Rightarrow> mk dbf 4 UnsignedInteger32Bit 5
         | DBF_SHORT \<Rightarrow> mk dbf 2 SignedInteger16Bit 2
         | DBF_USHORT \<Rightarrow> mk dbf 2 UnsignedInteger16Bit 3
         | DBF_CHAR \<Rightarrow> mk dbf 1 SignedInteger8Bit 0
         | DBF_UCHAR \<Rightarrow> mk dbf 1 UnsignedInteger8Bit 1
         | DBF_STRING \<Rightarrow> mk dbf MAX_STRING_SIZE (CArray (MAX_STRING_SIZE * 8)) 10
         | DBF_OTHER _ \<Rightarrow> mk DBF_DOUBLE 8 Float64Bit 9)"

subsection \<open>The receiver's table\<close>

text \<open>The receiver's \<open>cainfo\<close> only reads the type and the number of elements.\<close>

definition cainfo_rec :: "ca_channel \<Rightarrow> dbf_type \<times> nat" where
  "cainfo_rec ch =
     (let nElems = ca_element_count ch;
          nElems = (if ca_state ch \<noteq> Cs_conn then 0 else nElems)
      in (ca_field_type ch, nElems))"

text \<open>
  An \<open>AnyType\<close> of the receiver: the descriptor and, for an array, its length
  (\<open>SetNumberOfDimensions(1)\<close>, \<open>SetNumberOfElements(0, n)\<close>). Its data pointer is the
  slot of the variable in the receiver's memory.
\<close>

record any_type =
  at_td :: type_descriptor
  at_dims :: nat
  at_elements :: nat

definition voidAnyType :: any_type where
  "voidAnyType = \<lparr>at_td = VoidType, at_dims = 0, at_elements = 0\<rparr>"

definition mk_any :: "type_descriptor \<Rightarrow> any_type" where
  "mk_any td = \<lparr>at_td = td, at_dims = 0, at_elements = 1\<rparr>"

text \<open>Size of one element, descriptor and stored type for a connected, non-empty channel.\<close>

definition rec_type_info :: "dbf_type \<Rightarrow> nat \<times> type_descriptor \<times> dbf_type" where
  "rec_type_info t =
     (case t of
        DBF_DOUBLE \<Rightarrow> (8, Float64Bit, t)
      | DBF_FLOAT \<Rightarrow> (4, Float32Bit, t)
      | DBF_LONG \<Rightarrow> (4, SignedInteger32Bit, t)
      | DBF_ULONG \<Rightarrow> (4, UnsignedInteger32Bit, t)
      | DBF_SHORT \<Rightarrow> (2, SignedInteger16Bit, t)
      | DBF_USHORT \<Rightarrow> (2, UnsignedInteger16Bit, t)
      | DBF_CHAR \<Rightarrow> (1, SignedInteger8Bit, t)
      | DBF_UCHAR \<Rightarrow> (1, UnsignedInteger8Bit, t)
      | DBF_STRING \<Rightarrow> (MAX_STRING_SIZE, CArray (MAX_STRING_SIZE * 8), t)
      | DBF_OTHER _ \<Rightarrow> (8, Float64Bit, DBF_DOUBLE))"

lemma length_descriptors [simp]: "length descriptors = NUMBER_OF_TYPES"
  by (simp add: descriptors_def NUMBER_OF_TYPES_def)

lemma cainfo_typeId_bound: "si_typeId (cainfo ch) < NUMBER_OF_TYPES"
  by (simp add: cainfo_def NUMBER_OF_TYPES_def Let_def split: dbf_type.splits)

lemma cainfo_memorySize_pos: "0 < si_memorySize (cainfo ch)"
  by (simp add: cainfo_def MAX_STRING_SIZE_def Let_def split: dbf_type.splits)

lemma cainfo_memorySize_le: "si_memorySize (cainfo ch) \<le> 40"
  by (simp add: cainfo_def MAX_STRING_SIZE_def Let_def split: dbf_type.splits)

text \<open>
  Both ends agree on the layout of every EPICS type: the sender's type id selects, in the
  receiver's static table, the descriptor the sender used, and both ends use the same
  element size, descriptor and fallback type.
\<close>

lemma cainfo_agrees:
  "descriptors ! si_typeId (cainfo ch) = si_td (cainfo ch)"
  "rec_type_info (ca_field_type ch) =
     (si_memorySize (cainfo ch), si_td (cainfo ch), si_type (cainfo ch))"
  by (simp_all add: cainfo_def rec_type_info_def descriptors_def Let_def
      split: dbf_type.splits)

end
