(* ===== verification/Marte.thy ===== *)
theory Marte
  imports PvTypes
begin

section \<open>The library the components are built on\<close>

text \<open>
  The MARTe2 framework and the EPICS library are not part of the repository. The functions
  of MARTe2 that move bytes and compare strings are the fields of the record \<open>marte\<close>, an
  argument of every definition that calls them; what the sources rely on is stated by the
  locale \<open>marte_lib\<close>. A \<open>StreamString\<close> is modelled by its content, a byte list.

  \<^item> \<open>MemCopy d i s j n\<close>: \<open>MemoryOperationsHelper::Copy(d + i, s + j, n)\<close>, the new content
    of the buffer \<open>d\<close>. Also called with \<open>d = s\<close> and \<open>i \<le> j\<close> to move a tail to the front.
  \<^item> \<open>MemCompare a b n\<close>: \<open>MemoryOperationsHelper::Compare\<close>, zero for equal areas.
  \<^item> \<open>StrCompare a b\<close>: \<open>StringHelper::Compare\<close>; 0 for equal strings, 1 and 2 for the two
    strict orders. Which of the two is ascending is not assumed.
  \<^item> \<open>StrCompareN a b n\<close>: \<open>StringHelper::CompareN\<close> on the first \<open>n\<close> characters.
  \<^item> \<open>GetToken s ts\<close>: \<open>StreamString::GetToken\<close> from the start of \<open>s\<close>; the token and the
    terminator that ended it.
  \<^item> \<open>BufferTail s\<close>: the byte that \<open>StreamString::Buffer()\<close> holds just behind the content.
  \<^item> \<open>TypeConv at i src dest\<close>: \<open>TypeConvert\<close> from a scalar of type \<open>descriptors[i]\<close> at
    \<open>src\<close> into the variable of type \<open>at\<close> whose memory is \<open>dest\<close>; the new memory.
\<close>

record marte =
  MemCopy :: "bytes \<Rightarrow> nat \<Rightarrow> bytes \<Rightarrow> nat \<Rightarrow> nat \<Rightarrow> bytes"
  MemCompare :: "bytes \<Rightarrow> bytes \<Rightarrow> nat \<Rightarrow> int"
  StrCompare :: "bytes \<Rightarrow> bytes \<Rightarrow> int"
  StrCompareN :: "bytes \<Rightarrow> bytes \<Rightarrow> nat \<Rightarrow> int"
  GetToken :: "bytes \<Rightarrow> bytes \<Rightarrow> bytes \<times> byte"
  BufferTail :: "bytes \<Rightarrow> byte"
  TypeConv :: "any_type \<Rightarrow> nat \<Rightarrow> bytes \<Rightarrow> bytes \<Rightarrow> bytes"

text \<open>The order on names that the sorted table of the receiver relies on.\<close>

locale name_order =
  fixes cmp :: "bytes \<Rightarrow> bytes \<Rightarrow> int"
  assumes cmp_range: "cmp a b = 0 \<or> cmp a b = 1 \<or> cmp a b = 2"
    and cmp_eq: "cmp a b = 0 \<longleftrightarrow> a = b"
    and cmp_dual: "cmp a b = 1 \<longleftrightarrow> cmp b a = 2"
    and cmp_trans: "cmp a b = 1 \<Longrightarrow> cmp b c = 1 \<Longrightarrow> cmp a c = 1"
begin

lemma cmp_irrefl [simp]: "cmp a a = 0"
  by (simp add: cmp_eq)

lemma cmp_asym: "cmp a b = 1 \<Longrightarrow> cmp b a \<noteq> 1"
  using cmp_trans [of a b a] by fastforce

lemma cmp_not_greater: "cmp a b \<noteq> 2 \<longleftrightarrow> cmp a b = 1 \<or> a = b"
  using cmp_range [of a b] cmp_eq [of a b] by fastforce

lemma cmp_not_less: "cmp a b \<noteq> 1 \<longleftrightarrow> cmp b a = 1 \<or> a = b"
  using cmp_range [of a b] cmp_eq [of a b] cmp_dual [of b a] by fastforce

text \<open>The non-strict order, and lists sorted by it.\<close>

definition name_le :: "bytes \<Rightarrow> bytes \<Rightarrow> bool" where
  "name_le a b \<longleftrightarrow> cmp a b \<noteq> 2"

lemma name_le_refl [simp]: "name_le a a"
  by (simp add: name_le_def)

lemma name_le_trans: "name_le a b \<Longrightarrow> name_le b c \<Longrightarrow> name_le a c"
  using cmp_trans cmp_not_greater unfolding name_le_def by metis

lemma name_le_total: "\<not> name_le a b \<Longrightarrow> name_le b a"
  using cmp_dual cmp_not_greater cmp_not_less unfolding name_le_def by metis

lemma cmp_less_le: "cmp a b = 1 \<Longrightarrow> name_le a b"
  by (simp add: name_le_def)

lemma cmp_less_le_trans: "cmp a b = 1 \<Longrightarrow> name_le b c \<Longrightarrow> cmp a c = 1"
  using cmp_trans cmp_not_greater unfolding name_le_def by metis

lemma cmp_le_less_trans: "name_le a b \<Longrightarrow> cmp b c = 1 \<Longrightarrow> cmp a c = 1"
  using cmp_trans cmp_not_greater unfolding name_le_def by metis

end

locale marte_lib =
  fixes L :: marte
  assumes mem_copy: "i + n \<le> length d \<Longrightarrow> j + n \<le> length s \<Longrightarrow>
      MemCopy L d i s j n = take i d @ take n (drop j s) @ drop (i + n) d"
    and mem_compare: "n \<le> length a \<Longrightarrow> n \<le> length b \<Longrightarrow>
      MemCompare L a b n = 0 \<longleftrightarrow> take n a = take n b"
    and str_compare: "name_order (StrCompare L)"
    and str_compare_n: "n \<le> length a \<Longrightarrow> n \<le> length b \<Longrightarrow>
      StrCompareN L a b n = 0 \<longleftrightarrow> take n a = take n b"
    and token_none: "t \<notin> set s \<Longrightarrow> snd (GetToken L s [t]) \<noteq> t"
    and token_found: "t \<notin> set a \<Longrightarrow> a \<noteq> [] \<Longrightarrow> GetToken L (a @ t # b) [t] = (a, t)"
    and type_conv_length: "length (TypeConv L at i src dest) = length dest"

sublocale marte_lib \<subseteq> names: name_order "StrCompare L"
  by (rule str_compare)

subsection \<open>Error codes\<close>

text \<open>
  The values of \<open>ErrorManagement::ErrorType\<close> that the sources distinguish; \<open>ErrorsCleared()\<close>
  is equality with \<open>NoError\<close>, and \<open>err_of ok\<close> is what \<open>err = !ok\<close> stores.
\<close>

datatype err = NoError | Failed | Completed | Timeout | IllegalOperation

definition err_of :: "bool \<Rightarrow> err" where
  "err_of ok = (if ok then NoError else Failed)"

lemma err_of_NoError [simp]: "err_of ok = NoError \<longleftrightarrow> ok"
  by (simp add: err_of_def)

subsection \<open>Bounds-checked copies\<close>

text \<open>A copy whose ranges leave their buffers is undefined behaviour of the sources.\<close>

definition mem_copy_checked ::
  "marte \<Rightarrow> bytes \<Rightarrow> nat \<Rightarrow> bytes \<Rightarrow> nat \<Rightarrow> nat \<Rightarrow> fault + bytes" where
  "mem_copy_checked L d i s j n =
     (if i + n \<le> length d \<and> j + n \<le> length s then Inr (MemCopy L d i s j n)
      else Inl Out_Of_Bounds)"

text \<open>
  The idiom that removes the first \<open>i\<close> bytes of a payload:
  \<open>Copy(payload.Buffer(), payload.Buffer() + i, payload.Size() - i)\<close>, then
  \<open>payload.SetSize(payload.Size() - i)\<close>.
\<close>

definition consume :: "marte \<Rightarrow> bytes \<Rightarrow> nat \<Rightarrow> bytes" where
  "consume L payload i =
     (let currentSize = length payload - i
      in take currentSize (MemCopy L payload 0 payload i currentSize))"

lemma length_consume: "length (consume L payload i) \<le> length payload - i"
  by (simp add: consume_def Let_def)

context marte_lib
begin

lemma mem_copy_length [len_simps]:
  "i + n \<le> length d \<Longrightarrow> j + n \<le> length s \<Longrightarrow> length (MemCopy L d i s j n) = length d"
  by (simp add: mem_copy)

lemma consume_eq: "i \<le> length payload \<Longrightarrow> consume L payload i = drop i payload"
  by (simp add: consume_def Let_def mem_copy)

lemma mem_copy_checked_Inr:
  "i + n \<le> length d \<Longrightarrow> j + n \<le> length s \<Longrightarrow>
   mem_copy_checked L d i s j n = Inr (take i d @ take n (drop j s) @ drop (i + n) d)"
  by (simp add: mem_copy_checked_def mem_copy)

end

subsection \<open>A reference instance\<close>

text \<open>
  The functions of the C library under the same interface (\<open>memcpy\<close>, \<open>memcmp\<close>,
  \<open>strcmp\<close>, \<open>strncmp\<close>): they satisfy everything the sources rely on, so the interface is
  consistent, and concrete runs of the model can be evaluated with them.
\<close>

fun ref_cmp :: "bytes \<Rightarrow> bytes \<Rightarrow> int" where
  "ref_cmp [] [] = 0"
| "ref_cmp [] (b # bs) = 1"
| "ref_cmp (a # as) [] = 2"
| "ref_cmp (a # as) (b # bs) =
     (if unat a < unat b then 1 else if unat b < unat a then 2 else ref_cmp as bs)"

definition ref_token :: "bytes \<Rightarrow> bytes \<Rightarrow> bytes \<times> byte" where
  "ref_token s ts =
     (let tok = takeWhile (\<lambda>x. x \<notin> set ts) s
      in (tok, case dropWhile (\<lambda>x. x \<notin> set ts) s of
                 [] \<Rightarrow> (case ts of [] \<Rightarrow> 0 | t # _ \<Rightarrow> if t = 0 then 1 else 0)
               | t # _ \<Rightarrow> t))"

definition ref_marte :: marte where
  "ref_marte =
     \<lparr>MemCopy = (\<lambda>d i s j n. take i d @ take n (drop j s) @ drop (i + n) d),
      MemCompare = (\<lambda>a b n. if take n a = take n b then 0 else 1),
      StrCompare = ref_cmp,
      StrCompareN = (\<lambda>a b n. if take n a = take n b then 0 else 1),
      GetToken = ref_token,
      BufferTail = (\<lambda>_. 0),
      TypeConv = (\<lambda>at i src dest. take (length dest) (src @ replicate (length dest) 0))\<rparr>"

lemma ref_marte_simps [simp]:
  "MemCopy ref_marte d i s j n = take i d @ take n (drop j s) @ drop (i + n) d"
  "MemCompare ref_marte a b n = (if take n a = take n b then 0 else 1)"
  "StrCompare ref_marte a b = ref_cmp a b"
  "StrCompareN ref_marte a b n = (if take n a = take n b then 0 else 1)"
  "GetToken ref_marte a b = ref_token a b"
  by (simp_all add: ref_marte_def)

lemma ref_cmp_range: "ref_cmp a b = 0 \<or> ref_cmp a b = 1 \<or> ref_cmp a b = 2"
  by (induction a b rule: ref_cmp.induct) auto

lemma ref_cmp_eq: "ref_cmp a b = 0 \<longleftrightarrow> a = b"
  by (induction a b rule: ref_cmp.induct) (auto simp: word_unat_eq_iff)

lemma ref_cmp_dual: "ref_cmp a b = 1 \<longleftrightarrow> ref_cmp b a = 2"
  by (induction a b rule: ref_cmp.induct) auto

lemma ref_cmp_trans: "ref_cmp a b = 1 \<Longrightarrow> ref_cmp b c = 1 \<Longrightarrow> ref_cmp a c = 1"
proof (induction a arbitrary: b c)
  case Nil
  then show ?case by (cases b; cases c) auto
next
  case (Cons x a)
  then obtain y b' z c' where "b = y # b'" "c = z # c'"
    by (cases b; cases c) auto
  with Cons.prems Cons.IH [of b' c'] show ?case
    by (auto split: if_splits)
qed

lemma ref_name_order: "name_order ref_cmp"
  by unfold_locales
    (use ref_cmp_range ref_cmp_eq ref_cmp_dual ref_cmp_trans in \<open>blast+\<close>)

lemma ref_token_none: "t \<notin> set s \<Longrightarrow> snd (ref_token s [t]) \<noteq> t"
proof -
  assume "t \<notin> set s"
  then have dw: "dropWhile (\<lambda>x. x \<notin> set [t]) s = []"
    by (auto simp: dropWhile_eq_Nil_conv)
  show ?thesis unfolding ref_token_def Let_def snd_conv dw by simp
qed

lemma ref_token_found: "t \<notin> set a \<Longrightarrow> ref_token (a @ t # b) [t] = (a, t)"
proof -
  assume "t \<notin> set a"
  then have "takeWhile (\<lambda>x. x \<noteq> t) (a @ t # b) = a"
      "dropWhile (\<lambda>x. x \<noteq> t) (a @ t # b) = t # b"
    by (induction a) auto
  then show ?thesis by (simp add: ref_token_def Let_def)
qed

interpretation ref: marte_lib ref_marte
proof (rule marte_lib.intro)
  show "name_order (StrCompare ref_marte)"
    using ref_name_order by (simp add: ref_marte_def)
qed (auto simp: ref_marte_def ref_token_none ref_token_found)

end
