(* ===== verification/Config.thy ===== *)
theory Config
  imports Marte
begin

section \<open>Configuration and processor masks\<close>

text \<open>
  The \<open>Initialise\<close> methods read their parameters from a \<open>StructuredDataI\<close> of MARTe2. It is
  modelled by two look-up functions: the text of an entry, and an entry converted to an
  unsigned integer of the given number of bits; \<open>None\<close> is a failed \<open>Read\<close>. The loop that
  deals the processors out to the threads of a service has the same text in the three
  components and is modelled here once.
\<close>

record structured_data =
  ReadString :: "string \<Rightarrow> bytes option"
  ReadUInt :: "nat \<Rightarrow> string \<Rightarrow> nat option"

text \<open>\<open>if (!data.Read(name, x)) x = dflt;\<close>\<close>

definition read_or :: "structured_data \<Rightarrow> nat \<Rightarrow> string \<Rightarrow> nat \<Rightarrow> nat" where
  "read_or data bits name dflt =
     (case ReadUInt data bits name of Some x \<Rightarrow> x | None \<Rightarrow> dflt)"

definition MAX_ARR_LEN :: nat where "MAX_ARR_LEN = 20000"

text \<open>\<open>1u << n\<close>; the shift is undefined from 32 on.\<close>

definition shl1 :: "nat \<Rightarrow> fault + nat" where
  "shl1 n = (if n < 32 then Inr (2 ^ n) else Inl Bad_Shift)"

text \<open>One step of the mask: wrap to the first processor, use, move on.\<close>

definition wrap_mask :: "nat \<Rightarrow> nat \<Rightarrow> nat" where
  "wrap_mask lim m = (if m = lim then 1 else m)"

fun cpu_masks :: "nat \<Rightarrow> nat \<Rightarrow> nat \<Rightarrow> nat list" where
  "cpu_masks lim m 0 = []"
| "cpu_masks lim m (Suc n) = wrap_mask lim m # cpu_masks lim (u32 (2 * wrap_mask lim m)) n"

text \<open>The masks of all threads of a service of \<open>numberOfPoolThreads\<close> threads.\<close>

definition thread_masks :: "nat \<Rightarrow> nat \<Rightarrow> fault + nat list" where
  "thread_masks numberOfCpus numberOfPoolThreads =
     (if numberOfPoolThreads = 0 then Inr []
      else case shl1 numberOfCpus of
             Inl e \<Rightarrow> Inl e
           | Inr lim \<Rightarrow> Inr (cpu_masks lim 1 numberOfPoolThreads))"

lemma length_cpu_masks [simp]: "length (cpu_masks lim m n) = n"
  by (induction n arbitrary: m) simp_all

lemma cpu_masks_nth:
  assumes "0 < c" "c < 32" "k \<le> c" "i < n"
  shows "cpu_masks (2 ^ c) (2 ^ k) n ! i = 2 ^ ((k + i) mod c)"
  using assms(3,4)
proof (induction n arbitrary: k i)
  case 0
  then show ?case by simp
next
  case (Suc n)
  have w: "wrap_mask (2 ^ c) (2 ^ k) = 2 ^ (k mod c)"
    using Suc.prems(1) by (cases "k = c") (simp_all add: wrap_mask_def power_inject_exp)
  have kc: "k mod c < c" using assms(1) by simp
  have "(2 :: nat) ^ Suc (k mod c) \<le> 2 ^ 31" using kc assms(2) by (intro power_increasing) auto
  then have u: "u32 (2 * 2 ^ (k mod c)) = 2 ^ Suc (k mod c)" by (simp add: u32_id)
  show ?case
  proof (cases i)
    case 0
    then show ?thesis using w by simp
  next
    case (Suc j)
    have "cpu_masks (2 ^ c) (2 ^ Suc (k mod c)) n ! j = 2 ^ ((Suc (k mod c) + j) mod c)"
      using Suc.IH [of "Suc (k mod c)" j] Suc.prems kc Suc by (simp add: Suc_leI)
    moreover have "Suc (k mod c + j) mod c = Suc (k + j) mod c"
      by (metis mod_Suc_eq mod_add_left_eq)
    ultimately show ?thesis using w u Suc by simp
  qed
qed

lemma thread_masks_round_robin:
  assumes "0 < c" "c < 32"
  shows "thread_masks c n = Inr (map (\<lambda>i. 2 ^ (i mod c)) [0..<n])"
proof -
  have "cpu_masks (2 ^ c) 1 n = map (\<lambda>i. 2 ^ (i mod c)) [0..<n]"
    using cpu_masks_nth [OF assms, of 0 _ n] by (intro nth_equalityI) simp_all
  then show ?thesis
    using assms by (simp add: thread_masks_def shl1_def)
qed

end
