(* ===== verification/XmlScan.thy ===== *)
theory XmlScan
  imports Marte
begin

section \<open>Reading the list of process variables\<close>

text \<open>
  The sender, the receiver and the simulator read the names of the EPICS variables from an
  XML file with the same static function \<open>GetVariable\<close>, once to count the names that
  follow \<open>FirstVariableName\<close> and once to copy them. The file and its tokeniser
  (\<open>File::GetToken\<close>) belong to MARTe2: a file is a state of any type \<open>'f\<close>, and the
  tokeniser a parameter that returns success, the new state of the file and the new content
  of the output string. \<open>Seek(0)\<close> is the return to the state the file was opened in.
\<close>

record 'f xml_file =
  XmlGetToken :: "'f \<Rightarrow> bytes \<Rightarrow> bytes \<Rightarrow> bytes \<Rightarrow> bool \<times> 'f \<times> bytes"

definition tok_lt :: bytes where "tok_lt = [60]"
definition tok_gt :: bytes where "tok_gt = [62]"
definition tok_skip :: bytes where "tok_skip = [32, 10]"

subsection \<open>GetVariable\<close>

partial_function (option) get_variable_loop ::
  "'f xml_file \<Rightarrow> 'f \<Rightarrow> bytes \<Rightarrow> bool \<Rightarrow> (bool \<times> 'f \<times> bytes) option" where
  "get_variable_loop X f variable ret =
     (if variable = [] \<and> ret then
        (case XmlGetToken X f [] tok_gt tok_skip of (ret1, f1, token) \<Rightarrow>
           (case XmlGetToken X f1 variable tok_lt tok_skip of (ret2, f2, variable2) \<Rightarrow>
              get_variable_loop X f2 variable2 (ret1 \<and> ret2)))
      else Some (ret, f, variable))"

definition GetVariable :: "'f xml_file \<Rightarrow> 'f \<Rightarrow> bytes \<Rightarrow> (bool \<times> 'f \<times> bytes) option" where
  "GetVariable X f variable =
     (case XmlGetToken X f [] tok_lt tok_skip of (ret, f1, token) \<Rightarrow>
        (case get_variable_loop X f1 variable ret of
           None \<Rightarrow> None
         | Some (ret2, f2, variable2) \<Rightarrow>
             (case XmlGetToken X f2 [] tok_gt [] of (ret3, f3, token3) \<Rightarrow>
                Some (ret2 \<and> ret3, f3, variable2))))"

text \<open>The receiver's copy of the function has the same text.\<close>

definition GetVariable_rec :: "'f xml_file \<Rightarrow> 'f \<Rightarrow> bytes \<Rightarrow> (bool \<times> 'f \<times> bytes) option" where
  "GetVariable_rec X f variable = GetVariable X f variable"

subsection \<open>The counting pass\<close>

partial_function (option) count_loop ::
  "'f xml_file \<Rightarrow> bytes \<Rightarrow> nat \<Rightarrow> 'f \<Rightarrow> bool \<Rightarrow> nat \<Rightarrow> nat option" where
  "count_loop X firstVariableName maxNumberOfVariables f start numberOfVariables =
     (case GetVariable X f [] of
        None \<Rightarrow> None
      | Some (ret, f1, variable) \<Rightarrow>
          if ret then
            (if variable = firstVariableName \<or> start then
               (if u32 (numberOfVariables + 1) \<ge> maxNumberOfVariables
                then Some (u32 (numberOfVariables + 1))
                else count_loop X firstVariableName maxNumberOfVariables f1 True
                       (u32 (numberOfVariables + 1)))
             else count_loop X firstVariableName maxNumberOfVariables f1 start
                    numberOfVariables)
          else Some numberOfVariables)"

subsection \<open>What the passes compute\<close>

text \<open>The names that successive calls of \<open>GetVariable\<close> deliver.\<close>

partial_function (option) xml_names :: "'f xml_file \<Rightarrow> 'f \<Rightarrow> bytes list option" where
  "xml_names X f =
     (case GetVariable X f [] of
        None \<Rightarrow> None
      | Some (ret, f1, variable) \<Rightarrow>
          if ret then Option.bind (xml_names X f1) (\<lambda>vs. Some (variable # vs))
          else Some [])"

text \<open>The names a pass selects: from the first variable on, at most the maximum, and one
  at least when the first variable occurs, since the maximum is tested after the count.\<close>

definition selected :: "bytes \<Rightarrow> nat \<Rightarrow> bytes list \<Rightarrow> bytes list" where
  "selected first maxN vs = take (max 1 maxN) (dropWhile (\<lambda>v. v \<noteq> first) vs)"

lemma length_selected: "length (selected first maxN vs) \<le> max 1 maxN"
  by (simp add: selected_def)

text \<open>
  The tokeniser makes progress: a successful call reads at least one character, and no call
  moves backwards.
\<close>

locale xml_source =
  fixes X :: "'f xml_file" and remaining :: "'f \<Rightarrow> nat"
  assumes progress: "XmlGetToken X f out ts sk = (True, f', out') \<Longrightarrow> remaining f' < remaining f"
    and no_rewind: "XmlGetToken X f out ts sk = (r, f', out') \<Longrightarrow> remaining f' \<le> remaining f"
begin

lemma get_variable_loop_returns:
  "\<exists>r f' v. get_variable_loop X f variable ret = Some (r, f', v) \<and> remaining f' \<le> remaining f"
proof (induction "remaining f" arbitrary: f variable ret rule: less_induct)
  case less
  show ?case
  proof (cases "variable = [] \<and> ret")
    case False
    then show ?thesis by (auto simp: get_variable_loop.simps [of X f variable ret])
  next
    case True
    obtain r1 f1 t where g1: "XmlGetToken X f [] tok_gt tok_skip = (r1, f1, t)"
      by (metis prod_cases3)
    obtain r2 f2 v2 where g2: "XmlGetToken X f1 variable tok_lt tok_skip = (r2, f2, v2)"
      by (metis prod_cases3)
    have le: "remaining f2 \<le> remaining f1" "remaining f1 \<le> remaining f"
      using g1 g2 by (auto dest: no_rewind)
    show ?thesis
    proof (cases "r1 \<and> r2")
      case True
      then have "remaining f2 < remaining f"
        using g1 le progress by fastforce
      from less [OF this, of v2 "r1 \<and> r2"] le show ?thesis
        by (subst get_variable_loop.simps)
          (use \<open>variable = [] \<and> ret\<close> g1 g2 in \<open>force split: prod.splits\<close>)
    next
      case False
      then have "get_variable_loop X f2 v2 (r1 \<and> r2) = Some (False, f2, v2)"
        by (auto simp: get_variable_loop.simps [of X f2 v2 "r1 \<and> r2"])
      with le show ?thesis
        by (subst get_variable_loop.simps) (use True g1 g2 in \<open>auto intro: exI [of _ False]\<close>)
    qed
  qed
qed

lemma GetVariable_returns:
  "\<exists>r f' v. GetVariable X f variable = Some (r, f', v) \<and>
     remaining f' \<le> remaining f \<and> (r \<longrightarrow> remaining f' < remaining f)"
proof -
  obtain r1 f1 t where g1: "XmlGetToken X f [] tok_lt tok_skip = (r1, f1, t)"
    by (metis prod_cases3)
  obtain r2 f2 v where l: "get_variable_loop X f1 variable r1 = Some (r2, f2, v)"
      "remaining f2 \<le> remaining f1"
    using get_variable_loop_returns by blast
  obtain r3 f3 t3 where g3: "XmlGetToken X f2 [] tok_gt [] = (r3, f3, t3)"
    by (metis prod_cases3)
  have "remaining f1 \<le> remaining f" "remaining f3 \<le> remaining f2"
    using g1 g3 no_rewind by blast+
  moreover have "r3 \<Longrightarrow> remaining f3 < remaining f2"
    using g3 progress [of f2 "[]" tok_gt "[]" f3 t3] by simp
  ultimately show ?thesis
    using g1 l g3 by (auto simp: GetVariable_def)
qed

lemma xml_names_returns: "\<exists>vs. xml_names X f = Some vs"
proof (induction "remaining f" arbitrary: f rule: less_induct)
  case less
  obtain r f' v where g: "GetVariable X f [] = Some (r, f', v)"
      "r \<longrightarrow> remaining f' < remaining f"
    using GetVariable_returns by blast
  show ?case
  proof (cases r)
    case True
    then obtain vs where "xml_names X f' = Some vs" using less g by blast
    with True g show ?thesis by (simp add: xml_names.simps [of X f])
  next
    case False
    with g show ?thesis by (simp add: xml_names.simps [of X f])
  qed
qed

text \<open>An induction over the calls of \<open>GetVariable\<close> that deliver the names.\<close>

lemma xml_names_induct [consumes 1, case_names Stop Name]:
  assumes "xml_names X f = Some vs"
    and stop: "\<And>f f1 v. GetVariable X f [] = Some (False, f1, v) \<Longrightarrow> P f []"
    and name: "\<And>f f1 v vs. GetVariable X f [] = Some (True, f1, v) \<Longrightarrow>
      xml_names X f1 = Some vs \<Longrightarrow> P f1 vs \<Longrightarrow> P f (v # vs)"
  shows "P f vs"
  using assms(1)
proof (induction vs arbitrary: f)
  case Nil
  then obtain f1 v where "GetVariable X f [] = Some (False, f1, v)"
    by (auto simp: xml_names.simps [of X f] Option.bind_eq_Some_conv
        split: option.splits if_splits)
  then show ?case by (rule stop)
next
  case (Cons v vs)
  then obtain f1 where "GetVariable X f [] = Some (True, f1, v)" "xml_names X f1 = Some vs"
    by (auto simp: xml_names.simps [of X f] Option.bind_eq_Some_conv
        split: option.splits if_splits)
  then show ?case using Cons.IH by (blast intro: name)
qed

lemma count_loop_started:
  assumes "xml_names X f = Some vs" and "maxN < 4294967296" and "n < maxN \<or> maxN = 0 \<and> n = 0"
  shows "count_loop X first maxN f True n = Some (n + length (take (max 1 (maxN - n)) vs))"
  using assms(1,3)
proof (induction arbitrary: n rule: xml_names_induct)
  case (Stop f f1 v)
  then show ?case by (simp add: count_loop.simps [of X first maxN f])
next
  case (Name f f1 v vs)
  have n1: "u32 (n + 1) = n + 1"
    using Name.prems assms(2) by (auto intro!: u32_id)
  show ?case
  proof (cases "n + 1 \<ge> maxN")
    case True
    then have "max 1 (maxN - n) = 1" by simp
    with Name True n1 show ?thesis
      by (simp add: count_loop.simps [of X first maxN f])
  next
    case False
    then have "max 1 (maxN - n) = Suc (max 1 (maxN - (n + 1)))" by linarith
    moreover have "count_loop X first maxN f1 True (n + 1)
        = Some (n + 1 + length (take (max 1 (maxN - (n + 1))) vs))"
      using Name.IH [of "n + 1"] False by simp
    ultimately show ?thesis
      using Name.hyps False n1 by (simp add: count_loop.simps [of X first maxN f])
  qed
qed

lemma count_loop_selected:
  assumes "xml_names X f = Some vs" and "maxN < 4294967296"
  shows "count_loop X first maxN f False 0 = Some (length (selected first maxN vs))"
  using assms(1)
proof (induction rule: xml_names_induct)
  case (Stop f f1 v)
  then show ?case by (simp add: count_loop.simps [of X first maxN f] selected_def)
next
  case (Name f f1 v vs)
  show ?case
  proof (cases "v = first")
    case False
    with Name show ?thesis by (simp add: count_loop.simps [of X first maxN f] selected_def)
  next
    case True
    have "count_loop X first maxN f False 0 = count_loop X first maxN f True 0"
      using Name True by (simp add: count_loop.simps [of X first maxN f])
    moreover have "xml_names X f = Some (v # vs)"
      using Name by (simp add: xml_names.simps [of X f])
    ultimately show ?thesis
      using count_loop_started [of f "v # vs" maxN 0 first] assms(2) True
      by (cases "maxN = 0") (simp_all add: selected_def)
  qed
qed

end

subsection \<open>A reference tokeniser\<close>

text \<open>
  A tokeniser over a byte list: characters up to a terminator, without the characters to
  skip, are appended to the output; it fails at the end of the file.
\<close>

definition ref_xml :: "bytes xml_file" where
  "ref_xml = \<lparr>XmlGetToken = (\<lambda>f out ts sk.
     (f \<noteq> [], tl (dropWhile (\<lambda>c. c \<notin> set ts) f),
      out @ filter (\<lambda>c. c \<notin> set sk) (takeWhile (\<lambda>c. c \<notin> set ts) f)))\<rparr>"

lemma length_tl_dropWhile: "f \<noteq> [] \<Longrightarrow> length (tl (dropWhile P f)) < length f"
  using length_dropWhile_le [of P f] by (cases f) auto

interpretation ref_xml: xml_source ref_xml length
proof
  show "length f' < length f" if "XmlGetToken ref_xml f out ts sk = (True, f', out')"
    for f out ts sk f' out'
    using that length_tl_dropWhile [of f "\<lambda>c. c \<notin> set ts"] by (auto simp: ref_xml_def)
  show "length f' \<le> length f" if "XmlGetToken ref_xml f out ts sk = (r, f', out')"
    for f out ts sk r f' out'
    using that length_tl_dropWhile [of f "\<lambda>c. c \<notin> set ts"]
    by (cases "f = []") (auto simp: ref_xml_def)
qed

end
