(* ===== verification/Chunks.thy ===== *)
theory Chunks
  imports Diode_Base
begin

section \<open>The share of the variables that a thread works on\<close>

text \<open>
  \<open>EpicsParserAndSubscriber::Execute\<close>, its \<open>CleanContext\<close> and \<open>DiodeReceiverCycleLoop\<close>
  compute the range of variables of a thread with the same expressions: \<open>q\<close> variables per
  thread, and the end moved to the last variable when fewer than \<open>nThreads\<close> variables
  remain behind it. The ranges partition the variables exactly when a share together with
  the remainder of the division is not smaller than the number of threads; below that,
  several threads serve the same variables.
\<close>

definition vars_per_thread :: "nat \<Rightarrow> nat \<Rightarrow> fault + nat" where
  "vars_per_thread numberOfVariables nThreads =
     (if nThreads = 0 then Inl Div_By_Zero else Inr (numberOfVariables div nThreads))"

definition chunk_bounds :: "nat \<Rightarrow> nat \<Rightarrow> nat \<Rightarrow> nat \<Rightarrow> nat \<times> nat" where
  "chunk_bounds numberOfVariables nThreads nVarsPerChunk threadId =
     (let beg = u32 (threadId * nVarsPerChunk);
          end0 = u32 (u32 (threadId + 1) * nVarsPerChunk)
      in (beg, if u32_sub numberOfVariables end0 < nThreads then numberOfVariables else end0))"

text \<open>The variables a thread owns.\<close>

definition owns :: "nat \<Rightarrow> nat \<Rightarrow> nat \<Rightarrow> nat \<Rightarrow> bool" where
  "owns n nThreads t i \<longleftrightarrow>
     (case chunk_bounds n nThreads (n div nThreads) t of (b, e) \<Rightarrow> b \<le> i \<and> i < e)"

lemma chunk_mult_le: "t < T \<Longrightarrow> (t + 1) * (n div T) \<le> (n :: nat)"
proof -
  assume "t < T"
  then have "(t + 1) * (n div T) \<le> T * (n div T)" by (intro mult_le_mono1) simp
  also have "\<dots> \<le> n" by simp
  finally show ?thesis .
qed

lemma chunk_bounds_eq:
  assumes "n < 4294967296" "t < T" "T < 4294967296"
  shows "chunk_bounds n T (n div T) t =
    (t * (n div T), if n - (t + 1) * (n div T) < T then n else (t + 1) * (n div T))"
proof -
  have le: "(t + 1) * (n div T) \<le> n" using assms(2) by (rule chunk_mult_le)
  then have "t * (n div T) \<le> n" by simp
  then show ?thesis
    using le assms by (simp add: chunk_bounds_def Let_def u32_simps)
qed

text \<open>The variables behind the share of thread \<open>t\<close>.\<close>

lemma chunk_rest:
  fixes n :: nat
  assumes "t < T"
  shows "n - (t + 1) * (n div T) = (T - (t + 1)) * (n div T) + n mod T"
proof -
  have "n = T * (n div T) + n mod T" by simp
  also have "T * (n div T) = (t + 1) * (n div T) + (T - (t + 1)) * (n div T)"
    using assms by (metis add_mult_distrib le_add_diff_inverse Suc_eq_plus1 Suc_leI)
  finally show ?thesis by linarith
qed

lemma owns_iff:
  assumes "n < 4294967296" "t < T" "T < 4294967296"
  shows "owns n T t i \<longleftrightarrow> t * (n div T) \<le> i \<and> i < n \<and>
    (n - (t + 1) * (n div T) < T \<or> i < (t + 1) * (n div T))"
  using chunk_mult_le [OF assms(2), of n]
  by (auto simp: owns_def chunk_bounds_eq [OF assms])

lemma owns_cover:
  assumes "n < 4294967296" "0 < T" "T < 4294967296" "i < n"
  shows "\<exists>t < T. owns n T t i"
proof (cases "i < T * (n div T)")
  case True
  let ?t = "i div (n div T)"
  have q: "0 < n div T" using True by (cases "n div T") auto
  have t: "?t < T" using True q by (simp add: less_mult_imp_div_less)
  have "?t * (n div T) \<le> i" "i < (?t + 1) * (n div T)"
    using q by (simp, metis Suc_eq_plus1 dividend_less_div_times mult_Suc)
  then show ?thesis using t assms owns_iff by blast
next
  case False
  have "owns n T (T - 1) i"
    using False assms chunk_rest [of "T - 1" T n]
    by (subst owns_iff) (auto intro: order_trans [of _ "T * (n div T)"])
  then show ?thesis using assms(2) by (intro exI [of _ "T - 1"]) simp
qed

lemma owns_unique:
  assumes "n < 4294967296" "T < 4294967296" "T \<le> n div T + n mod T"
    and "t < T" "u < T" "owns n T t i" "owns n T u i"
  shows "t = u"
proof -
  have below: "i < (a + 1) * (n div T)" if "a < T" "a + 1 < T" "owns n T a i" for a
  proof -
    have "1 \<le> T - (a + 1)" using that by simp
    then have "n div T \<le> (T - (a + 1)) * (n div T)" by simp
    then have "\<not> n - (a + 1) * (n div T) < T"
      using chunk_rest [OF that(1), of n] assms(3) by linarith
    then show ?thesis using that owns_iff [OF assms(1) that(1) assms(2)] by blast
  qed
  have above: "a * (n div T) \<le> i" if "a < T" "owns n T a i" for a
    using that owns_iff [OF assms(1) that(1) assms(2)] by blast
  have False if "a < b" "a < T" "b < T" "owns n T a i" "owns n T b i" for a b
  proof -
    have "(a + 1) * (n div T) \<le> b * (n div T)" using that by (intro mult_le_mono1) simp
    then show False using that below [of a] above [of b] by simp
  qed
  then show ?thesis using assms(4-) by (metis linorder_neqE_nat)
qed

text \<open>The sharing below the threshold: the last two threads serve the last variable.\<close>

lemma owns_shared:
  assumes "n < 4294967296" "T < 4294967296" "n div T + n mod T < T" "2 \<le> T" "0 < n"
  shows "owns n T (T - 2) (n - 1) \<and> owns n T (T - 1) (n - 1)"
proof
  have q: "(T - 1) * (n div T) < n"
  proof (cases "n div T = 0")
    case False
    then have "(T - 1) * (n div T) < T * (n div T)" using assms(4) by simp
    also have "\<dots> \<le> n" by simp
    finally show ?thesis .
  qed (use assms(5) in simp)
  have "(T - 2) * (n div T) \<le> (T - 1) * (n div T)" by (intro mult_le_mono1) simp
  then have "(T - 2) * (n div T) \<le> n - 1" using q by linarith
  moreover have "n - (T - 2 + 1) * (n div T) < T"
    using assms(3,4) chunk_rest [of "T - 2" T n] by simp
  ultimately show "owns n T (T - 2) (n - 1)"
    using assms by (subst owns_iff) simp_all
  show "owns n T (T - 1) (n - 1)"
    using q assms chunk_rest [of "T - 1" T n] by (subst owns_iff) auto
qed

text \<open>The ranges where they partition the variables, and the thread of a variable.\<close>

definition chunk_owner :: "nat \<Rightarrow> nat \<Rightarrow> nat \<Rightarrow> nat" where
  "chunk_owner n T i = min (i div (n div T)) (T - 1)"

lemma chunk_bounds_exact:
  assumes "n < 4294967296" "t < T" "T < 4294967296" "T \<le> n div T + n mod T"
  shows "chunk_bounds n T (n div T) t =
    (t * (n div T), if Suc t = T then n else Suc t * (n div T))"
proof (cases "Suc t = T")
  case True
  then show ?thesis
    using chunk_rest [OF assms(2), of n] by (simp add: chunk_bounds_eq [OF assms(1-3)])
next
  case False
  then have "1 \<le> T - (t + 1)" using assms(2) by simp
  then have "n div T \<le> (T - (t + 1)) * (n div T)" by simp
  then have "\<not> n - (t + 1) * (n div T) < T"
    using chunk_rest [OF assms(2), of n] assms(4) by linarith
  with False show ?thesis by (simp add: chunk_bounds_eq [OF assms(1-3)])
qed

lemma chunk_owner_eq:
  assumes "0 < n div T" "t < T" "t * (n div T) \<le> i"
    and "i < (if Suc t = T then n else Suc t * (n div T))"
  shows "chunk_owner n T i = t"
proof -
  have "t \<le> i div (n div T)" using assms(1,3) by (simp add: less_eq_div_iff_mult_less_eq)
  moreover have "i div (n div T) < Suc t" if "Suc t \<noteq> T"
    using assms(1,4) that by (simp add: div_less_iff_less_mult)
  ultimately show ?thesis
    using assms(2) by (cases "Suc t = T") (auto simp: chunk_owner_def)
qed

lemma chunk_owner_range:
  assumes "0 < n div T" "i < n"
  shows "chunk_owner n T i < T" and "chunk_owner n T i * (n div T) \<le> i"
    and "i < (if Suc (chunk_owner n T i) = T then n else Suc (chunk_owner n T i) * (n div T))"
proof -
  let ?q = "n div T"
  have T: "0 < T" using assms(1) by (cases T) auto
  then show "chunk_owner n T i < T" by (simp add: chunk_owner_def)
  have "chunk_owner n T i * ?q \<le> i div ?q * ?q"
    by (intro mult_le_mono1) (simp add: chunk_owner_def)
  also have "\<dots> \<le> i" by simp
  finally show "chunk_owner n T i * ?q \<le> i" .
  show "i < (if Suc (chunk_owner n T i) = T then n else Suc (chunk_owner n T i) * ?q)"
  proof (cases "i div ?q < T - 1")
    case True
    then have "chunk_owner n T i = i div ?q" by (simp add: chunk_owner_def)
    then show ?thesis
      using True assms(1) dividend_less_div_times [of ?q i] by auto
  next
    case False
    then show ?thesis using T assms(2) by (simp add: chunk_owner_def)
  qed
qed

end
