(* ===== verification/Subscriber.thy ===== *)
theory Subscriber
  imports Config XmlScan Chunks
begin

section \<open>EpicsParserAndSubscriber: the cache of the EPICS variables\<close>

text \<open>
  The record \<open>subscriber\<close> holds the members of the class; an operation takes it and returns
  it updated. A pointer into the value memory is a pair of a thread number and an offset in
  the block \<open>memory[thread]\<close>; an array that is NULL is the empty list, except
  \<open>pvDescriptor\<close>, whose NULL is tested by \<open>CleanContext\<close> and is \<open>pvAllocated_e\<close>. Every
  descriptor's \<open>changedFlag\<close> is \<open>changedFlagMem\<close> and its \<open>syncMutex\<close> is \<open>fmutex\<close>, so
  neither is a field. A step between \<open>FastLock\<close> and \<open>FastUnLock\<close> is atomic; the lock is
  assumed to be obtained.

  The EPICS channel access library is the parameter \<open>ca_lib\<close>: the channel that exists for a
  name when \<open>cainfo\<close> reads it, the value that \<open>ca_array_get\<close> delivers for a channel
  (\<open>None\<close> when it does not arrive), whether a subscription is created, and
  whether a context is created.
\<close>

definition PV_NAME_MAX_SIZE :: nat where "PV_NAME_MAX_SIZE = 64"

definition TS_SIZE :: nat where "TS_SIZE = 8" \<comment> \<open>\<open>sizeof(epicsTimeStamp)\<close>\<close>

type_synonym mem_ptr = "nat \<times> nat"

record ca_lib =
  ca_chan :: "bytes \<Rightarrow> ca_channel"
  ca_get :: "bytes \<Rightarrow> bytes option"
  ca_subscribed :: "bytes \<Rightarrow> bool"
  ca_context :: "nat \<Rightarrow> bool"

record pv_desc =
  pvChid_d :: "ca_channel option"
  pvEvid_d :: bool
  pvType_d :: dbf_type
  memory_d :: mem_ptr
  numberOfElements_d :: nat
  memorySize_d :: nat
  pvName_d :: bytes
  index_d :: nat
  timeStamp_d :: mem_ptr
  offset_d :: nat
  td_d :: type_descriptor
  typeId_d :: nat

record subscriber =
  firstVariableName_e :: bytes
  xmlFilePath_e :: bytes
  pvAllocated_e :: bool
  pvDescriptor_e :: "pv_desc list"
  numberOfVariables_e :: nat
  memory_e :: "bytes list"
  changedFlagMem_e :: bytes
  initialisationDone_e :: nat
  threatCnt_e :: nat
  nVarsPerChunk_e :: nat
  memorySize_e :: "nat list"
  eventSem_e :: bool
  maxNumberOfVariables_e :: nat
  maxArraySize_e :: nat
  numberOfPoolThreads_e :: nat
  cpuMasks_e :: "nat list"
  contexts_e :: nat

subsection \<open>Construction and configuration\<close>

definition EpicsParserAndSubscriber :: subscriber where
  "EpicsParserAndSubscriber =
     \<lparr>firstVariableName_e = [], xmlFilePath_e = [], pvAllocated_e = False, pvDescriptor_e = [],
      numberOfVariables_e = 0, memory_e = [], changedFlagMem_e = [], initialisationDone_e = 0,
      threatCnt_e = 0, nVarsPerChunk_e = 0, memorySize_e = [], eventSem_e = False,
      maxNumberOfVariables_e = 0xFFFFFFFF, maxArraySize_e = MAX_ARR_LEN,
      numberOfPoolThreads_e = 0, cpuMasks_e = [], contexts_e = 0\<rparr>"

text \<open>
  \<open>Initialise\<close>; the first argument is the outcome of \<open>MultiThreadService::Initialise\<close>, which
  reads the number of threads.
\<close>

definition Initialise_e ::
  "nat option \<Rightarrow> structured_data \<Rightarrow> subscriber \<Rightarrow> fault + bool \<times> subscriber" where
  "Initialise_e base data S =
     (case base of
        None \<Rightarrow> Inr (False, S)
      | Some n \<Rightarrow>
          (let S = S\<lparr>numberOfPoolThreads_e := n\<rparr> in
           case ReadString data ''InputFilePath'' of
             None \<Rightarrow> Inr (False, S)
           | Some path \<Rightarrow>
               (let S = S\<lparr>xmlFilePath_e := path\<rparr> in
                case ReadString data ''FirstVariableName'' of
                  None \<Rightarrow> Inr (False, S)
                | Some first \<Rightarrow>
                    (let S = S\<lparr>firstVariableName_e := first,
                               maxNumberOfVariables_e :=
                                 read_or data 32 ''MaxNumberOfVariables'' 0xFFFFFFFF,
                               maxArraySize_e := read_or data 32 ''MaxArraySize'' MAX_ARR_LEN\<rparr>
                     in case ReadUInt data 8 ''NumberOfCpus'' of
                          None \<Rightarrow> Inr (False, S)
                        | Some cpus \<Rightarrow>
                            (case thread_masks cpus n of
                               Inl e \<Rightarrow> Inl e
                             | Inr masks \<Rightarrow> Inr (True, S\<lparr>cpuMasks_e := masks\<rparr>))))))"

subsection \<open>ParseAndSubscribe\<close>

text \<open>
  The second pass over the file. \<open>StringHelper::Copy\<close> does not know the size of the name
  array, so a name of 64 characters or more overflows it.
\<close>

partial_function (option) describe_loop ::
  "'f xml_file \<Rightarrow> bytes \<Rightarrow> nat \<Rightarrow> 'f \<Rightarrow> bool \<Rightarrow> nat \<Rightarrow> pv_desc list
     \<Rightarrow> (fault + pv_desc list) option" where
  "describe_loop X firstVariableName maxNumberOfVariables f start counter ds =
     (case GetVariable X f [] of
        None \<Rightarrow> None
      | Some (ret, f1, variable) \<Rightarrow>
          if ret then
            (if start \<or> variable = firstVariableName then
               (if counter \<ge> length ds then Some (Inl Out_Of_Bounds)
                else if length variable \<ge> PV_NAME_MAX_SIZE then Some (Inl Buffer_Overflow)
                else if u32 (counter + 1) \<ge> maxNumberOfVariables
                then Some (Inr (ds[counter := (ds ! counter)
                       \<lparr>index_d := counter, pvName_d := variable\<rparr>]))
                else describe_loop X firstVariableName maxNumberOfVariables f1 True
                       (u32 (counter + 1))
                       (ds[counter := (ds ! counter)
                          \<lparr>index_d := counter, pvName_d := variable\<rparr>]))
             else describe_loop X firstVariableName maxNumberOfVariables f1 start counter ds)
          else Some (Inr ds))"

text \<open>
  \<open>ParseAndSubscribe\<close>. \<open>opened\<close> is the file that \<open>Open\<close> gave, \<open>junk\<close> what \<open>new\<close> leaves in a
  descriptor, \<open>started\<close> the outcome of \<open>MultiThreadService::Start\<close>; the allocations succeed.
\<close>

definition ParseAndSubscribe ::
  "'f xml_file \<Rightarrow> 'f option \<Rightarrow> pv_desc \<Rightarrow> bool \<Rightarrow> subscriber
     \<Rightarrow> (fault + bool \<times> subscriber) option" where
  "ParseAndSubscribe X opened junk started S =
     (case opened of
        None \<Rightarrow> Some (Inr (False, S))
      | Some f \<Rightarrow>
          (case count_loop X (firstVariableName_e S) (maxNumberOfVariables_e S) f False 0 of
             None \<Rightarrow> None
           | Some n \<Rightarrow>
               (case vars_per_thread n (numberOfPoolThreads_e S) of
                  Inl e \<Rightarrow> Some (Inl e)
                | Inr q \<Rightarrow>
                    (case describe_loop X (firstVariableName_e S) (maxNumberOfVariables_e S)
                            f False 0 (replicate n junk) of
                       None \<Rightarrow> None
                     | Some (Inl e) \<Rightarrow> Some (Inl e)
                     | Some (Inr ds) \<Rightarrow>
                         Some (Inr (started,
                           S\<lparr>pvAllocated_e := True, numberOfVariables_e := n,
                             pvDescriptor_e := ds, changedFlagMem_e := replicate n 0,
                             nVarsPerChunk_e := q,
                             memory_e := replicate (numberOfPoolThreads_e S) [],
                             memorySize_e := replicate (numberOfPoolThreads_e S) 0\<rparr>))))))"

subsection \<open>FillMemorySizes\<close>

text \<open>Bytes of the value of a variable, in the unsigned product of the code.\<close>

definition value_bytes :: "pv_desc \<Rightarrow> nat" where
  "value_bytes d = u32 (numberOfElements_d d * memorySize_d d)"

text \<open>One turn of the first loop: the descriptor, and what it adds to \<open>memorySize[threadId]\<close>.\<close>

definition measure_pv :: "ca_lib \<Rightarrow> nat \<Rightarrow> pv_desc \<Rightarrow> pv_desc \<times> nat" where
  "measure_pv C maxArraySize d =
     (let ch = ca_chan C (pvName_d d);
          info = cainfo ch;
          d = d\<lparr>pvChid_d := Some ch, pvType_d := si_type info,
                numberOfElements_d := si_numberOfElements info,
                memorySize_d := si_memorySize info, td_d := si_td info,
                typeId_d := si_typeId info\<rparr>
      in if numberOfElements_d d > maxArraySize then (d\<lparr>numberOfElements_d := 0\<rparr>, 0)
         else (d, value_bytes d + TS_SIZE))"

fun measure_loop ::
  "ca_lib \<Rightarrow> nat \<Rightarrow> nat list \<Rightarrow> pv_desc list \<Rightarrow> nat \<Rightarrow> pv_desc list \<times> nat" where
  "measure_loop C maxArraySize [] ds size1 = (ds, size1)"
| "measure_loop C maxArraySize (i # is) ds size1 =
     (case measure_pv C maxArraySize (ds ! i) of
        (d, n) \<Rightarrow> measure_loop C maxArraySize is (ds[i := d]) (size1 + n))"

text \<open>The second loop places the variables in the block of the thread.\<close>

definition place_pv :: "nat \<Rightarrow> nat \<Rightarrow> pv_desc \<Rightarrow> pv_desc" where
  "place_pv threadId memoryOffset d =
     d\<lparr>memory_d := (threadId, memoryOffset), offset_d := memoryOffset,
       timeStamp_d := (threadId, memoryOffset + value_bytes d)\<rparr>"

definition pv_extent :: "pv_desc \<Rightarrow> nat" where
  "pv_extent d = (if numberOfElements_d d > 0 then value_bytes d + TS_SIZE else 0)"

fun place_loop :: "nat \<Rightarrow> nat list \<Rightarrow> pv_desc list \<Rightarrow> nat \<Rightarrow> pv_desc list" where
  "place_loop threadId [] ds memoryOffset = ds"
| "place_loop threadId (i # is) ds memoryOffset =
     place_loop threadId is (ds[i := place_pv threadId memoryOffset (ds ! i)])
       (u32 (memoryOffset + pv_extent (ds ! i)))"

definition FillMemorySizes :: "ca_lib \<Rightarrow> nat \<Rightarrow> nat \<Rightarrow> nat \<Rightarrow> subscriber \<Rightarrow> subscriber" where
  "FillMemorySizes C beg end threadId S =
     (case measure_loop C (maxArraySize_e S) [beg..<end] (pvDescriptor_e S)
             (memorySize_e S ! threadId) of
        (ds, size1) \<Rightarrow>
          S\<lparr>pvDescriptor_e := place_loop threadId [beg..<end] ds 0,
            memorySize_e := (memorySize_e S)[threadId := size1],
            memory_e := (memory_e S)[threadId := replicate size1 0]\<rparr>)"

subsection \<open>CreateSubscriptions\<close>

text \<open>A copy of \<open>n\<close> bytes to a position of a thread's block.\<close>

definition poke :: "marte \<Rightarrow> mem_ptr \<Rightarrow> bytes \<Rightarrow> nat \<Rightarrow> bytes list \<Rightarrow> fault + bytes list" where
  "poke L p src n mem =
     (case p of (t, off) \<Rightarrow>
        if t \<ge> length mem then Inl Null_Pointer
        else case mem_copy_checked L (mem ! t) off src 0 n of
               Inl e \<Rightarrow> Inl e
             | Inr block \<Rightarrow> Inr (mem[t := block]))"

text \<open>\<open>ca_array_get\<close> writes the value it fetches to the variable's place.\<close>

definition subscribe_pv ::
  "marte \<Rightarrow> ca_lib \<Rightarrow> pv_desc \<times> bytes list \<Rightarrow> fault + pv_desc \<times> bytes list" where
  "subscribe_pv L C dm =
     (case dm of (d, mem) \<Rightarrow>
        if numberOfElements_d d > 0 then
          (case (case ca_get C (pvName_d d) of
                   None \<Rightarrow> Inr mem
                 | Some v \<Rightarrow> poke L (memory_d d) v (value_bytes d) mem) of
             Inl e \<Rightarrow> Inl e
           | Inr mem1 \<Rightarrow> Inr (d\<lparr>pvEvid_d := ca_subscribed C (pvName_d d)\<rparr>, mem1))
        else Inr (d, mem))"

fun subscribe_loop ::
  "marte \<Rightarrow> ca_lib \<Rightarrow> nat list \<Rightarrow> pv_desc list \<Rightarrow> bytes list \<Rightarrow> fault + pv_desc list \<times> bytes list"
where
  "subscribe_loop L C [] ds mem = Inr (ds, mem)"
| "subscribe_loop L C (i # is) ds mem =
     (case subscribe_pv L C (ds ! i, mem) of
        Inl e \<Rightarrow> Inl e
      | Inr (d, mem1) \<Rightarrow> subscribe_loop L C is (ds[i := d]) mem1)"

text \<open>
  The last thread turns the offsets in the blocks into offsets in the joined memory.
  \<open>memCnt\<close> counts the multiples of \<open>nVarsPerChunk\<close> and stops at the last block.
\<close>

fun remap_loop :: "nat \<Rightarrow> nat \<Rightarrow> nat list \<Rightarrow> nat \<Rightarrow> nat list \<Rightarrow> pv_desc list \<Rightarrow> fault + pv_desc list"
where
  "remap_loop nVarsPerChunk nThreads sizes memCnt [] ds = Inr ds"
| "remap_loop nVarsPerChunk nThreads sizes memCnt (i # is) ds =
     (if nVarsPerChunk = 0 then Inl Div_By_Zero
      else
        (let memCnt = (if i mod nVarsPerChunk = 0 \<and> i > 0 then memCnt + 1 else memCnt);
             memCnt = (if memCnt > u32_sub nThreads 1 then u32_sub nThreads 1 else memCnt)
         in remap_loop nVarsPerChunk nThreads sizes memCnt is
              (ds[i := (ds ! i)\<lparr>offset_d := offset_d (ds ! i) + sum_list (take memCnt sizes)\<rparr>])))"

definition finish_init :: "subscriber \<Rightarrow> fault + subscriber" where
  "finish_init S =
     (case (if initialisationDone_e S \<ge> u32_sub (numberOfPoolThreads_e S) 1
            then remap_loop (nVarsPerChunk_e S) (numberOfPoolThreads_e S) (memorySize_e S) 0
                   [0..<numberOfVariables_e S] (pvDescriptor_e S)
            else Inr (pvDescriptor_e S)) of
        Inl e \<Rightarrow> Inl e
      | Inr ds \<Rightarrow>
          Inr (S\<lparr>pvDescriptor_e := ds, initialisationDone_e := u32 (initialisationDone_e S + 1)\<rparr>))"

definition CreateSubscriptions ::
  "marte \<Rightarrow> ca_lib \<Rightarrow> nat \<Rightarrow> nat \<Rightarrow> subscriber \<Rightarrow> fault + subscriber" where
  "CreateSubscriptions L C beg end S =
     (case subscribe_loop L C [beg..<end] (pvDescriptor_e S) (memory_e S) of
        Inl e \<Rightarrow> Inl e
      | Inr (ds, mem) \<Rightarrow> finish_init (S\<lparr>pvDescriptor_e := ds, memory_e := mem\<rparr>))"

subsection \<open>The thread routine\<close>

datatype stage = StartupStage | MainStage | TerminationStage | BadTerminationStage

text \<open>
  \<open>CleanContext\<close> computes the range of the thread and, the clearing of the subscriptions
  being commented out, only gives the context back.
\<close>

definition CleanContext :: "nat \<Rightarrow> subscriber \<Rightarrow> subscriber" where
  "CleanContext threadId S =
     (let (beg, end) = chunk_bounds (numberOfVariables_e S) (numberOfPoolThreads_e S)
                         (nVarsPerChunk_e S) threadId
      in if pvAllocated_e S then S\<lparr>contexts_e := contexts_e S - 1\<rparr> else S)"

text \<open>
  \<open>Execute\<close>. The thread specific context is the address of the local variable
  \<open>threadId\<close> of the call at the startup stage, so what a later stage reads through it is not
  determined by the code: it is the argument \<open>ctx\<close>. A \<open>Wait\<close> that does not return is
  \<open>None\<close>. The result is the error flag and the new state.
\<close>

definition take_id :: "subscriber \<Rightarrow> nat \<times> subscriber" where
  "take_id S = (threatCnt_e S, S\<lparr>threatCnt_e := u32 (threatCnt_e S + 1)\<rparr>)"

definition Execute ::
  "marte \<Rightarrow> ca_lib \<Rightarrow> stage \<Rightarrow> nat option \<Rightarrow> subscriber \<Rightarrow> (fault + bool \<times> subscriber) option" where
  "Execute L C stg ctx S =
     (case stg of
        StartupStage \<Rightarrow>
          (case take_id S of (threadId, S) \<Rightarrow>
             if ca_context C threadId then
               (let S = S\<lparr>contexts_e := contexts_e S + 1\<rparr>;
                    (beg, end) = chunk_bounds (numberOfVariables_e S) (numberOfPoolThreads_e S)
                                   (nVarsPerChunk_e S) threadId
                in case CreateSubscriptions L C beg end (FillMemorySizes C beg end threadId S) of
                     Inl e \<Rightarrow> Some (Inl e)
                   | Inr S \<Rightarrow> Some (Inr (False, S)))
             else Some (Inr (True, S)))
      | BadTerminationStage \<Rightarrow>
          Some (Inr (False, case ctx of None \<Rightarrow> S | Some threadId \<Rightarrow> CleanContext threadId S))
      | _ \<Rightarrow>
          (case ctx of
             None \<Rightarrow> Some (Inr (False, S))
           | Some threadId \<Rightarrow>
               if eventSem_e S then Some (Inr (False, CleanContext threadId S)) else None))"

definition Stop_e :: "subscriber \<Rightarrow> subscriber" where
  "Stop_e S = S\<lparr>eventSem_e := True\<rparr>"

subsection \<open>The callbacks and the clients' view\<close>

definition GetValueCallback :: "marte \<Rightarrow> nat \<Rightarrow> bytes \<Rightarrow> subscriber \<Rightarrow> fault + subscriber" where
  "GetValueCallback L pv dbr S =
     (let d = pvDescriptor_e S ! pv in
      case poke L (memory_d d) dbr (u32 (memorySize_d d * numberOfElements_d d)) (memory_e S) of
        Inl e \<Rightarrow> Inl e
      | Inr mem \<Rightarrow>
          Inr (S\<lparr>memory_e := mem, changedFlagMem_e := (changedFlagMem_e S)[index_d d := 1]\<rparr>))"

definition GetTimeoutCallback :: "marte \<Rightarrow> nat \<Rightarrow> bytes \<Rightarrow> subscriber \<Rightarrow> fault + subscriber" where
  "GetTimeoutCallback L mypv stamp S =
     (case poke L (timeStamp_d (pvDescriptor_e S ! mypv)) stamp TS_SIZE (memory_e S) of
        Inl e \<Rightarrow> Inl e
      | Inr mem \<Rightarrow> Inr (S\<lparr>memory_e := mem\<rparr>))"

definition GetNumberOfVariables_e :: "subscriber \<Rightarrow> nat" where
  "GetNumberOfVariables_e S = numberOfVariables_e S"

definition GetPvDescriptors :: "subscriber \<Rightarrow> pv_desc list" where
  "GetPvDescriptors S = pvDescriptor_e S"

definition GetTotalMemorySize :: "subscriber \<Rightarrow> nat" where
  "GetTotalMemorySize S = sum_list (take (numberOfPoolThreads_e S) (memorySize_e S))"

definition InitialisationDone :: "subscriber \<Rightarrow> bool" where
  "InitialisationDone S \<longleftrightarrow> initialisationDone_e S \<ge> numberOfPoolThreads_e S"

fun sync_loop :: "marte \<Rightarrow> bytes list \<Rightarrow> nat list \<Rightarrow> nat \<Rightarrow> bytes \<Rightarrow> fault + bytes" where
  "sync_loop L [] sizes off out = Inr out"
| "sync_loop L (m # ms) [] off out = Inl Out_Of_Bounds"
| "sync_loop L (m # ms) (n # sizes) off out =
     (case mem_copy_checked L out off m 0 n of
        Inl e \<Rightarrow> Inl e
      | Inr out1 \<Rightarrow> sync_loop L ms sizes (u32 (off + n)) out1)"

text \<open>The new contents of \<open>memoryOut\<close> and \<open>changedFlags\<close>, and the new state.\<close>

definition Synchronise_e ::
  "marte \<Rightarrow> bytes \<Rightarrow> bytes \<Rightarrow> subscriber \<Rightarrow> fault + bytes \<times> bytes \<times> subscriber" where
  "Synchronise_e L memoryOut changedFlags S =
     (case sync_loop L (take (numberOfPoolThreads_e S) (memory_e S)) (memorySize_e S) 0 memoryOut of
        Inl e \<Rightarrow> Inl e
      | Inr out \<Rightarrow>
          (case mem_copy_checked L changedFlags 0 (changedFlagMem_e S) 0 (numberOfVariables_e S) of
             Inl e \<Rightarrow> Inl e
           | Inr flags \<Rightarrow>
               Inr (out, flags,
                 S\<lparr>changedFlagMem_e := replicate (numberOfVariables_e S) 0
                     @ drop (numberOfVariables_e S) (changedFlagMem_e S)\<rparr>)))"

subsection \<open>Destruction\<close>

text \<open>
  The destructor: what it frees; \<open>stopped\<close> gives the outcomes of the two calls of \<open>Stop\<close>, of
  which the second is made when the first fails.
\<close>

definition destroy_e :: "bool \<Rightarrow> bool \<Rightarrow> subscriber \<Rightarrow> bool \<times> subscriber" where
  "destroy_e stopped stopped2 S =
     (stopped \<or> stopped2,
      S\<lparr>changedFlagMem_e := [], memorySize_e := [], pvAllocated_e := False, pvDescriptor_e := [],
        memory_e := []\<rparr>)"

end
