(* ===== verification/SubscriberLayout.thy ===== *)
theory SubscriberLayout
  imports Subscriber
begin

section \<open>The memory of the subscriber\<close>

text \<open>
  The start-up of the threads lays the variables out in the memory: \<open>layout_ok\<close> says what
  the clients of the class rely on. The lemmas show that the start-up establishes it,
  whatever the order in which the threads run, that the callbacks keep it, and that
  \<open>Synchronise\<close> gives at a variable's offset what its thread's block holds.
\<close>

subsection \<open>The loops of the start-up\<close>

lemma map_nth_none:
  "(\<And>i. i < length ds \<Longrightarrow> \<not> P i) \<Longrightarrow>
   map (\<lambda>i. if P i then f i else ds ! i) [0..<length ds] = ds"
  by (rule nth_equalityI) auto

lemma measure_loop_eq:
  assumes "distinct is" "\<forall>i \<in> set is. i < length ds"
  shows "measure_loop C A is ds sz =
    (map (\<lambda>i. if i \<in> set is then fst (measure_pv C A (ds ! i)) else ds ! i) [0..<length ds],
     sz + (\<Sum>i\<leftarrow>is. snd (measure_pv C A (ds ! i))))"
  using assms
proof (induction "is" arbitrary: ds sz)
  case Nil
  then show ?case by (simp add: map_nth)
next
  case (Cons i "is")
  obtain d n where m: "measure_pv C A (ds ! i) = (d, n)" by (cases "measure_pv C A (ds ! i)")
  have "(\<Sum>k\<leftarrow>is. snd (measure_pv C A (ds[i := d] ! k))) = (\<Sum>k\<leftarrow>is. snd (measure_pv C A (ds ! k)))"
    using Cons.prems(1)
    by (intro arg_cong [where f = sum_list] map_cong refl, subst nth_list_update_neq) auto
  moreover have "map (\<lambda>k. if k \<in> set is then fst (measure_pv C A (ds[i := d] ! k)) else ds[i := d] ! k)
      [0..<length ds] =
    map (\<lambda>k. if k \<in> set (i # is) then fst (measure_pv C A (ds ! k)) else ds ! k) [0..<length ds]"
    using Cons.prems m by (intro map_cong) (auto simp: nth_list_update)
  ultimately show ?case
    using Cons.IH [of "ds[i := d]" "sz + n"] Cons.prems m by simp
qed

lemma place_loop_eq:
  assumes "e \<le> length ds" "mo + (\<Sum>j\<leftarrow>[b..<e]. pv_extent (ds ! j)) < 4294967296"
  shows "place_loop t [b..<e] ds mo =
    map (\<lambda>i. if b \<le> i \<and> i < e
             then place_pv t (mo + (\<Sum>j\<leftarrow>[b..<i]. pv_extent (ds ! j))) (ds ! i) else ds ! i)
      [0..<length ds]"
  using assms
proof (induction "e - b" arbitrary: b ds mo)
  case 0
  then have "[b..<e] = []" by simp
  moreover have "map (\<lambda>i. if b \<le> i \<and> i < e
             then place_pv t (mo + (\<Sum>j\<leftarrow>[b..<i]. pv_extent (ds ! j))) (ds ! i) else ds ! i)
      [0..<length ds] = ds"
    using 0 by (intro map_nth_none) simp
  ultimately show ?case by (simp only: place_loop.simps)
next
  case (Suc n)
  then have b: "b < e" by simp
  define ds1 where "ds1 = ds[b := place_pv t mo (ds ! b)]"
  have ext: "(\<Sum>j\<leftarrow>[Suc b..<i]. pv_extent (ds1 ! j)) = (\<Sum>j\<leftarrow>[Suc b..<i]. pv_extent (ds ! j))" for i
    by (intro arg_cong [where f = sum_list] map_cong) (auto simp: ds1_def)
  have nth1: "ds1 ! i = (if i = b then place_pv t mo (ds ! b) else ds ! i)" if "i < length ds" for i
    using that by (simp add: ds1_def)
  have len1: "length ds1 = length ds" by (simp add: ds1_def)
  have split: "(\<Sum>j\<leftarrow>[b..<i]. pv_extent (ds ! j))
      = pv_extent (ds ! b) + (\<Sum>j\<leftarrow>[Suc b..<i]. pv_extent (ds ! j))" if "b < i" for i
    using that by (simp add: upt_conv_Cons)
  have lt: "mo + pv_extent (ds ! b) + (\<Sum>j\<leftarrow>[Suc b..<e]. pv_extent (ds ! j)) < 4294967296"
    using Suc.prems(2) split [OF b] by simp
  have "place_loop t [b..<e] ds mo = place_loop t [Suc b..<e] ds1 (mo + pv_extent (ds ! b))"
    using b lt by (simp add: upt_conv_Cons ds1_def u32_id)
  also have "\<dots> = map (\<lambda>i. if Suc b \<le> i \<and> i < e
      then place_pv t (mo + pv_extent (ds ! b) + (\<Sum>j\<leftarrow>[Suc b..<i]. pv_extent (ds1 ! j))) (ds1 ! i)
      else ds1 ! i) [0..<length ds1]"
    using Suc.hyps(2) Suc.prems(1) lt ext by (intro Suc.hyps(1)) (auto simp: ds1_def)
  also have "\<dots> = map (\<lambda>i. if b \<le> i \<and> i < e
             then place_pv t (mo + (\<Sum>j\<leftarrow>[b..<i]. pv_extent (ds ! j))) (ds ! i) else ds ! i)
      [0..<length ds]"
    using b Suc.prems(1) by (intro map_cong) (auto simp: ext split nth1 len1 add.assoc)
  finally show ?case .
qed

lemma remap_loop_eq:
  assumes "0 < q" "0 < T" "T < 4294967296" "a + k \<le> length ds"
    and "mc = (if a = 0 then 0 else min ((a - 1) div q) (T - 1))"
  shows "remap_loop q T sizes mc [a..<a + k] ds =
    Inr (map (\<lambda>i. if a \<le> i \<and> i < a + k
       then (ds ! i)\<lparr>offset_d := offset_d (ds ! i) + sum_list (take (min (i div q) (T - 1)) sizes)\<rparr>
       else ds ! i) [0..<length ds])"
  using assms(4,5)
proof (induction k arbitrary: a mc ds)
  case 0
  have "map (\<lambda>i. if a \<le> i \<and> i < a + 0
       then (ds ! i)\<lparr>offset_d := offset_d (ds ! i) + sum_list (take (min (i div q) (T - 1)) sizes)\<rparr>
       else ds ! i) [0..<length ds] = ds"
    by (intro map_nth_none) simp
  then show ?case by simp
next
  case (Suc k)
  define c where "c = min (a div q) (T - 1)"
  have step: "(a div q) = (if a mod q = 0 then (a - 1) div q + 1 else (a - 1) div q)" if pos: "0 < a"
  proof -
    obtain b where b: "a = Suc b" using pos by (cases a) auto
    show ?thesis unfolding b by (simp add: div_Suc)
  qed
  have u: "u32_sub T 1 = T - 1" using assms(2,3) by (simp add: u32_sub_id)
  let ?mc = "if a mod q = 0 \<and> a > 0 then mc + 1 else mc"
  have mc: "(if ?mc > u32_sub T 1 then u32_sub T 1 else ?mc) = c"
    using Suc.prems(2) step u by (auto simp: c_def min_def)
  let ?ds = "ds[a := (ds ! a)\<lparr>offset_d := offset_d (ds ! a) + sum_list (take c sizes)\<rparr>]"
  have "remap_loop q T sizes mc [a..<a + Suc k] ds = remap_loop q T sizes c [Suc a..<Suc a + k] ?ds"
    using assms(1) mc by (simp add: upt_conv_Cons Let_def del: upt_Suc)
  also have "\<dots> = Inr (map (\<lambda>i. if Suc a \<le> i \<and> i < Suc a + k
       then (?ds ! i)\<lparr>offset_d := offset_d (?ds ! i) + sum_list (take (min (i div q) (T - 1)) sizes)\<rparr>
       else ?ds ! i) [0..<length ?ds])"
    using Suc.prems by (intro Suc.IH) (auto simp: c_def)
  also have "\<dots> = Inr (map (\<lambda>i. if a \<le> i \<and> i < a + Suc k
       then (ds ! i)\<lparr>offset_d := offset_d (ds ! i) + sum_list (take (min (i div q) (T - 1)) sizes)\<rparr>
       else ds ! i) [0..<length ds])"
    using Suc.prems(1) by (auto simp: nth_list_update c_def intro!: map_cong)
  finally show ?case .
qed

lemma remap_loop_all:
  assumes "0 < q" "0 < T" "T < 4294967296"
  shows "remap_loop q T sizes 0 [0..<length ds] ds =
    Inr (map (\<lambda>i. (ds ! i)\<lparr>offset_d := offset_d (ds ! i)
       + sum_list (take (min (i div q) (T - 1)) sizes)\<rparr>) [0..<length ds])"
  using remap_loop_eq [OF assms, of 0 "length ds" ds 0 sizes]
  by (auto intro!: map_cong)

subsection \<open>One thread\<close>

abbreviation measured :: "ca_lib \<Rightarrow> nat \<Rightarrow> pv_desc \<Rightarrow> pv_desc" where
  "measured C A d \<equiv> fst (measure_pv C A d)"

definition local_off :: "ca_lib \<Rightarrow> nat \<Rightarrow> pv_desc list \<Rightarrow> nat \<Rightarrow> nat \<Rightarrow> nat" where
  "local_off C A ds b i = (\<Sum>j\<leftarrow>[b..<i]. pv_extent (measured C A (ds ! j)))"

definition block_size :: "ca_lib \<Rightarrow> nat \<Rightarrow> pv_desc list \<Rightarrow> nat \<Rightarrow> nat \<Rightarrow> nat" where
  "block_size C A ds b e = (\<Sum>j\<leftarrow>[b..<e]. snd (measure_pv C A (ds ! j)))"

lemma extent_measured: "pv_extent (measured C A d) \<le> snd (measure_pv C A d)"
  by (simp add: measure_pv_def Let_def pv_extent_def value_bytes_def)

lemma measured_name [simp]: "pvName_d (measured C A d) = pvName_d d"
  "index_d (measured C A d) = index_d d"
  by (simp_all add: measure_pv_def Let_def)

lemma local_off_le:
  "b \<le> i \<Longrightarrow> i < e \<Longrightarrow>
   local_off C A ds b i + pv_extent (measured C A (ds ! i)) \<le> block_size C A ds b e"
proof -
  assume i: "b \<le> i" "i < e"
  then have "[b..<e] = [b..<i] @ i # [Suc i..<e]"
    by (metis less_imp_le_nat upt_add_eq_append le_add_diff_inverse upt_conv_Cons)
  moreover have "local_off C A ds b i \<le> (\<Sum>j\<leftarrow>[b..<i]. snd (measure_pv C A (ds ! j)))"
    unfolding local_off_def by (intro sum_list_mono) (rule extent_measured)
  ultimately show ?thesis
    using extent_measured [of C A "ds ! i"] by (simp add: block_size_def)
qed

lemma local_off_mono:
  "b \<le> i \<Longrightarrow> i < j \<Longrightarrow>
   local_off C A ds b i + pv_extent (measured C A (ds ! i)) \<le> local_off C A ds b j"
proof -
  assume i: "b \<le> i" "i < j"
  then have "[b..<j] = [b..<i] @ i # [Suc i..<j]"
    by (metis less_imp_le_nat upt_add_eq_append le_add_diff_inverse upt_conv_Cons)
  then show ?thesis by (simp add: local_off_def)
qed

lemma FillMemorySizes_eq:
  assumes "e \<le> length (pvDescriptor_e S)" "memorySize_e S ! t = 0"
    and "block_size C (maxArraySize_e S) (pvDescriptor_e S) b e < 4294967296"
  defines "ds \<equiv> pvDescriptor_e S" and "A \<equiv> maxArraySize_e S"
  shows "FillMemorySizes C b e t S =
    S\<lparr>pvDescriptor_e := map (\<lambda>i. if b \<le> i \<and> i < e
         then place_pv t (local_off C A ds b i) (measured C A (ds ! i)) else ds ! i) [0..<length ds],
      memorySize_e := (memorySize_e S)[t := block_size C A ds b e],
      memory_e := (memory_e S)[t := replicate (block_size C A ds b e) 0]\<rparr>"
proof -
  let ?ds1 = "map (\<lambda>i. if i \<in> set [b..<e] then measured C A (ds ! i) else ds ! i) [0..<length ds]"
  have m: "measure_loop C A [b..<e] ds 0 = (?ds1, block_size C A ds b e)"
    using assms(1) by (subst measure_loop_eq) (auto simp: block_size_def ds_def)
  have ext: "(\<Sum>j\<leftarrow>[b..<i]. pv_extent (?ds1 ! j)) = local_off C A ds b i" if "i \<le> e" for i
    using that assms(1) unfolding local_off_def
    by (intro arg_cong [where f = sum_list] map_cong) (auto simp: ds_def)
  have "local_off C A ds b e \<le> block_size C A ds b e"
    unfolding local_off_def block_size_def by (intro sum_list_mono) (rule extent_measured)
  then have "place_loop t [b..<e] ?ds1 0 =
      map (\<lambda>i. if b \<le> i \<and> i < e
             then place_pv t (0 + (\<Sum>j\<leftarrow>[b..<i]. pv_extent (?ds1 ! j))) (?ds1 ! i) else ?ds1 ! i)
      [0..<length ?ds1]"
    using assms ext [of e] by (intro place_loop_eq) (simp_all add: ds_def)
  also have "\<dots> = map (\<lambda>i. if b \<le> i \<and> i < e
         then place_pv t (local_off C A ds b i) (measured C A (ds ! i)) else ds ! i) [0..<length ds]"
    using ext by (intro map_cong) auto
  finally show ?thesis
    using m assms(2) by (simp add: FillMemorySizes_def ds_def A_def)
qed

text \<open>Descriptors that differ in the event identifier at most.\<close>

definition same_place :: "pv_desc \<Rightarrow> pv_desc \<Rightarrow> bool" where
  "same_place d d' \<longleftrightarrow> d' = d\<lparr>pvEvid_d := pvEvid_d d'\<rparr>"

lemma same_place_refl [simp]: "same_place d d"
  by (simp add: same_place_def)

lemma same_place_fields:
  "same_place d d' \<Longrightarrow> memory_d d' = memory_d d \<and> offset_d d' = offset_d d
    \<and> timeStamp_d d' = timeStamp_d d \<and> numberOfElements_d d' = numberOfElements_d d
    \<and> memorySize_d d' = memorySize_d d \<and> pvName_d d' = pvName_d d \<and> index_d d' = index_d d
    \<and> value_bytes d' = value_bytes d \<and> pv_extent d' = pv_extent d"
  unfolding same_place_def
  by (metis (no_types, lifting) pv_desc.ext_inject pv_desc.surjective pv_desc.update_convs(2)
      value_bytes_def pv_extent_def)

subsection \<open>Subscribing\<close>

text \<open>What channel access is relied on for: the value it delivers is complete.\<close>

definition ca_complete :: "ca_lib \<Rightarrow> nat \<Rightarrow> pv_desc list \<Rightarrow> bool" where
  "ca_complete C A ds \<longleftrightarrow> (\<forall>d \<in> set ds. case ca_get C (pvName_d d) of None \<Rightarrow> True
     | Some v \<Rightarrow> value_bytes (measured C A d) \<le> length v)"

context marte_lib
begin

lemma poke_ok:
  assumes "t < length mem" "off + n \<le> length (mem ! t)" "n \<le> length src"
  shows "poke L (t, off) src n mem
    = Inr (mem[t := take off (mem ! t) @ take n src @ drop (off + n) (mem ! t)])"
  using assms by (simp add: poke_def mem_copy_checked_Inr)

lemma poke_lengths:
  assumes "poke L p src n mem = Inr mem'"
  shows "map length mem' = map length mem"
proof -
  obtain t off where p: "p = (t, off)" by (cases p)
  have c: "t < length mem" "off + n \<le> length (mem ! t)" "n \<le> length src"
    using assms p by (auto simp: poke_def mem_copy_checked_def split: if_splits)
  then have "mem' = mem[t := take off (mem ! t) @ take n src @ drop (off + n) (mem ! t)]"
    using assms p poke_ok by simp
  with c show ?thesis by (auto intro!: nth_equalityI simp: nth_list_update)
qed

lemma subscribe_loop_ok:
  assumes "\<forall>i \<in> set is. i < length ds \<and> (numberOfElements_d (ds ! i) > 0 \<longrightarrow>
       fst (memory_d (ds ! i)) < length mem
       \<and> snd (memory_d (ds ! i)) + value_bytes (ds ! i) \<le> length (mem ! fst (memory_d (ds ! i)))
       \<and> (\<forall>v. ca_get C (pvName_d (ds ! i)) = Some v \<longrightarrow> value_bytes (ds ! i) \<le> length v))"
    and "distinct is"
  shows "\<exists>ds' mem'. subscribe_loop L C is ds mem = Inr (ds', mem')
    \<and> map length mem' = map length mem \<and> length ds' = length ds
    \<and> (\<forall>i < length ds. if i \<in> set is then same_place (ds ! i) (ds' ! i) else ds' ! i = ds ! i)"
  using assms
proof (induction "is" arbitrary: ds mem)
  case Nil
  then show ?case by simp
next
  case (Cons i "is")
  let ?d = "ds ! i"
  have i: "i < length ds" using Cons.prems(1) by simp
  obtain d mem1 where s: "subscribe_pv L C (?d, mem) = Inr (d, mem1)"
      "map length mem1 = map length mem" "same_place ?d d"
  proof (cases "numberOfElements_d ?d > 0")
    case False
    then show thesis using that [of ?d mem] by (simp add: subscribe_pv_def)
  next
    case True
    let ?d' = "?d\<lparr>pvEvid_d := ca_subscribed C (pvName_d ?d)\<rparr>"
    show thesis
    proof (cases "ca_get C (pvName_d ?d)")
      case None
      then show thesis using that [of ?d' mem] True by (simp add: subscribe_pv_def same_place_def)
    next
      case (Some v)
      obtain mem1 where "poke L (memory_d ?d) v (value_bytes ?d) mem = Inr mem1"
        using Cons.prems(1) True Some poke_ok [of "fst (memory_d ?d)" mem "snd (memory_d ?d)"
            "value_bytes ?d" v] by (cases "memory_d ?d") auto
      then show thesis
        using that [of ?d' mem1] True Some poke_lengths by (simp add: subscribe_pv_def same_place_def)
    qed
  qed
  have len: "length mem1 = length mem" "\<And>k. k < length mem \<Longrightarrow> length (mem1 ! k) = length (mem ! k)"
    using s(2) by (metis length_map, metis length_map nth_map)
  let ?ds = "ds[i := d]"
  have "\<exists>ds' mem'. subscribe_loop L C is ?ds mem1 = Inr (ds', mem')
    \<and> map length mem' = map length mem1 \<and> length ds' = length ?ds
    \<and> (\<forall>k < length ?ds. if k \<in> set is then same_place (?ds ! k) (ds' ! k) else ds' ! k = ?ds ! k)"
    using Cons.prems len by (intro Cons.IH) (auto simp: nth_list_update)
  then obtain ds' mem' where r: "subscribe_loop L C is ?ds mem1 = Inr (ds', mem')"
      "map length mem' = map length mem1" "length ds' = length ds"
      "\<And>k. k < length ds \<Longrightarrow> if k \<in> set is then same_place (?ds ! k) (ds' ! k) else ds' ! k = ?ds ! k"
    by auto
  have "if k \<in> set (i # is) then same_place (ds ! k) (ds' ! k) else ds' ! k = ds ! k"
    if "k < length ds" for k
    using r(4) [OF that] s(3) i Cons.prems(2) by (cases "k = i") (auto split: if_splits)
  then show ?case using r s by auto
qed

end

subsection \<open>All threads\<close>

text \<open>What one thread does at its start-up stage once it has its number and its context.\<close>

definition init_thread :: "marte \<Rightarrow> ca_lib \<Rightarrow> nat \<Rightarrow> subscriber \<Rightarrow> fault + subscriber" where
  "init_thread L C threadId S =
     (case chunk_bounds (numberOfVariables_e S) (numberOfPoolThreads_e S) (nVarsPerChunk_e S) threadId of
        (beg, end) \<Rightarrow> CreateSubscriptions L C beg end (FillMemorySizes C beg end threadId S))"

fun init_threads :: "marte \<Rightarrow> ca_lib \<Rightarrow> nat list \<Rightarrow> subscriber \<Rightarrow> fault + subscriber" where
  "init_threads L C [] S = Inr S"
| "init_threads L C (t # ts) S =
     (case init_thread L C t S of Inl e \<Rightarrow> Inl e | Inr S1 \<Rightarrow> init_threads L C ts S1)"

text \<open>A state that \<open>ParseAndSubscribe\<close> leaves, with room for every thread's share.\<close>

definition range_of :: "subscriber \<Rightarrow> nat \<Rightarrow> nat \<times> nat" where
  "range_of S t = (t * nVarsPerChunk_e S,
     if Suc t = numberOfPoolThreads_e S then numberOfVariables_e S else Suc t * nVarsPerChunk_e S)"

definition size_of_thread :: "ca_lib \<Rightarrow> subscriber \<Rightarrow> nat \<Rightarrow> nat" where
  "size_of_thread C S t =
     (case range_of S t of (b, e) \<Rightarrow> block_size C (maxArraySize_e S) (pvDescriptor_e S) b e)"

definition parsed :: "ca_lib \<Rightarrow> subscriber \<Rightarrow> bool" where
  "parsed C S \<longleftrightarrow>
     numberOfVariables_e S < 4294967296 \<and> length (pvDescriptor_e S) = numberOfVariables_e S
     \<and> length (changedFlagMem_e S) = numberOfVariables_e S
     \<and> 0 < numberOfPoolThreads_e S \<and> numberOfPoolThreads_e S < 4294967296
     \<and> nVarsPerChunk_e S = numberOfVariables_e S div numberOfPoolThreads_e S
     \<and> 0 < nVarsPerChunk_e S
     \<and> numberOfPoolThreads_e S \<le> nVarsPerChunk_e S + numberOfVariables_e S mod numberOfPoolThreads_e S
     \<and> memorySize_e S = replicate (numberOfPoolThreads_e S) 0
     \<and> length (memory_e S) = numberOfPoolThreads_e S \<and> initialisationDone_e S = 0
     \<and> (\<forall>i < numberOfVariables_e S. index_d (pvDescriptor_e S ! i) = i)
     \<and> (\<Sum>t\<leftarrow>[0..<numberOfPoolThreads_e S]. size_of_thread C S t) < 4294967296
     \<and> ca_complete C (maxArraySize_e S) (pvDescriptor_e S)"

text \<open>The descriptor of variable \<open>i\<close> once its thread has placed it.\<close>

definition target :: "ca_lib \<Rightarrow> subscriber \<Rightarrow> nat \<Rightarrow> pv_desc" where
  "target C S i =
     (let t = chunk_owner (numberOfVariables_e S) (numberOfPoolThreads_e S) i
      in place_pv t (local_off C (maxArraySize_e S) (pvDescriptor_e S) (t * nVarsPerChunk_e S) i)
           (measured C (maxArraySize_e S) (pvDescriptor_e S ! i)))"

text \<open>The state after the threads of \<open>D\<close> have run from \<open>S0\<close>, the offsets not yet mapped.\<close>

definition placed :: "ca_lib \<Rightarrow> subscriber \<Rightarrow> nat set \<Rightarrow> subscriber \<Rightarrow> bool" where
  "placed C S0 D S \<longleftrightarrow>
     numberOfVariables_e S = numberOfVariables_e S0
     \<and> numberOfPoolThreads_e S = numberOfPoolThreads_e S0 \<and> nVarsPerChunk_e S = nVarsPerChunk_e S0
     \<and> maxArraySize_e S = maxArraySize_e S0 \<and> changedFlagMem_e S = changedFlagMem_e S0
     \<and> length (pvDescriptor_e S) = numberOfVariables_e S0
     \<and> memorySize_e S = map (\<lambda>t. if t \<in> D then size_of_thread C S0 t else 0)
         [0..<numberOfPoolThreads_e S0]
     \<and> length (memory_e S) = numberOfPoolThreads_e S0
     \<and> (\<forall>t \<in> D. length (memory_e S ! t) = size_of_thread C S0 t)
     \<and> initialisationDone_e S = card D
     \<and> (\<forall>i < numberOfVariables_e S0.
          if chunk_owner (numberOfVariables_e S0) (numberOfPoolThreads_e S0) i \<in> D
          then same_place (target C S0 i) (pvDescriptor_e S ! i)
          else pvDescriptor_e S ! i = pvDescriptor_e S0 ! i)"

lemma place_pv_simps [simp]:
  "pv_extent (place_pv t o1 d) = pv_extent d" "value_bytes (place_pv t o1 d) = value_bytes d"
  "memory_d (place_pv t o1 d) = (t, o1)" "offset_d (place_pv t o1 d) = o1"
  "timeStamp_d (place_pv t o1 d) = (t, o1 + value_bytes d)" "pvName_d (place_pv t o1 d) = pvName_d d"
  "index_d (place_pv t o1 d) = index_d d" "numberOfElements_d (place_pv t o1 d) = numberOfElements_d d"
  by (simp_all add: place_pv_def pv_extent_def value_bytes_def)

lemma size_of_thread_range:
  "size_of_thread C S t = block_size C (maxArraySize_e S) (pvDescriptor_e S)
     (t * nVarsPerChunk_e S) (snd (range_of S t))"
  by (simp add: size_of_thread_def range_of_def)

lemma parsed_range:
  assumes "parsed C S" "t < numberOfPoolThreads_e S"
  shows "chunk_bounds (numberOfVariables_e S) (numberOfPoolThreads_e S) (nVarsPerChunk_e S) t
      = range_of S t"
    and "snd (range_of S t) \<le> numberOfVariables_e S"
    and "i < numberOfVariables_e S \<Longrightarrow> fst (range_of S t) \<le> i \<and> i < snd (range_of S t) \<longleftrightarrow>
      chunk_owner (numberOfVariables_e S) (numberOfPoolThreads_e S) i = t"
    and "size_of_thread C S t < 4294967296"
proof -
  let ?n = "numberOfVariables_e S" and ?T = "numberOfPoolThreads_e S"
  have p: "?n < 4294967296" "?T < 4294967296" "?T \<le> ?n div ?T + ?n mod ?T"
      "nVarsPerChunk_e S = ?n div ?T" "0 < ?n div ?T"
    using assms(1) by (auto simp: parsed_def)
  show "chunk_bounds ?n ?T (nVarsPerChunk_e S) t = range_of S t"
    using chunk_bounds_exact [OF p(1) assms(2) p(2,3)] p(4) by (simp add: range_of_def)
  show "snd (range_of S t) \<le> ?n"
    using chunk_mult_le [OF assms(2), of ?n] p(4) by (simp add: range_of_def)
  show "i < ?n \<Longrightarrow> fst (range_of S t) \<le> i \<and> i < snd (range_of S t) \<longleftrightarrow> chunk_owner ?n ?T i = t"
    using chunk_owner_eq [OF p(5) assms(2), of i] chunk_owner_range [OF p(5), of i] p(4)
    by (auto simp: range_of_def)
  have "size_of_thread C S t \<le> (\<Sum>t\<leftarrow>[0..<?T]. size_of_thread C S t)"
    using assms(2) by (intro member_le_sum_list) simp_all
  then show "size_of_thread C S t < 4294967296"
    using assms(1) by (simp add: parsed_def)
qed

lemma target_fits:
  assumes "parsed C S" "i < numberOfVariables_e S"
  defines "t \<equiv> chunk_owner (numberOfVariables_e S) (numberOfPoolThreads_e S) i"
  shows "t < numberOfPoolThreads_e S"
    and "snd (memory_d (target C S i)) + pv_extent (target C S i) \<le> size_of_thread C S t"
    and "fst (memory_d (target C S i)) = t" and "offset_d (target C S i) = snd (memory_d (target C S i))"
    and "index_d (target C S i) = i"
    and "timeStamp_d (target C S i) = (t, snd (memory_d (target C S i)) + value_bytes (target C S i))"
proof -
  have q: "0 < numberOfVariables_e S div numberOfPoolThreads_e S"
    using assms(1) by (simp add: parsed_def)
  show t: "t < numberOfPoolThreads_e S"
    unfolding t_def by (rule chunk_owner_range(1) [OF q assms(2)])
  have "t * nVarsPerChunk_e S \<le> i" "i < snd (range_of S t)"
    using parsed_range(3) [OF assms(1) t assms(2)] by (auto simp: t_def range_of_def)
  then show "snd (memory_d (target C S i)) + pv_extent (target C S i) \<le> size_of_thread C S t"
    using local_off_le [of "t * nVarsPerChunk_e S" i "snd (range_of S t)" C "maxArraySize_e S"
        "pvDescriptor_e S"]
    by (simp add: target_def t_def [symmetric] Let_def size_of_thread_range)
qed (use assms in \<open>simp_all add: target_def Let_def parsed_def\<close>)

context marte_lib
begin

lemma init_thread_step:
  assumes S0: "parsed C S0" and pl: "placed C S0 D S" and t: "t < numberOfPoolThreads_e S0" "t \<notin> D"
    and D: "D \<subseteq> {..<numberOfPoolThreads_e S0}"
  shows "\<exists>S2. init_thread L C t S = finish_init S2 \<and> initialisationDone_e S2 = card D
    \<and> placed C S0 (insert t D) (S2\<lparr>initialisationDone_e := card D + 1\<rparr>)"
proof -
  let ?n = "numberOfVariables_e S0" and ?T = "numberOfPoolThreads_e S0" and ?A = "maxArraySize_e S0"
  obtain b e where be: "range_of S0 t = (b, e)" by (cases "range_of S0 t")
  note rng = parsed_range [OF S0 t(1)]
  have b: "b = t * nVarsPerChunk_e S0" and e: "e \<le> ?n" using be rng(2) by (simp_all add: range_of_def)
  have own: "b \<le> i \<and> i < e \<longleftrightarrow> chunk_owner ?n ?T i = t" if "i < ?n" for i
    using rng(3) [OF that] be by simp
  have own_in: "chunk_owner ?n ?T i = t" if "b \<le> i" "i < e" for i
  proof -
    have "i < ?n" using that e by simp
    then show ?thesis using own that by blast
  qed
  have len: "length (pvDescriptor_e S) = ?n" "length (pvDescriptor_e S0) = ?n" "maxArraySize_e S = ?A"
      "length (memory_e S) = ?T"
    using pl S0 by (simp_all add: placed_def parsed_def)
  have old: "pvDescriptor_e S ! i = pvDescriptor_e S0 ! i" if "b \<le> i" "i < e" for i
  proof -
    have i: "i < ?n" using that e by simp
    have "chunk_owner ?n ?T i = t" using that by (rule own_in)
    then show ?thesis using i pl t(2) by (simp add: placed_def)
  qed
  have bs: "block_size C ?A (pvDescriptor_e S) b e = size_of_thread C S0 t"
    using old unfolding size_of_thread_def be block_size_def split_conv
    by (intro arg_cong [where f = sum_list] map_cong) auto
  have lo: "local_off C ?A (pvDescriptor_e S) b i = local_off C ?A (pvDescriptor_e S0) b i" if "i < e" for i
    using old that unfolding local_off_def by (intro arg_cong [where f = sum_list] map_cong) auto
  have sz: "memorySize_e S = map (\<lambda>t. if t \<in> D then size_of_thread C S0 t else 0) [0..<?T]"
    using pl by (simp add: placed_def)
  define ds1 where "ds1 = map (\<lambda>i. if b \<le> i \<and> i < e then target C S0 i
      else pvDescriptor_e S ! i) [0..<?n]"
  define mem1 where "mem1 = (memory_e S)[t := replicate (size_of_thread C S0 t) 0]"
  have tgt: "target C S0 i = place_pv t (local_off C ?A (pvDescriptor_e S) b i)
      (measured C ?A (pvDescriptor_e S ! i))" if "b \<le> i" "i < e" for i
  proof -
    have "chunk_owner ?n ?T i = t" using that by (rule own_in)
    then show ?thesis by (simp add: target_def b [symmetric] old [OF that] lo [OF that(2)])
  qed
  have "ds1 = map (\<lambda>i. if b \<le> i \<and> i < e then place_pv t (local_off C ?A (pvDescriptor_e S) b i)
      (measured C ?A (pvDescriptor_e S ! i)) else pvDescriptor_e S ! i) [0..<?n]"
    unfolding ds1_def using tgt by (intro map_cong) auto
  then have fill: "FillMemorySizes C b e t S = S\<lparr>pvDescriptor_e := ds1,
      memorySize_e := (memorySize_e S)[t := size_of_thread C S0 t], memory_e := mem1\<rparr>"
    using e len sz t bs rng(4) by (subst FillMemorySizes_eq) (simp_all add: mem1_def)
  have ready: "i < length ds1 \<and> (numberOfElements_d (ds1 ! i) > 0 \<longrightarrow>
       fst (memory_d (ds1 ! i)) < length mem1
       \<and> snd (memory_d (ds1 ! i)) + value_bytes (ds1 ! i) \<le> length (mem1 ! fst (memory_d (ds1 ! i)))
       \<and> (\<forall>v. ca_get C (pvName_d (ds1 ! i)) = Some v \<longrightarrow> value_bytes (ds1 ! i) \<le> length v))"
    if "i \<in> set [b..<e]" for i
  proof -
    have i: "i < ?n" "ds1 ! i = target C S0 i" "chunk_owner ?n ?T i = t"
      using that e own_in by (auto simp: ds1_def)
    note fits = target_fits [OF S0 i(1)]
    have "value_bytes (measured C ?A (pvDescriptor_e S0 ! i)) \<le> length v"
      if "ca_get C (pvName_d (pvDescriptor_e S0 ! i)) = Some v" for v
    proof -
      have "pvDescriptor_e S0 ! i \<in> set (pvDescriptor_e S0)" using i len by simp
      with S0 that show ?thesis by (fastforce simp: parsed_def ca_complete_def)
    qed
    moreover have "value_bytes (target C S0 i) = value_bytes (measured C ?A (pvDescriptor_e S0 ! i))"
        "pvName_d (target C S0 i) = pvName_d (pvDescriptor_e S0 ! i)"
      by (simp_all add: target_def Let_def)
    moreover have "0 < numberOfElements_d (target C S0 i) \<Longrightarrow>
        pv_extent (target C S0 i) = value_bytes (target C S0 i) + TS_SIZE"
      by (simp add: pv_extent_def)
    ultimately show ?thesis
      using i fits len t by (auto simp: mem1_def) (simp add: ds1_def)
  qed
  obtain ds2 mem2 where sub: "subscribe_loop L C [b..<e] ds1 mem1 = Inr (ds2, mem2)"
      "map length mem2 = map length mem1" "length ds2 = length ds1"
      "\<And>i. i < length ds1 \<Longrightarrow> if i \<in> set [b..<e] then same_place (ds1 ! i) (ds2 ! i) else ds2 ! i = ds1 ! i"
    using subscribe_loop_ok [of "[b..<e]" ds1 mem1 C] ready by auto
  define S2 where "S2 = S\<lparr>memorySize_e := (memorySize_e S)[t := size_of_thread C S0 t],
      pvDescriptor_e := ds2, memory_e := mem2\<rparr>"
  have "init_thread L C t S = finish_init S2"
    using pl rng(1) be fill sub(1)
    by (simp add: init_thread_def placed_def CreateSubscriptions_def S2_def)
  moreover have "placed C S0 (insert t D) (S2\<lparr>initialisationDone_e := card D + 1\<rparr>)"
  proof -
    have "(memorySize_e S)[t := size_of_thread C S0 t] =
        map (\<lambda>k. if k \<in> insert t D then size_of_thread C S0 k else 0) [0..<?T]"
      unfolding sz using t by (auto intro!: nth_equalityI simp: nth_list_update)
    moreover have m: "length mem2 = ?T" "\<And>k. k < ?T \<Longrightarrow> length (mem2 ! k) = length (mem1 ! k)"
      using sub(2) len by (metis length_list_update length_map mem1_def,
          metis length_list_update length_map mem1_def nth_map)
    moreover have "length (mem2 ! k) = size_of_thread C S0 k" if "k \<in> insert t D" for k
      using that m(2) [of k] D pl len t by (auto simp: mem1_def placed_def nth_list_update)
    moreover have "finite D" using D finite_subset by blast
    moreover have "if chunk_owner ?n ?T i \<in> insert t D then same_place (target C S0 i) (ds2 ! i)
        else ds2 ! i = pvDescriptor_e S0 ! i" if "i < ?n" for i
      using that sub(4) [of i] own [OF that] pl by (auto simp: ds1_def placed_def)
    ultimately show ?thesis
      using pl sub(3) t(2) by (simp add: placed_def S2_def ds1_def)
  qed
  moreover have "initialisationDone_e S2 = card D" using pl by (simp add: S2_def placed_def)
  ultimately show ?thesis by blast
qed

end

subsection \<open>The layout\<close>

definition has_value :: "pv_desc \<Rightarrow> bool" where
  "has_value d \<longleftrightarrow> 0 < numberOfElements_d d"

text \<open>Where a variable lies in the blocks and in the joined memory.\<close>

definition pv_placed :: "subscriber \<Rightarrow> pv_desc \<Rightarrow> bool" where
  "pv_placed S d \<longleftrightarrow>
     (case memory_d d of (t, off) \<Rightarrow>
        t < numberOfPoolThreads_e S \<and> timeStamp_d d = (t, off + value_bytes d)
        \<and> offset_d d = sum_list (take t (memorySize_e S)) + off
        \<and> off + value_bytes d + TS_SIZE \<le> memorySize_e S ! t)"

definition layout_ok :: "subscriber \<Rightarrow> bool" where
  "layout_ok S \<longleftrightarrow>
     length (pvDescriptor_e S) = numberOfVariables_e S
     \<and> length (memory_e S) = numberOfPoolThreads_e S \<and> memorySize_e S = map length (memory_e S)
     \<and> length (changedFlagMem_e S) = numberOfVariables_e S
     \<and> sum_list (memorySize_e S) < 4294967296
     \<and> (\<forall>i < numberOfVariables_e S. index_d (pvDescriptor_e S ! i) = i)
     \<and> (\<forall>i < numberOfVariables_e S. has_value (pvDescriptor_e S ! i) \<longrightarrow>
          pv_placed S (pvDescriptor_e S ! i))
     \<and> (\<forall>i j. i < j \<longrightarrow> j < numberOfVariables_e S \<longrightarrow>
          has_value (pvDescriptor_e S ! i) \<longrightarrow> has_value (pvDescriptor_e S ! j) \<longrightarrow>
          offset_d (pvDescriptor_e S ! i) + value_bytes (pvDescriptor_e S ! i) + TS_SIZE
            \<le> offset_d (pvDescriptor_e S ! j))"

lemma sum_take_mono: "a \<le> b \<Longrightarrow> sum_list (take a xs) \<le> sum_list (take b (xs :: nat list))"
proof -
  assume "a \<le> b"
  then have "take b xs = take a xs @ take (b - a) (drop a xs)"
    by (metis le_add_diff_inverse take_add)
  then show ?thesis by simp
qed

lemma sum_take_next:
  "a < b \<Longrightarrow> a < length xs \<Longrightarrow> sum_list (take a xs) + xs ! a \<le> sum_list (take b (xs :: nat list))"
  using sum_take_mono [of "Suc a" b xs] by (simp add: take_Suc_conv_app_nth)

text \<open>Where the offsets of two variables stand before and after the mapping.\<close>

definition joined_off :: "ca_lib \<Rightarrow> subscriber \<Rightarrow> nat \<Rightarrow> nat" where
  "joined_off C S i =
     sum_list (take (chunk_owner (numberOfVariables_e S) (numberOfPoolThreads_e S) i)
       (map (size_of_thread C S) [0..<numberOfPoolThreads_e S])) + snd (memory_d (target C S i))"

lemma joined_off_mono:
  assumes "parsed C S" "i < j" "j < numberOfVariables_e S"
  shows "joined_off C S i + pv_extent (target C S i) \<le> joined_off C S j"
proof -
  let ?n = "numberOfVariables_e S" and ?T = "numberOfPoolThreads_e S"
  let ?a = "chunk_owner ?n ?T i" and ?b = "chunk_owner ?n ?T j"
  let ?sz = "map (size_of_thread C S) [0..<?T]"
  have i: "i < ?n" using assms by simp
  note ti = target_fits(1,2) [OF assms(1) i] and tj = target_fits(1) [OF assms(1,3)]
  have ab: "?a \<le> ?b"
    unfolding chunk_owner_def using assms(2) by (intro min.mono div_le_mono) simp_all
  show ?thesis
  proof (cases "?a = ?b")
    case True
    have "?a * nVarsPerChunk_e S \<le> i"
      using parsed_range(3) [OF assms(1) ti(1) i] by (simp add: range_of_def)
    then show ?thesis
      using local_off_mono [OF _ assms(2), of "?a * nVarsPerChunk_e S" C "maxArraySize_e S"
          "pvDescriptor_e S"] True
      by (simp add: joined_off_def target_def Let_def)
  next
    case False
    then have "sum_list (take ?a ?sz) + ?sz ! ?a \<le> sum_list (take ?b ?sz)"
      using ab ti(1) by (intro sum_take_next) simp_all
    moreover have "?sz ! ?a = size_of_thread C S ?a" using ti(1) by simp
    ultimately show ?thesis using ti(2) by (simp add: joined_off_def)
  qed
qed

lemma placed_all_layout:
  assumes S0: "parsed C S0" and pl: "placed C S0 {..<numberOfPoolThreads_e S0} S"
  defines "ds \<equiv> map (\<lambda>i. (pvDescriptor_e S ! i)\<lparr>offset_d := offset_d (pvDescriptor_e S ! i)
       + sum_list (take (min (i div nVarsPerChunk_e S) (numberOfPoolThreads_e S - 1)) (memorySize_e S))\<rparr>)
       [0..<numberOfVariables_e S]"
  shows "layout_ok (S\<lparr>pvDescriptor_e := ds\<rparr>)"
proof -
  let ?n = "numberOfVariables_e S0" and ?T = "numberOfPoolThreads_e S0"
  let ?sz = "map (size_of_thread C S0) [0..<?T]"
  have eqs: "numberOfVariables_e S = ?n" "numberOfPoolThreads_e S = ?T"
      "nVarsPerChunk_e S = ?n div ?T" "memorySize_e S = ?sz"
      "length (memory_e S) = ?T" "changedFlagMem_e S = changedFlagMem_e S0"
    using pl S0 by (auto simp: placed_def parsed_def)
  have d: "ds ! i = (pvDescriptor_e S ! i)\<lparr>offset_d := joined_off C S0 i\<rparr>
      \<and> same_place (target C S0 i) (pvDescriptor_e S ! i)" if i: "i < ?n" for i
  proof -
    have sp: "same_place (target C S0 i) (pvDescriptor_e S ! i)"
      using pl i target_fits(1) [OF S0 i] by (auto simp: placed_def)
    then show ?thesis
      using i eqs target_fits(4) [OF S0 i] same_place_fields [OF sp]
      by (simp add: ds_def joined_off_def chunk_owner_def add.commute)
  qed
  have f: "index_d (ds ! i) = i \<and> offset_d (ds ! i) = joined_off C S0 i
      \<and> value_bytes (ds ! i) = value_bytes (target C S0 i) \<and> memory_d (ds ! i) = memory_d (target C S0 i)
      \<and> timeStamp_d (ds ! i) = timeStamp_d (target C S0 i)
      \<and> (has_value (ds ! i) \<longrightarrow> pv_extent (target C S0 i) = value_bytes (target C S0 i) + TS_SIZE)"
    if i: "i < ?n" for i
    using d [OF i] target_fits(5) [OF S0 i] same_place_fields [of "target C S0 i" "pvDescriptor_e S ! i"]
    by (auto simp: value_bytes_def has_value_def pv_extent_def)
  have "memorySize_e S = map length (memory_e S)"
    using pl eqs by (auto intro!: nth_equalityI simp: placed_def)
  moreover have "pv_placed (S\<lparr>pvDescriptor_e := ds\<rparr>) (ds ! i)" if "i < ?n" "has_value (ds ! i)" for i
    using f [OF that(1)] that(2) target_fits [OF S0 that(1)] eqs
    by (cases "memory_d (target C S0 i)") (simp add: pv_placed_def joined_off_def)
  moreover have "offset_d (ds ! i) + value_bytes (ds ! i) + TS_SIZE \<le> offset_d (ds ! j)"
    if "i < j" "j < ?n" "has_value (ds ! i)" for i j
    using joined_off_mono [OF S0 that(1,2)] f [of i] f [of j] that by simp
  ultimately show ?thesis
    using eqs S0 f by (simp add: layout_ok_def parsed_def ds_def)
qed

context marte_lib
begin

lemma init_threads_ok:
  assumes S0: "parsed C S0" and "placed C S0 D S" and "distinct ts" "ts \<noteq> []"
    and "D \<inter> set ts = {}" "D \<union> set ts = {..<numberOfPoolThreads_e S0}"
  shows "\<exists>S'. init_threads L C ts S = Inr S' \<and> layout_ok S' \<and> InitialisationDone S'
    \<and> numberOfVariables_e S' = numberOfVariables_e S0
    \<and> memorySize_e S' = map (size_of_thread C S0) [0..<numberOfPoolThreads_e S0]"
  using assms(2-)
proof (induction ts arbitrary: D S)
  case Nil
  then show ?case by simp
next
  case (Cons t ts)
  let ?T = "numberOfPoolThreads_e S0"
  have t: "t < ?T" "t \<notin> D" "D \<subseteq> {..<?T}" using Cons.prems by auto
  obtain S2 where S2: "init_thread L C t S = finish_init S2" "initialisationDone_e S2 = card D"
      "placed C S0 (insert t D) (S2\<lparr>initialisationDone_e := card D + 1\<rparr>)"
    using init_thread_step [OF S0 Cons.prems(1) t] by blast
  have fin: "finite D" using t(3) finite_subset by blast
  have T: "0 < ?T" "?T < 4294967296" using S0 by (auto simp: parsed_def)
  have cD: "card D + length (t # ts) = ?T"
  proof -
    have "card D + card (set (t # ts)) = card {..<?T}"
      using Cons.prems(4,5) fin card_Un_disjoint [of D "set (t # ts)"] by simp
    then show ?thesis using Cons.prems(2) by (simp add: distinct_card)
  qed
  have eqs: "numberOfPoolThreads_e S2 = ?T" "numberOfVariables_e S2 = length (pvDescriptor_e S2)"
      "nVarsPerChunk_e S2 = nVarsPerChunk_e S0" "numberOfVariables_e S2 = numberOfVariables_e S0"
    using S2(3) by (auto simp: placed_def)
  have u: "u32_sub ?T 1 = ?T - 1" "u32 (card D + 1) = card D + 1"
    using T cD by (simp_all add: u32_sub_id u32_id)
  show ?case
  proof (cases "ts = []")
    case False
    then have "\<not> ?T - 1 \<le> card D" using cD by (cases ts) auto
    then have "init_thread L C t S = Inr (S2\<lparr>initialisationDone_e := card D + 1\<rparr>)"
      using S2(1,2) eqs(1) u by (simp add: finish_init_def)
    moreover have "insert t D \<inter> set ts = {}" "insert t D \<union> set ts = {..<?T}" "distinct ts"
      using Cons.prems by auto
    ultimately show ?thesis
      using Cons.IH [OF S2(3) _ False] by simp
  next
    case True
    then have last: "?T - 1 \<le> card D" "insert t D = {..<?T}" "card D + 1 = ?T"
      using cD Cons.prems(5) by auto
    have q: "0 < nVarsPerChunk_e S0" using S0 by (simp add: parsed_def)
    define ds where "ds = map (\<lambda>i. (pvDescriptor_e S2 ! i)\<lparr>offset_d := offset_d (pvDescriptor_e S2 ! i)
       + sum_list (take (min (i div nVarsPerChunk_e S2) (?T - 1)) (memorySize_e S2))\<rparr>)
       [0..<numberOfVariables_e S2]"
    let ?S' = "S2\<lparr>initialisationDone_e := card D + 1, pvDescriptor_e := ds\<rparr>"
    have "init_thread L C t S = Inr ?S'"
      using S2(1,2) eqs u last(1) remap_loop_all [OF q T, where ds = "pvDescriptor_e S2" and sizes = "memorySize_e S2"]
      by (simp add: finish_init_def ds_def)
    moreover have "layout_ok ?S'"
      using placed_all_layout [OF S0 S2(3) [unfolded last(2)]] eqs by (simp add: ds_def)
    moreover have "memorySize_e S2 = map (size_of_thread C S0) [0..<?T]"
      using S2(3) last(2) by (auto simp: placed_def)
    ultimately show ?thesis
      using True last(3) eqs by (simp add: InitialisationDone_def)
  qed
qed

end

end
