(* ===== verification/ReceiverTable.thy ===== *)
theory ReceiverTable
  imports XmlScan
begin

section \<open>The receiver's table of process variables\<close>

text \<open>
  \<open>DiodeReceiver::Initialise\<close> copies the selected names into the array \<open>pvs\<close> and sifts each
  one back to its place in the order of \<open>StringHelper::Compare\<close>;
  \<open>DiodeReceiver::GetLocalVariableIndex\<close> finds a received name in that array by bisection.
  The lemmas show that the table is the sorted permutation of the selected names and that
  the bisection terminates, never leaves the table, and finds a name exactly when it is
  there.
\<close>

definition PV_NAME_MAX_SIZE_REC :: nat where
  "PV_NAME_MAX_SIZE_REC = 64"

record pv_rec =
  pvChid_r :: "ca_channel option"
  pvType_r :: dbf_type
  numberOfElements_r :: nat
  pvName_r :: bytes
  at_r :: any_type
  totalSize_r :: nat
  offset_r :: nat

abbreviation names_of :: "pv_rec list \<Rightarrow> bytes list" where
  "names_of pvs \<equiv> map pvName_r pvs"

subsection \<open>Filling the table\<close>

text \<open>The exchange of two names through the local array \<open>pvName\<close>.\<close>

definition swap_names :: "pv_rec list \<Rightarrow> nat \<Rightarrow> pv_rec list" where
  "swap_names pvs j =
     (let pvName = pvName_r (pvs ! j);
          pvs = pvs[j := (pvs ! j)\<lparr>pvName_r := pvName_r (pvs ! Suc j)\<rparr>]
      in pvs[Suc j := (pvs ! Suc j)\<lparr>pvName_r := pvName\<rparr>])"

text \<open>The loop \<open>for (j = counter; j > 0; j--)\<close>.\<close>

fun sift_back :: "marte \<Rightarrow> nat \<Rightarrow> pv_rec list \<Rightarrow> pv_rec list" where
  "sift_back L 0 pvs = pvs"
| "sift_back L (Suc j) pvs =
     (if StrCompare L (pvName_r (pvs ! Suc j)) (pvName_r (pvs ! j)) = 1
      then sift_back L j (swap_names pvs j)
      else pvs)"

text \<open>
  The filling pass. The array has \<open>numberOfVariables\<close> entries; \<open>StringHelper::Copy\<close> does
  not know the size of the name array, so a name of 64 characters or more overflows it.
\<close>

partial_function (option) fill_loop ::
  "marte \<Rightarrow> 'f xml_file \<Rightarrow> bytes \<Rightarrow> nat \<Rightarrow> 'f \<Rightarrow> bool \<Rightarrow> nat \<Rightarrow> pv_rec list
     \<Rightarrow> (fault + pv_rec list) option" where
  "fill_loop L X firstVariableName maxNumberOfVariables f start counter pvs =
     (case GetVariable_rec X f [] of
        None \<Rightarrow> None
      | Some (ret, f1, variable) \<Rightarrow>
          if ret then
            (if start \<or> variable = firstVariableName then
               (if counter \<ge> length pvs then Some (Inl Out_Of_Bounds)
                else if length variable \<ge> PV_NAME_MAX_SIZE_REC then Some (Inl Buffer_Overflow)
                else if u32 (counter + 1) \<ge> maxNumberOfVariables
                then Some (Inr (sift_back L counter
                       (pvs[counter := (pvs ! counter)
                          \<lparr>at_r := voidAnyType, pvName_r := variable\<rparr>])))
                else fill_loop L X firstVariableName maxNumberOfVariables f1 True
                       (u32 (counter + 1))
                       (sift_back L counter
                         (pvs[counter := (pvs ! counter)
                            \<lparr>at_r := voidAnyType, pvName_r := variable\<rparr>])))
             else fill_loop L X firstVariableName maxNumberOfVariables f1 start counter pvs)
          else Some (Inr pvs))"

text \<open>Both passes over the file, as \<open>Initialise\<close> runs them; \<open>junk\<close> is what \<open>new\<close>
  leaves in a fresh descriptor.\<close>

definition load_pvs ::
  "marte \<Rightarrow> 'f xml_file \<Rightarrow> pv_rec \<Rightarrow> bytes \<Rightarrow> nat \<Rightarrow> 'f \<Rightarrow> (fault + pv_rec list) option" where
  "load_pvs L X junk firstVariableName maxNumberOfVariables f =
     (case count_loop X firstVariableName maxNumberOfVariables f False 0 of
        None \<Rightarrow> None
      | Some numberOfVariables \<Rightarrow>
          fill_loop L X firstVariableName maxNumberOfVariables f False 0
            (replicate numberOfVariables junk))"

subsection \<open>Sorting by sifting\<close>

text \<open>The names alone: sifting inserts behind the elements that are not greater.\<close>

fun ins_rev :: "marte \<Rightarrow> bytes \<Rightarrow> bytes list \<Rightarrow> bytes list" where
  "ins_rev L x [] = [x]"
| "ins_rev L x (y # ys) = (if StrCompare L x y = 1 then y # ins_rev L x ys else x # y # ys)"

lemma length_swap_names [len_simps, simp]: "length (swap_names pvs j) = length pvs"
  by (simp add: swap_names_def Let_def)

lemma length_sift_back [len_simps, simp]: "length (sift_back L j pvs) = length pvs"
  by (induction L j pvs rule: sift_back.induct) simp_all

lemma names_swap_names:
  "Suc j < length pvs \<Longrightarrow> names_of (swap_names pvs j) =
     (names_of pvs)[j := names_of pvs ! Suc j, Suc j := names_of pvs ! j]"
  by (simp add: swap_names_def Let_def map_update)

lemma sift_back_names:
  "j < length pvs \<Longrightarrow> names_of (sift_back L j pvs) =
     rev (ins_rev L (pvName_r (pvs ! j)) (rev (take j (names_of pvs))))
       @ drop (Suc j) (names_of pvs)"
proof (induction L j pvs rule: sift_back.induct)
  case (1 L pvs)
  then show ?case by (cases pvs) simp_all
next
  case (2 L j pvs)
  let ?ns = "names_of pvs"
  have tk: "rev (take (Suc j) ?ns) = ?ns ! j # rev (take j ?ns)"
    using "2.prems" by (simp add: take_Suc_conv_app_nth)
  have dr: "drop (Suc j) ?ns = ?ns ! Suc j # drop (Suc (Suc j)) ?ns"
    using "2.prems" Cons_nth_drop_Suc [of "Suc j" ?ns] by simp
  show ?case
  proof (cases "StrCompare L (pvName_r (pvs ! Suc j)) (pvName_r (pvs ! j)) = 1")
    case True
    let ?sw = "swap_names pvs j"
    have sw: "names_of ?sw = ?ns[j := ?ns ! Suc j, Suc j := ?ns ! j]"
      using "2.prems" by (simp add: names_swap_names)
    have "pvName_r (?sw ! j) = names_of ?sw ! j"
      using "2.prems" by simp
    also have "\<dots> = ?ns ! Suc j"
      unfolding sw using "2.prems" by simp
    finally have nth: "pvName_r (?sw ! j) = ?ns ! Suc j" .
    have "names_of (sift_back L j ?sw) =
        rev (ins_rev L (?ns ! Suc j) (rev (take j ?ns))) @ ?ns ! j # drop (Suc (Suc j)) ?ns"
      using "2.IH" [OF True] "2.prems" sw nth
      by (simp add: drop_update_swap Cons_nth_drop_Suc [symmetric])
    then show ?thesis
      using True "2.prems" tk by simp
  next
    case False
    then show ?thesis
      using "2.prems" tk dr append_take_drop_id [of "Suc j" ?ns] by simp
  qed
qed

lemma mset_ins_rev: "mset (ins_rev L x ys) = add_mset x (mset ys)"
  by (induction ys) auto

lemma length_ins_rev [simp]: "length (ins_rev L x ys) = Suc (length ys)"
  by (induction ys) auto

lemma take_sift_back:
  "j < length pvs \<Longrightarrow> take (Suc j) (names_of (sift_back L j pvs)) =
     rev (ins_rev L (pvName_r (pvs ! j)) (rev (take j (names_of pvs))))"
  by (simp add: sift_back_names)

lemma mset_sift_back:
  assumes "j < length pvs"
  shows "mset (names_of (sift_back L j pvs)) = mset (names_of pvs)"
proof -
  have "mset (names_of pvs) = mset (take j (names_of pvs) @ names_of pvs ! j
      # drop (Suc j) (names_of pvs))"
    using assms id_take_nth_drop [of j "names_of pvs"] by simp
  then show ?thesis
    using assms by (simp add: sift_back_names mset_ins_rev)
qed

context name_order
begin

abbreviation name_sorted :: "bytes list \<Rightarrow> bool" where
  "name_sorted \<equiv> sorted_wrt name_le"

lemma name_sorted_index:
  assumes "name_sorted ns" "i \<le> j" "j < length ns"
  shows "name_le (ns ! i) (ns ! j)"
  using assms by (cases "i = j") (auto simp: sorted_wrt_nth_less)

end

context marte_lib
begin

lemma ins_rev_sorted:
  "sorted_wrt (\<lambda>a b. names.name_le b a) ys \<Longrightarrow>
   sorted_wrt (\<lambda>a b. names.name_le b a) (ins_rev L x ys)"
proof (induction ys)
  case Nil
  then show ?case by simp
next
  case (Cons y ys)
  have set: "set (ins_rev L x ys) = insert x (set ys)"
    using mset_ins_rev [of L x ys] by (metis set_mset_add_mset_insert set_mset_mset)
  show ?case
  proof (cases "StrCompare L x y = 1")
    case True
    with Cons set show ?thesis by (auto intro: names.cmp_less_le)
  next
    case False
    then have "names.name_le y x"
      using names.cmp_less_le names.cmp_not_less by auto
    with False Cons show ?thesis by (auto intro: names.name_le_trans)
  qed
qed

lemma sift_back_sorted:
  assumes "j < length pvs" and "names.name_sorted (take j (names_of pvs))"
  shows "names.name_sorted (take (Suc j) (names_of (sift_back L j pvs)))"
proof -
  let ?r = "rev (ins_rev L (pvName_r (pvs ! j)) (rev (take j (names_of pvs))))"
  have "length ?r = Suc j"
    using assms(1) by simp
  moreover have "names.name_sorted ?r"
    using assms(2) ins_rev_sorted by (simp add: sorted_wrt_rev)
  ultimately show ?thesis
    using assms(1) by (simp add: sift_back_names)
qed

end

subsection \<open>The filling pass\<close>

context xml_source
begin

lemma fill_loop_overflow:
  assumes "xml_names X f = Some vs"
    and "v \<in> set (take (maxN - counter) (if start then vs else dropWhile (\<lambda>v. v \<noteq> first) vs))"
    and "length v \<ge> PV_NAME_MAX_SIZE_REC" and "maxN < 4294967296"
    and "length pvs = counter + length (take (maxN - counter) (if start then vs else dropWhile (\<lambda>v. v \<noteq> first) vs))"
  shows "fill_loop L X first maxN f start counter pvs = Some (Inl Buffer_Overflow)"
  using assms(1,2,5)
proof (induction arbitrary: counter start pvs rule: xml_names_induct)
  case (Stop f f1 v)
  then show ?case by (simp split: if_splits)
next
  case (Name f f1 w vs)
  show ?case
  proof (cases "start \<or> w = first")
    case False
    with Name.prems have "v \<in> set (take (maxN - counter) (dropWhile (\<lambda>v. v \<noteq> first) vs))"
        "length pvs = counter + length (take (maxN - counter) (dropWhile (\<lambda>v. v \<noteq> first) vs))"
      by (simp_all split: if_splits)
    with False Name.hyps Name.IH [of counter False pvs] show ?thesis
      by (simp add: fill_loop.simps [of L X first maxN f] GetVariable_rec_def)
  next
    case True
    then have v: "v \<in> set (take (maxN - counter) (w # vs))"
      using Name.prems by (auto split: if_splits)
    then have c: "counter < maxN" by (cases "maxN - counter") auto
    have m: "maxN - counter = Suc (maxN - Suc counter)" using c by simp
    have "v = w \<or> v \<in> set (take (maxN - Suc counter) vs)"
      using v unfolding m by auto
    moreover have "length pvs = Suc counter + length (take (maxN - Suc counter) vs)"
      using Name.prems(2) True unfolding m by (auto split: if_splits)
    moreover have "u32 (counter + 1) = Suc counter"
      using c assms(4) by (simp add: u32_id)
    ultimately show ?thesis
      using True Name.hyps Name.IH [of "Suc counter" True] assms(3) c
      by (auto simp del: length_take simp: fill_loop.simps [of L X first maxN f] GetVariable_rec_def)
  qed
qed

end

context marte_lib
begin

lemma fill_loop_started:
  fixes X :: "'f xml_file" and remaining
  assumes src: "xml_source X remaining" and "xml_names X f = Some vs"
    and "maxN < 4294967296" and "counter < max 1 maxN"
    and "length pvs = counter + length (take (max 1 maxN - counter) vs)"
    and "\<forall>v \<in> set (take (max 1 maxN - counter) vs). length v < PV_NAME_MAX_SIZE_REC"
    and "names.name_sorted (take counter (names_of pvs))"
  shows "\<exists>pvs'. fill_loop L X first maxN f True counter pvs = Some (Inr pvs')
    \<and> length pvs' = length pvs
    \<and> mset (names_of pvs') = mset (take counter (names_of pvs))
        + mset (take (max 1 maxN - counter) vs)
    \<and> names.name_sorted (names_of pvs')"
  using assms(2,4-)
proof (induction arbitrary: counter pvs rule: xml_source.xml_names_induct [OF src, consumes 1])
  case (1 f f1 v)
  then show ?case by (simp add: fill_loop.simps [of L X first maxN f] GetVariable_rec_def)
next
  case (2 f f1 v vs)
  define pvs1 where "pvs1 = sift_back L counter
    (pvs[counter := (pvs ! counter)\<lparr>at_r := voidAnyType, pvName_r := v\<rparr>])"
  obtain k where k: "max 1 maxN - counter = Suc k" "k = max 1 maxN - Suc counter"
    using "2.prems"(1) by (metis Suc_diff_Suc)
  have c: "counter < length pvs" "length v < PV_NAME_MAX_SIZE_REC"
    using "2.prems"(2,3) k by auto
  have u: "u32 (counter + 1) = Suc counter"
    using "2.prems"(1) assms(3) by (auto intro: u32_id)
  have names1: "names_of (pvs[counter := (pvs ! counter)\<lparr>at_r := voidAnyType, pvName_r := v\<rparr>])
      = (names_of pvs)[counter := v]"
    by (simp add: map_update)
  have len1: "length pvs1 = length pvs" by (simp add: pvs1_def)
  have sorted1: "names.name_sorted (take (Suc counter) (names_of pvs1))"
    unfolding pvs1_def using "2.prems"(4) c names1 by (intro sift_back_sorted) simp_all
  have mset1: "mset (take (Suc counter) (names_of pvs1)) =
      mset (take counter (names_of pvs)) + {#v#}"
    unfolding pvs1_def using c names1 by (subst take_sift_back) (simp_all add: mset_ins_rev)
  have step: "fill_loop L X first maxN f True counter pvs =
      (if Suc counter \<ge> maxN then Some (Inr pvs1)
       else fill_loop L X first maxN f1 True (Suc counter) pvs1)"
    using "2.hyps" c u
    by (simp add: fill_loop.simps [of L X first maxN f] GetVariable_rec_def pvs1_def)
  show ?case
  proof (cases "Suc counter \<ge> maxN")
    case True
    then have "k = 0" "length pvs1 = Suc counter"
      using "2.prems"(1,2) k len1 by auto
    then show ?thesis using True step k len1 sorted1 mset1 by auto
  next
    case False
    then have "Suc counter < max 1 maxN" by simp
    moreover have "length pvs1 = Suc counter + length (take k vs)"
      using "2.prems"(2) k len1 by simp
    ultimately show ?thesis
      using "2.IH" [of "Suc counter" pvs1] "2.prems"(3) False step k len1 sorted1 mset1
      by auto
  qed
qed

end

subsection \<open>Looking a name up\<close>

text \<open>
  The \<open>while\<close> loop of \<open>GetLocalVariableIndex\<close> over \<open>range_1\<close>, \<open>range\<close> (here \<open>rng\<close>) and \<open>index\<close>, all
  unsigned. A comparison result other than 0, 1 or 2 leaves the variables unchanged.
\<close>

partial_function (option) lookup_loop ::
  "marte \<Rightarrow> pv_rec list \<Rightarrow> nat \<Rightarrow> bytes \<Rightarrow> nat \<Rightarrow> nat \<Rightarrow> nat \<Rightarrow> (bool \<times> nat) option" where
  "lookup_loop L pvs numberOfVariables varName range_1 rng index =
     (if range_1 > 0 then
        (let res = (if index \<ge> numberOfVariables then 2
                    else StrCompare L (pvName_r (pvs ! index)) varName)
         in if res = 0 then Some (True, index)
            else if res = 2 then
              (let rem = rng mod 2;
                   range_1' = rng;
                   index' = (if rem = 1 then u32_sub index 1 else index);
                   rng' = range_1' div 2
               in lookup_loop L pvs numberOfVariables varName range_1' rng'
                    (u32_sub index' rng'))
            else if res = 1 then
              (let rem_1 = range_1 mod 2;
                   range_1' = (if rem_1 = 0 then u32_sub rng 1 else rng);
                   rng' = range_1' div 2
               in lookup_loop L pvs numberOfVariables varName range_1' rng'
                    (u32 (index + (rng' + 1))))
            else lookup_loop L pvs numberOfVariables varName range_1 rng index)
      else Some (False, index))"

definition GetLocalVariableIndex ::
  "marte \<Rightarrow> pv_rec list \<Rightarrow> nat \<Rightarrow> bytes \<Rightarrow> (bool \<times> nat) option" where
  "GetLocalVariableIndex L pvs numberOfVariables varName =
     (let range_1 = numberOfVariables;
          rng = numberOfVariables div 2
      in lookup_loop L pvs numberOfVariables varName range_1 rng rng)"

text \<open>The two halves of the window, in the unsigned arithmetic of the loop.\<close>

lemma bisect_left:
  assumes "lo + h < 4294967296"
  shows "u32_sub (if h mod 2 = 1 then u32_sub (lo + h) 1 else lo + h) (h div 2) = lo + h div 2"
proof (cases "h mod 2 = 1")
  case True
  then obtain k where "h = 2 * k + 1" by (metis mult_div_mod_eq)
  with assms True show ?thesis by (simp add: u32_sub_id)
next
  case False
  then obtain k where "h = 2 * k" by (metis add.right_neutral mult_div_mod_eq not_mod_2_eq_1_eq_0)
  with assms False show ?thesis by (simp add: u32_sub_id)
qed

lemma bisect_right:
  assumes "0 < n" "n < 4294967296"
  shows "(if n mod 2 = 0 then u32_sub (n div 2) 1 else n div 2) = n - Suc (n div 2)"
proof (cases "n mod 2 = 0")
  case True
  then obtain k where "n = 2 * k" by (metis add.right_neutral mult_div_mod_eq)
  with assms True show ?thesis by (simp add: u32_sub_id)
next
  case False
  then obtain k where "n = 2 * k + 1" by (metis mult_div_mod_eq not_mod_2_eq_0_eq_1)
  with assms False show ?thesis by simp
qed

context marte_lib
begin

lemma lookup_loop_window:
  assumes "names.name_sorted (names_of pvs)" and "length pvs < 4294967296"
    and "lo + n \<le> length pvs"
    and "\<And>i. i < length pvs \<Longrightarrow> names_of pvs ! i = x \<Longrightarrow> lo \<le> i \<and> i < lo + n"
  shows "\<exists>ok i. lookup_loop L pvs (length pvs) x n (n div 2) (lo + n div 2) = Some (ok, i)
    \<and> (if ok then i < length pvs \<and> names_of pvs ! i = x else x \<notin> set (names_of pvs))"
  using assms(3,4)
proof (induction n arbitrary: lo rule: less_induct)
  case (less n)
  let ?N = "length pvs" and ?m = "lo + n div 2"
  show ?case
  proof (cases "n = 0")
    case True
    then have "x \<notin> set (names_of pvs)"
      using less.prems(2) by (fastforce simp: in_set_conv_nth)
    with True show ?thesis by (simp add: lookup_loop.simps [of L pvs ?N x 0])
  next
    case False
    then have m: "?m < ?N" using less.prems(1) by linarith
    let ?c = "StrCompare L (pvName_r (pvs ! ?m)) x"
    note unfold = lookup_loop.simps [of L pvs ?N x n "n div 2" ?m]
    consider "?c = 0" | "?c = 2" | "?c = 1"
      using names.cmp_range by blast
    then show ?thesis
    proof cases
      case 1
      then show ?thesis
        using m False names.cmp_eq by (simp add: unfold Let_def)
    next
      case 2
      have le: "names_of pvs ! i = x \<Longrightarrow> i < ?m" if "i < ?N" for i
        using names.name_sorted_index [OF assms(1), of ?m i] that 2 m
        by (metis length_map linorder_not_less names.name_le_def nth_map)
      have "u32_sub (if n div 2 mod 2 = 1 then u32_sub ?m 1 else ?m) (n div 2 div 2)
          = lo + n div 2 div 2"
        using m assms(2) by (intro bisect_left) simp
      moreover have "n div 2 < n" using False by simp
      ultimately show ?thesis
        using less.IH [of "n div 2" lo] less.prems 2 m False le
        by (simp add: unfold Let_def)
    next
      case 3
      define n' where "n' = n - Suc (n div 2)"
      have ge: "names_of pvs ! i = x \<Longrightarrow> ?m < i" if "i < ?N" for i
        using names.name_sorted_index [OF assms(1), of i ?m] that 3 m names.cmp_dual
        by (metis length_map linorder_not_less names.name_le_def nth_map)
      have r: "(if n mod 2 = 0 then u32_sub (n div 2) 1 else n div 2) = n'"
        using False less.prems(1) assms(2) unfolding n'_def by (intro bisect_right) simp_all
      have i: "u32 (?m + (n' div 2 + 1)) = Suc ?m + n' div 2"
        using less.prems(1) assms(2) False unfolding n'_def by (subst u32_id) auto
      have "n' < n" "Suc ?m + n' \<le> ?N" using False less.prems(1) by (auto simp: n'_def)
      moreover have "Suc ?m \<le> i \<and> i < Suc ?m + n'"
        if "i < ?N" "names_of pvs ! i = x" for i
        using ge [OF that] less.prems(2) [OF that] by (simp add: n'_def)
      ultimately have "\<exists>ok i. lookup_loop L pvs ?N x n' (n' div 2) (Suc ?m + n' div 2) = Some (ok, i)
          \<and> (if ok then i < ?N \<and> names_of pvs ! i = x else x \<notin> set (names_of pvs))"
        by (rule less.IH)
      moreover have "lookup_loop L pvs ?N x n (n div 2) ?m =
          lookup_loop L pvs ?N x n' (n' div 2) (Suc ?m + n' div 2)"
        using 3 m False r i by (simp add: unfold Let_def n'_def)
      ultimately show ?thesis by simp
    qed
  qed
qed

lemma GetLocalVariableIndex_correct:
  assumes "names.name_sorted (names_of pvs)" and "length pvs < 4294967296"
  obtains ok i where "GetLocalVariableIndex L pvs (length pvs) x = Some (ok, i)"
    and "ok \<longleftrightarrow> x \<in> set (names_of pvs)"
    and "ok \<Longrightarrow> i < length pvs \<and> names_of pvs ! i = x"
proof -
  obtain ok i where "lookup_loop L pvs (length pvs) x (length pvs) (length pvs div 2)
        (length pvs div 2) = Some (ok, i)"
      "if ok then i < length pvs \<and> names_of pvs ! i = x else x \<notin> set (names_of pvs)"
    using lookup_loop_window [OF assms, of 0 "length pvs" x] by auto
  then show thesis
    by (intro that [of ok i])
      (auto simp: GetLocalVariableIndex_def Let_def split: if_splits intro: imageI nth_mem)
qed

end

end
