(* ===== verification/ReceiverParser.thy ===== *)
theory ReceiverParser
  imports ReceiverTable
begin

section \<open>The receiver's payload parser\<close>

text \<open>
  The state of \<open>DiodeReceiver\<close> and the four functions that \<open>ClientService\<close> applies to the
  bytes it has received: \<open>ReadVarNameAndIndex\<close> resynchronises on the opening quote of a
  variable and decodes its header, \<open>GetLocalIndex\<close> maps the sender's index to the local
  one, \<open>ReadVarValueAndSkip\<close> stores the value and the time stamp, raises the changed flag
  and removes the variable from the payload; \<open>consume_vars\<close> is the loop over them.
  Byte positions in a payload are natural numbers (a payload is far below 4 GiB); the
  32-bit fields of the protocol keep their wrap-around.
\<close>

definition INDEX_INIT_ID :: nat where "INDEX_INIT_ID = 0xFFFFFFFF"
definition INDEX_NOT_FOUND_ID :: nat where "INDEX_NOT_FOUND_ID = 0xFFFFFFFE"

record receiver =
  serverPort_r :: nat
  acceptTimeout_r :: nat
  pvs :: "pv_rec list"
  numberOfVariables_r :: nat
  numberOfCpus_r :: nat
  memory_r :: bytes
  memory2_r :: bytes
  memoryPrec_r :: bytes
  pvMapping :: "nat list"
  threadSetContext :: nat
  changeFlag_r :: "byte list"
  changeFlag2_r :: "byte list"
  lastCounter_r :: nat
  quit_r :: nat
  totalMemorySize_r :: nat
  eventSem_r :: bool
  numberOfInitThreads_r :: nat
  threadCnt_r :: nat
  maxNumberOfVariables_r :: nat
  lastTickCounter_r :: "nat list"
  msecPeriod_r :: nat
  currentCpuMask_r :: nat
  readTimeout_r :: nat
  maxArraySize_r :: nat
  threadIndex_r :: nat
  numberOfReceivedPVs :: "nat list"
  debug_r :: nat
  maxNumberOfThreads_r :: nat

subsection \<open>ReadVarNameAndIndex\<close>

definition quote_char :: byte where "quote_char = 34"
definition pattern_str :: bytes where "pattern_str = [34, 58, 32]"
definition patternSize :: nat where "patternSize = 3"

text \<open>
  The first loop: drop everything before a quote that does not open the pattern. The result
  is the payload and the flags \<open>found\<close> and \<open>ok\<close>.
\<close>

function resync_loop :: "marte \<Rightarrow> bytes \<Rightarrow> nat \<Rightarrow> bytes \<times> bool \<times> bool" where
  "resync_loop L payload i =
     (if i < length payload then
        (if payload ! i = quote_char then
           (let payload1 = consume L payload i in
            if length payload1 \<ge> patternSize then
              (if StrCompareN L payload1 pattern_str patternSize \<noteq> 0 then (payload1, True, True)
               else resync_loop L payload1 1)
            else (payload1, True, False))
         else resync_loop L payload (Suc i))
      else (payload, False, True))"
  by pat_completeness auto
termination
proof (relation "measure (\<lambda>(L, payload, i). length payload - i)", goal_cases)
  case 1
  then show ?case by simp
next
  case (2 L payload i x)
  then show ?case using length_consume [of L payload i] by simp
next
  case (3 L payload i)
  then show ?case by simp
qed

text \<open>
  The second loop: find the pattern that ends the name. A quote that does not start the
  pattern cannot belong to a name and becomes the new start of the payload. \<open>Some i\<close> is the
  position of the pattern (\<open>dataPtr\<close>); \<open>None\<close> covers the cases that wait for more data.
\<close>

function name_end_loop :: "marte \<Rightarrow> bytes \<Rightarrow> nat \<Rightarrow> bytes \<times> nat option" where
  "name_end_loop L payload i =
     (if i < length payload then
        (if payload ! i = quote_char then
           (if length payload - i \<ge> patternSize then
              (if StrCompareN L (drop i payload) pattern_str patternSize = 0
               then (payload, Some i)
               else name_end_loop L (consume L payload i) 1)
            else (payload, None))
         else name_end_loop L payload (Suc i))
      else (payload, None))"
  by pat_completeness auto
termination
proof (relation "measure (\<lambda>(L, payload, i). length payload - i)", goal_cases)
  case 1
  then show ?case by simp
next
  case (2 L payload i)
  then show ?case using length_consume [of L payload i] by simp
next
  case (3 L payload i)
  then show ?case by simp
qed

declare resync_loop.simps [simp del] name_end_loop.simps [simp del]

record wire_header =
  varName_h :: bytes
  receivedIndex_h :: nat
  receivedTypeId_h :: nat
  receivedSize_h :: nat
  receivedOffset_h :: nat
  processedSize_h :: nat
  dataPtr_h :: nat

text \<open>
  \<open>Copy(&x, payload.Buffer() + k, n)\<close>: the byte just behind the content is readable.
\<close>

definition fetch :: "marte \<Rightarrow> bytes \<Rightarrow> nat \<Rightarrow> nat \<Rightarrow> bytes" where
  "fetch L payload k n = MemCopy L (replicate n 0) 0 (payload @ [BufferTail L payload]) k n"

text \<open>The name without its field suffix: \<open>GetToken(varName, ".", term)\<close>.\<close>

definition strip_field :: "marte \<Rightarrow> bytes \<Rightarrow> bytes" where
  "strip_field L varNameTemp =
     (case GetToken L varNameTemp [46] of
        (token, term) \<Rightarrow> if term \<noteq> 46 then varNameTemp else token)"

text \<open>The part behind the two loops; \<open>i\<close> is the position of the pattern.\<close>

definition decode_header :: "marte \<Rightarrow> receiver \<Rightarrow> bytes \<Rightarrow> nat \<Rightarrow> bytes \<times> wire_header option" where
  "decode_header L R payload i =
     (let nameSize = u32 (i - 1) in
      if nameSize \<le> PV_NAME_MAX_SIZE_REC then
        (let buffer = MemCopy L (replicate (PV_NAME_MAX_SIZE_REC + 1) 0) 0 payload 1 nameSize;
             varName = strip_field L (c_str buffer);
             dataPtr = i + patternSize;
             processedSize = nameSize + patternSize
         in if length payload - processedSize \<ge> 3 * 4 + 1 then
              (let receivedIndex = nat_of_le (fetch L payload dataPtr 4);
                   receivedTypeId = nat_of_le (fetch L payload (dataPtr + 4) 1);
                   receivedSize = nat_of_le (fetch L payload (dataPtr + 5) 4);
                   receivedOffset = nat_of_le (fetch L payload (dataPtr + 9) 4)
               in if receivedIndex \<ge> numberOfVariables_r R
                     \<or> receivedSize \<ge> u32 (8 * maxArraySize_r R)
                  then ([], None)
                  else (payload, Some
                    \<lparr>varName_h = varName, receivedIndex_h = receivedIndex,
                     receivedTypeId_h = receivedTypeId, receivedSize_h = receivedSize,
                     receivedOffset_h = receivedOffset, processedSize_h = processedSize,
                     dataPtr_h = dataPtr + 9\<rparr>))
            else (payload, None))
      else
        (let nameSize = (if nameSize > length payload then length payload else nameSize)
         in (consume L payload nameSize, None)))"

definition ReadVarNameAndIndex :: "marte \<Rightarrow> receiver \<Rightarrow> bytes \<Rightarrow> bytes \<times> wire_header option" where
  "ReadVarNameAndIndex L R payload =
     (case (if length payload > 0 then
              (if payload ! 0 \<noteq> quote_char then
                 (case resync_loop L payload 0 of
                    (p, found, ok) \<Rightarrow> if ok \<and> \<not> found then ([], False) else (p, ok))
               else (payload, True))
            else (payload, False)) of
        (p, ok) \<Rightarrow>
          if ok then
            (case name_end_loop L p 1 of
               (p1, None) \<Rightarrow> (p1, None)
             | (p1, Some i) \<Rightarrow> decode_header L R p1 i)
          else (p, None))"

subsection \<open>GetLocalIndex\<close>

record local_index =
  index_l :: nat
  processedSize_l :: nat
  controlOk_l :: bool
  ok_l :: bool

text \<open>
  The entry of \<open>pvMapping\<close> for the received index; an entry still at its initial value is
  resolved by name, and the result remembered. The option is the termination of the lookup.
\<close>

definition resolve_index ::
  "marte \<Rightarrow> receiver \<Rightarrow> nat \<Rightarrow> bytes \<Rightarrow> (fault + receiver \<times> nat) option" where
  "resolve_index L R receivedIndex varName =
     (if receivedIndex \<ge> length (pvMapping R) then Some (Inl Out_Of_Bounds)
      else if pvMapping R ! receivedIndex = INDEX_INIT_ID then
        (case GetLocalVariableIndex L (pvs R) (numberOfVariables_r R) varName of
           None \<Rightarrow> None
         | Some (True, index) \<Rightarrow>
             Some (Inr (R\<lparr>pvMapping := (pvMapping R)[receivedIndex := index]\<rparr>, index))
         | Some (False, _) \<Rightarrow> Some (Inr (R, INDEX_NOT_FOUND_ID)))
      else Some (Inr (R, pvMapping R ! receivedIndex)))"

definition GetLocalIndex ::
  "marte \<Rightarrow> receiver \<Rightarrow> bytes \<Rightarrow> wire_header \<Rightarrow> (fault + receiver \<times> local_index) option" where
  "GetLocalIndex L R payload h =
     (case resolve_index L R (receivedIndex_h h) (varName_h h) of
        None \<Rightarrow> None
      | Some (Inl e) \<Rightarrow> Some (Inl e)
      | Some (Inr (R1, index)) \<Rightarrow>
          (let controlOk =
                 (if index < numberOfVariables_r R1 then
                    totalSize_r (pvs R1 ! index) > 0 \<and>
                    u32 (receivedSize_h h + receivedOffset_h h) \<le> totalSize_r (pvs R1 ! index)
                  else True);
               processedSize =
                 u32 (processedSize_h h + (3 * 4 + receivedSize_h h + 8 + 4))
           in Some (Inr (R1,
                \<lparr>index_l = index, processedSize_l = processedSize, controlOk_l = controlOk,
                 ok_l = (length payload \<ge> processedSize)\<rparr>))))"

subsection \<open>ReadVarValueAndSkip\<close>

text \<open>
  The new content of the memory block, or the fault of a copy outside it. The conversion reads as
  many bytes as the received type has, however many were received.
\<close>

definition write_value ::
  "marte \<Rightarrow> receiver \<Rightarrow> bytes \<Rightarrow> wire_header \<Rightarrow> local_index \<Rightarrow> fault + bytes" where
  "write_value L R payload h li =
     (let pv = pvs R ! index_l li;
          ptr = offset_r pv;
          dataPtr = dataPtr_h h + 4;
          varOffset = receivedOffset_h h;
          receivedSize = receivedSize_h h
      in if controlOk_l li then
           (case mem_copy_checked L (memory_r R) (ptr + varOffset) payload dataPtr receivedSize of
              Inl e \<Rightarrow> Inl e
            | Inr m \<Rightarrow>
                mem_copy_checked L m (ptr + totalSize_r pv) payload (dataPtr + receivedSize) 8)
         else if varOffset = 0 \<and> receivedTypeId_h h < NUMBER_OF_TYPES then
           (let n = td_bytes (descriptors ! receivedTypeId_h h)
            in if dataPtr + n > length payload then Inl Out_Of_Bounds
               else Inr (take ptr (memory_r R)
                 @ TypeConv L (at_r pv) (receivedTypeId_h h) (take n (drop dataPtr payload))
                     (take (totalSize_r pv) (drop ptr (memory_r R)))
                 @ drop (ptr + totalSize_r pv) (memory_r R)))
         else Inr (memory_r R))"

text \<open>Counting the variable and raising its changed flag, on the new memory.\<close>

definition note_change :: "marte \<Rightarrow> nat \<Rightarrow> receiver \<Rightarrow> nat \<Rightarrow> bytes \<Rightarrow> receiver" where
  "note_change L threadId R index mem =
     (let pv = pvs R ! index;
          R = R\<lparr>memory_r := mem\<rparr>;
          R = (if threadId < maxNumberOfThreads_r R
               then R\<lparr>numberOfReceivedPVs :=
                 (numberOfReceivedPVs R)[threadId := u32 (numberOfReceivedPVs R ! threadId + 1)]\<rparr>
               else R)
      in if MemCompare L (drop (offset_r pv) mem) (drop (offset_r pv) (memoryPrec_r R))
              (totalSize_r pv) \<noteq> 0
         then R\<lparr>changeFlag_r := (changeFlag_r R)[index := 1],
                memoryPrec_r := MemCopy L (memoryPrec_r R) (offset_r pv) mem (offset_r pv)
                  (totalSize_r pv)\<rparr>
         else R)"

definition ReadVarValueAndSkip ::
  "marte \<Rightarrow> nat \<Rightarrow> receiver \<Rightarrow> bytes \<Rightarrow> wire_header \<Rightarrow> local_index \<Rightarrow> fault + receiver \<times> bytes"
where
  "ReadVarValueAndSkip L threadId R payload h li =
     (let processedSize = (if processedSize_l li > length payload then length payload
                           else processedSize_l li)
      in if index_l li < numberOfVariables_r R then
           (case write_value L R payload h li of
              Inl e \<Rightarrow> Inl e
            | Inr mem \<Rightarrow>
                Inr (note_change L threadId R (index_l li) mem, consume L payload processedSize))
         else Inr (R, consume L payload processedSize))"

subsection \<open>The loop of ClientService over the complete variables\<close>

partial_function (option) consume_vars ::
  "marte \<Rightarrow> nat \<Rightarrow> receiver \<Rightarrow> bytes \<Rightarrow> (fault + receiver \<times> bytes) option" where
  "consume_vars L threadId R payload =
     (case ReadVarNameAndIndex L R payload of
        (p1, None) \<Rightarrow> Some (Inr (R, p1))
      | (p1, Some h) \<Rightarrow>
          (case GetLocalIndex L R p1 h of
             None \<Rightarrow> None
           | Some (Inl e) \<Rightarrow> Some (Inl e)
           | Some (Inr (R1, li)) \<Rightarrow>
               if ok_l li then
                 (case ReadVarValueAndSkip L threadId R1 p1 h li of
                    Inl e \<Rightarrow> Some (Inl e)
                  | Inr (R2, p2) \<Rightarrow> consume_vars L threadId R2 p2)
               else Some (Inr (R1, p1))))"

end
