(* ===== verification/ReceiverStream.thy ===== *)
theory ReceiverStream
  imports ReceiverParser
begin

section \<open>The stream of variables as the receiver sees it\<close>

text \<open>
  The protocol of the diode, stated without the parser: a variable is a \<open>frame\<close>, \<open>encode\<close>
  is its byte format, and \<open>deliver\<close> is the effect one frame must have on the receiver. The
  lemmas show that the parser of ReceiverParser refines it on every payload that is a
  sequence of frames followed by the beginning of another: it delivers the frames in order,
  keeps the beginning, and does not depend on how the bytes are cut into chunks.
\<close>

record frame =
  fr_name :: bytes
  fr_index :: nat
  fr_typeId :: nat
  fr_offset :: nat
  fr_data :: bytes
  fr_ts :: bytes

definition frame_header :: "frame \<Rightarrow> bytes" where
  "frame_header fr = quote_char # fr_name fr @ pattern_str @ le32 (fr_index fr)
     @ [of_nat (fr_typeId fr)] @ le32 (length (fr_data fr)) @ le32 (fr_offset fr)"

definition encode :: "frame \<Rightarrow> bytes" where
  "encode fr = frame_header fr @ fr_data fr @ fr_ts fr @ [10, 13]"

abbreviation encode_all :: "frame list \<Rightarrow> bytes" where
  "encode_all frs \<equiv> concat (map encode frs)"

text \<open>What the format can carry to a receiver with \<open>n\<close> variables.\<close>

definition frame_ok :: "nat \<Rightarrow> nat \<Rightarrow> frame \<Rightarrow> bool" where
  "frame_ok n maxArray fr \<longleftrightarrow>
     length (fr_name fr) \<le> PV_NAME_MAX_SIZE_REC \<and> quote_char \<notin> set (fr_name fr)
     \<and> 0 \<notin> set (fr_name fr) \<and> fr_index fr < n \<and> fr_typeId fr < 256
     \<and> fr_offset fr < 4294967296 \<and> length (fr_data fr) < 8 * maxArray \<and> length (fr_ts fr) = 8"

lemma length_frame_header [simp]: "length (frame_header fr) = length (fr_name fr) + 17"
  by (simp add: frame_header_def pattern_str_def)

lemma length_encode [simp]:
  "length (fr_ts fr) = 8 \<Longrightarrow> length (encode fr) = length (fr_name fr) + length (fr_data fr) + 27"
  by (simp add: encode_def)

subsection \<open>Finding the name\<close>

lemma name_end_loop_skip:
  assumes "\<And>k. i \<le> k \<Longrightarrow> k < j \<Longrightarrow> p ! k \<noteq> quote_char" and "i \<le> j" and "j \<le> length p"
  shows "name_end_loop L p i = name_end_loop L p j"
  using assms
proof (induction "j - i" arbitrary: i)
  case 0
  then show ?case by simp
next
  case (Suc n)
  then have "i < j" "p ! i \<noteq> quote_char" by auto
  then have "name_end_loop L p i = name_end_loop L p (Suc i)"
    using Suc.prems by (simp add: name_end_loop.simps [of L p i])
  also have "\<dots> = name_end_loop L p j"
    using Suc \<open>i < j\<close> by simp
  finally show ?case .
qed

definition header_of :: "marte \<Rightarrow> frame \<Rightarrow> wire_header" where
  "header_of L fr = \<lparr>varName_h = strip_field L (fr_name fr), receivedIndex_h = fr_index fr,
     receivedTypeId_h = fr_typeId fr, receivedSize_h = length (fr_data fr),
     receivedOffset_h = fr_offset fr, processedSize_h = length (fr_name fr) + 3,
     dataPtr_h = length (fr_name fr) + 13\<rparr>"

context marte_lib
begin

lemma name_end_loop_found:
  assumes "quote_char \<notin> set name"
  shows "name_end_loop L (quote_char # name @ pattern_str @ rest) 1 =
    (quote_char # name @ pattern_str @ rest, Some (length name + 1))"
proof -
  let ?p = "quote_char # name @ pattern_str @ rest"
  have dr: "drop (length name + 1) ?p = pattern_str @ rest" by simp
  have at: "?p ! (length name + 1) = quote_char"
    by (simp add: nth_append pattern_str_def quote_char_def)
  have "name_end_loop L ?p 1 = name_end_loop L ?p (length name + 1)"
    using assms by (intro name_end_loop_skip) (auto simp: nth_append nth_Cons' in_set_conv_nth)
  also have "\<dots> = (?p, Some (length name + 1))"
    using str_compare_n [of 3 "pattern_str @ rest" pattern_str]
    by (subst name_end_loop.simps)
      (simp only: at dr, simp add: pattern_str_def patternSize_def)
  finally show ?thesis .
qed

lemma name_end_loop_partial:
  assumes "quote_char \<notin> set name" and "p @ q = quote_char # name @ pattern_str"
    and "q \<noteq> []" and "p \<noteq> []"
  shows "name_end_loop L p 1 = (p, None)"
proof -
  have len: "length p + length q = length name + 4"
    using arg_cong [OF assms(2), of length] by (simp add: pattern_str_def)
  have nth: "p ! k = (quote_char # name @ pattern_str) ! k" if "k < length p" for k
    using that by (simp add: assms(2) [symmetric] nth_append)
  define j where "j = min (length p) (length name + 1)"
  have "name_end_loop L p 1 = name_end_loop L p j"
    using assms(1,4) nth
    by (intro name_end_loop_skip) (auto simp: j_def nth_append nth_Cons' in_set_conv_nth Suc_le_eq)
  also have "\<dots> = (p, None)"
  proof (cases "length p \<le> length name + 1")
    case True
    then show ?thesis by (subst name_end_loop.simps) (simp add: j_def)
  next
    case False
    then have "p ! j = quote_char" "j < length p"
      by (simp_all add: j_def nth nth_append pattern_str_def quote_char_def)
    moreover have "length p - j < patternSize"
      using len assms(3) False by (cases q) (auto simp: j_def patternSize_def)
    ultimately show ?thesis by (subst name_end_loop.simps) simp
  qed
  finally show ?thesis .
qed


subsection \<open>Decoding the header\<close>

lemma fetch_eq: "k + n \<le> length p + 1 \<Longrightarrow>
    fetch L p k n = take n (drop k (p @ [BufferTail L p]))"
  by (simp add: fetch_def mem_copy)

lemma fetch_within: "k + n \<le> length p \<Longrightarrow> fetch L p k n = take n (drop k p)"
  by (simp add: fetch_eq)

text \<open>The fields of a header that is complete up to the given position.\<close>

lemma fetch_fields:
  assumes "p @ q = frame_header fr @ rest"
  defines "n \<equiv> length (fr_name fr)"
  shows "n + 8 \<le> length p \<Longrightarrow> fetch L p (n + 4) 4 = le32 (fr_index fr)"
    and "n + 9 \<le> length p \<Longrightarrow> fetch L p (n + 8) 1 = [of_nat (fr_typeId fr)]"
    and "n + 13 \<le> length p \<Longrightarrow> fetch L p (n + 9) 4 = le32 (length (fr_data fr))"
    and "n + 17 \<le> length p \<Longrightarrow> fetch L p (n + 13) 4 = le32 (fr_offset fr)"
proof -
  have *: "take l (drop k p) = take l (drop k (frame_header fr @ rest))"
    if "k + l \<le> length p" for k l
    using that by (simp add: assms(1) [symmetric])
  obtain A where A: "frame_header fr = A @ le32 (fr_index fr) @ [of_nat (fr_typeId fr)]
      @ le32 (length (fr_data fr)) @ le32 (fr_offset fr)" "length A = n + 4"
    by (rule that [of "quote_char # fr_name fr @ pattern_str"])
      (simp_all add: frame_header_def n_def pattern_str_def)
  show "n + 8 \<le> length p \<Longrightarrow> fetch L p (n + 4) 4 = le32 (fr_index fr)"
    by (simp add: fetch_within * A)
  show "n + 9 \<le> length p \<Longrightarrow> fetch L p (n + 8) 1 = [of_nat (fr_typeId fr)]"
    by (simp add: fetch_within * A)
  show "n + 13 \<le> length p \<Longrightarrow> fetch L p (n + 9) 4 = le32 (length (fr_data fr))"
    by (simp add: fetch_within * A)
  show "n + 17 \<le> length p \<Longrightarrow> fetch L p (n + 13) 4 = le32 (fr_offset fr)"
    by (simp add: fetch_within * A)
qed

lemma name_buffer:
  assumes "p @ q = frame_header fr @ rest" and "length (fr_name fr) + 1 \<le> length p"
    and "length (fr_name fr) \<le> PV_NAME_MAX_SIZE_REC" and "0 \<notin> set (fr_name fr)"
  shows "c_str (MemCopy L (replicate (PV_NAME_MAX_SIZE_REC + 1) 0) 0 p 1 (length (fr_name fr)))
    = fr_name fr"
proof -
  let ?n = "length (fr_name fr)"
  have "take ?n (drop 1 p) = take ?n (drop 1 (frame_header fr @ rest))"
    using assms(2) by (simp add: assms(1) [symmetric])
  then have "MemCopy L (replicate (PV_NAME_MAX_SIZE_REC + 1) 0) 0 p 1 ?n
      = fr_name fr @ 0 # replicate (PV_NAME_MAX_SIZE_REC - ?n) 0"
    using assms(2,3) drop_replicate [of ?n "PV_NAME_MAX_SIZE_REC + 1" "0 :: byte"]
    by (simp add: mem_copy frame_header_def Suc_diff_le)
  then show ?thesis using assms(4) by (simp add: c_str_padded)
qed


lemma decode_header_prefix:
  assumes pq: "p @ q = frame_header fr @ rest" and ok: "frame_ok (numberOfVariables_r R) (maxArraySize_r R) fr"
    and max: "8 * maxArraySize_r R < 4294967296" and N: "numberOfVariables_r R < 4294967296"
    and len: "length (fr_name fr) + 4 \<le> length p"
  shows "\<exists>h. decode_header L R p (length (fr_name fr) + 1) = (p, h) \<and>
    (case h of None \<Rightarrow> length p < length (fr_name fr) + 17
     | Some h' \<Rightarrow> \<exists>x. h' = (header_of L fr)\<lparr>receivedOffset_h := x\<rparr> \<and>
         (length (fr_name fr) + 17 \<le> length p \<longrightarrow> x = fr_offset fr))"
proof -
  let ?n = "length (fr_name fr)"
  have n: "u32 (?n + 1 - 1) = ?n" "?n \<le> PV_NAME_MAX_SIZE_REC"
    using ok by (auto simp: frame_ok_def PV_NAME_MAX_SIZE_REC_def u32_id)
  have name: "strip_field L (c_str (MemCopy L (replicate (PV_NAME_MAX_SIZE_REC + 1) 0) 0 p 1 ?n))
      = strip_field L (fr_name fr)"
    using name_buffer [OF pq] len ok by (simp add: frame_ok_def)
  show ?thesis
  proof (cases "?n + 16 \<le> length p")
    case False
    then have "\<not> 13 \<le> length p - (?n + 3)" by linarith
    then have "decode_header L R p (?n + 1) = (p, None)"
      using n by (simp add: decode_header_def Let_def patternSize_def)
    with False show ?thesis by auto
  next
    case True
    let ?x = "nat_of_le (fetch L p (?n + 13) 4)"
    have f: "nat_of_le (fetch L p (?n + 4) 4) = fr_index fr"
        "nat_of_le (fetch L p (?n + 8) 1) = fr_typeId fr"
        "nat_of_le (fetch L p (?n + 9) 4) = length (fr_data fr)"
      using True fetch_fields(1-3) [OF pq] ok max N
      by (simp_all add: nat_of_le_le32 frame_ok_def unat_of_nat_byte u32_id)
    have e: "?n + 1 + patternSize = ?n + 4" "?n + 4 + 4 = ?n + 8" "?n + 4 + 5 = ?n + 9"
        "?n + 4 + 9 = ?n + 13"
      by (simp_all add: patternSize_def)
    have x: "?x = fr_offset fr" if "?n + 17 \<le> length p"
      using that fetch_fields(4) [OF pq] ok by (simp add: nat_of_le_le32 frame_ok_def u32_id)
    have "decode_header L R p (?n + 1) = (p, Some ((header_of L fr)\<lparr>receivedOffset_h := ?x\<rparr>))"
      unfolding decode_header_def Let_def n(1) e f name
      using True n(2) ok max by (simp add: patternSize_def header_of_def frame_ok_def u32_id)
    with x show ?thesis by auto
  qed
qed

lemma ReadVarNameAndIndex_prefix:
  assumes pq: "p @ q = frame_header fr @ rest" and ok: "frame_ok (numberOfVariables_r R) (maxArraySize_r R) fr"
    and max: "8 * maxArraySize_r R < 4294967296" and N: "numberOfVariables_r R < 4294967296"
  shows "\<exists>h. ReadVarNameAndIndex L R p = (p, h) \<and>
    (case h of None \<Rightarrow> length p < length (fr_name fr) + 17
     | Some h' \<Rightarrow> \<exists>x. h' = (header_of L fr)\<lparr>receivedOffset_h := x\<rparr> \<and>
         (length (fr_name fr) + 17 \<le> length p \<longrightarrow> x = fr_offset fr))"
proof (cases "p = []")
  case True
  then show ?thesis by (simp add: ReadVarNameAndIndex_def)
next
  case False
  let ?n = "length (fr_name fr)"
  let ?h = "quote_char # fr_name fr @ pattern_str"
  obtain rest' where rest': "frame_header fr @ rest = ?h @ rest'"
    by (simp add: frame_header_def)
  have quote: "p ! 0 = quote_char"
    using False arg_cong [OF pq, of "\<lambda>xs. xs ! 0"]
    by (cases p) (simp_all add: frame_header_def)
  have noquote: "quote_char \<notin> set (fr_name fr)" using ok by (simp add: frame_ok_def)
  show ?thesis
  proof (cases "?n + 4 \<le> length p")
    case True
    have "take (?n + 4) p = take (?n + 4) (p @ q)" using True by simp
    also have "\<dots> = ?h"
      unfolding pq rest' by (rule take_append_exact) (simp add: pattern_str_def)
    finally have p: "p = quote_char # fr_name fr @ pattern_str @ drop (?n + 4) p"
      using append_take_drop_id [of "?n + 4" p] by simp
    have "name_end_loop L p 1 = (p, Some (?n + 1))"
      using name_end_loop_found [OF noquote, of "drop (?n + 4) p"] p by simp
    then have "ReadVarNameAndIndex L R p = decode_header L R p (?n + 1)"
      using False quote by (simp add: ReadVarNameAndIndex_def)
    then show ?thesis using decode_header_prefix [OF pq ok max N True] by simp
  next
    case len: False
    then have "take (length p) (?h @ rest') = take (length p) ?h"
      by (subst take_append) (simp add: pattern_str_def)
    then have "p = take (length p) ?h"
      using arg_cong [OF pq, of "take (length p)"] unfolding rest' by simp
    then have "p @ drop (length p) ?h = ?h" by (metis append_take_drop_id)
    moreover have "drop (length p) ?h \<noteq> []" using len by (simp add: pattern_str_def)
    ultimately have "name_end_loop L p 1 = (p, None)"
      using name_end_loop_partial [OF noquote] False by simp
    then show ?thesis using False quote len by (simp add: ReadVarNameAndIndex_def)
  qed
qed

end

subsection \<open>Well-formed receivers\<close>

text \<open>
  What \<open>Initialise\<close> and \<open>Start\<close> establish: the sorted table, the sizes of the buffers, and
  a slot for the value and the 8-byte time stamp of every variable inside the memory.
\<close>

definition slots_ok :: "pv_rec list \<Rightarrow> nat \<Rightarrow> bool" where
  "slots_ok ps len \<longleftrightarrow>
     (\<forall>i < length ps. offset_r (ps ! i) + totalSize_r (ps ! i) + 8 \<le> len)
     \<and> (\<forall>i j. i < j \<longrightarrow> j < length ps \<longrightarrow>
          offset_r (ps ! i) + totalSize_r (ps ! i) + 8 \<le> offset_r (ps ! j))"

definition receiver_wf :: "marte \<Rightarrow> receiver \<Rightarrow> bool" where
  "receiver_wf L R \<longleftrightarrow>
     numberOfVariables_r R = length (pvs R) \<and> length (pvs R) < INDEX_NOT_FOUND_ID
     \<and> sorted_wrt (name_order.name_le (StrCompare L)) (names_of (pvs R))
     \<and> length (pvMapping R) = 2 * length (pvs R) \<and> length (changeFlag_r R) = length (pvs R)
     \<and> length (memory_r R) = totalMemorySize_r R \<and> length (memoryPrec_r R) = totalMemorySize_r R
     \<and> totalMemorySize_r R < 4294967296
     \<and> length (numberOfReceivedPVs R) = maxNumberOfThreads_r R
     \<and> slots_ok (pvs R) (totalMemorySize_r R) \<and> 8 * maxArraySize_r R + 256 < 4294967296"

text \<open>
  A directory gives the stripped name that the sender uses for each of its indexes. The
  mapping of the receiver agrees with it where it is resolved.
\<close>

definition mapping_ok :: "(nat \<Rightarrow> bytes) \<Rightarrow> receiver \<Rightarrow> bool" where
  "mapping_ok dir R \<longleftrightarrow> (\<forall>k < length (pvMapping R). pvMapping R ! k = INDEX_INIT_ID
     \<or> pvMapping R ! k < length (pvs R) \<and> pvName_r (pvs R ! (pvMapping R ! k)) = dir k)"

text \<open>A frame of that sender which fits the variable it is for, if the receiver has it.\<close>

definition frame_for :: "marte \<Rightarrow> (nat \<Rightarrow> bytes) \<Rightarrow> receiver \<Rightarrow> frame \<Rightarrow> bool" where
  "frame_for L dir R fr \<longleftrightarrow>
     frame_ok (numberOfVariables_r R) (maxArraySize_r R) fr
     \<and> strip_field L (fr_name fr) = dir (fr_index fr)
     \<and> (\<forall>i < length (pvs R). pvName_r (pvs R ! i) = dir (fr_index fr) \<longrightarrow>
          0 < totalSize_r (pvs R ! i)
          \<and> fr_offset fr + length (fr_data fr) \<le> totalSize_r (pvs R ! i))"

text \<open>What a stream proof carries from frame to frame.\<close>

definition stream_inv :: "marte \<Rightarrow> (nat \<Rightarrow> bytes) \<Rightarrow> receiver \<Rightarrow> bool" where
  "stream_inv L dir R \<longleftrightarrow> receiver_wf L R \<and> mapping_ok dir R"

definition put_bytes :: "bytes \<Rightarrow> nat \<Rightarrow> bytes \<Rightarrow> bytes" where
  "put_bytes m k bs = take k m @ bs @ drop (k + length bs) m"

lemma length_put_bytes [simp, len_simps]:
  "k + length bs \<le> length m \<Longrightarrow> length (put_bytes m k bs) = length m"
  by (simp add: put_bytes_def)

definition slot :: "receiver \<Rightarrow> nat \<Rightarrow> bytes \<Rightarrow> bytes" where
  "slot R i m = take (totalSize_r (pvs R ! i)) (drop (offset_r (pvs R ! i)) m)"

text \<open>The effect of a frame: the value and the time stamp are in place, the thread has
  counted it, and the flag is raised when the value differs from the last one seen.\<close>

definition store_frame :: "nat \<Rightarrow> receiver \<Rightarrow> nat \<Rightarrow> frame \<Rightarrow> receiver" where
  "store_frame t R i fr =
     (let pv = pvs R ! i;
          m = put_bytes (put_bytes (memory_r R) (offset_r pv + fr_offset fr) (fr_data fr))
                (offset_r pv + totalSize_r pv) (fr_ts fr);
          cnt = (if t < maxNumberOfThreads_r R
                 then (numberOfReceivedPVs R)[t := u32 (numberOfReceivedPVs R ! t + 1)]
                 else numberOfReceivedPVs R)
      in if slot R i m \<noteq> slot R i (memoryPrec_r R)
         then R\<lparr>memory_r := m, numberOfReceivedPVs := cnt,
                changeFlag_r := (changeFlag_r R)[i := 1],
                memoryPrec_r := put_bytes (memoryPrec_r R) (offset_r pv) (slot R i m)\<rparr>
         else R\<lparr>memory_r := m, numberOfReceivedPVs := cnt\<rparr>)"

definition deliver :: "marte \<Rightarrow> nat \<Rightarrow> receiver \<Rightarrow> frame \<Rightarrow> receiver" where
  "deliver L t R fr =
     (case resolve_index L R (fr_index fr) (strip_field L (fr_name fr)) of
        Some (Inr (R1, i)) \<Rightarrow> if i < numberOfVariables_r R1 then store_frame t R1 i fr else R1
      | _ \<Rightarrow> R)"

definition deliver_all :: "marte \<Rightarrow> nat \<Rightarrow> receiver \<Rightarrow> frame list \<Rightarrow> receiver" where
  "deliver_all L t R frs = foldl (deliver L t) R frs"

text \<open>The receiver after the name of a frame has been resolved, and nothing else.\<close>

definition resolved :: "marte \<Rightarrow> receiver \<Rightarrow> frame \<Rightarrow> receiver" where
  "resolved L R fr =
     (case resolve_index L R (fr_index fr) (strip_field L (fr_name fr)) of
        Some (Inr (R1, i)) \<Rightarrow> R1 | _ \<Rightarrow> R)"

lemma deliver_all_simps [simp]:
  "deliver_all L t R [] = R"
  "deliver_all L t R (fr # frs) = deliver_all L t (deliver L t R fr) frs"
  "deliver_all L t R (xs @ ys) = deliver_all L t (deliver_all L t R xs) ys"
  by (simp_all add: deliver_all_def)

context marte_lib
begin

lemma resolve_index_spec:
  assumes "receiver_wf L R" and "mapping_ok dir R" and "k < numberOfVariables_r R"
  obtains R1 i where "resolve_index L R k (dir k) = Some (Inr (R1, i))"
    and "\<exists>mp. R1 = R\<lparr>pvMapping := mp\<rparr>" and "receiver_wf L R1" and "mapping_ok dir R1"
    and "resolve_index L R1 k (dir k) = Some (Inr (R1, i))"
    and "if dir k \<in> set (names_of (pvs R)) then i < length (pvs R) \<and> pvName_r (pvs R ! i) = dir k
      else i = INDEX_NOT_FOUND_ID"
proof -
  have k: "k < length (pvMapping R)" "numberOfVariables_r R = length (pvs R)"
      "length (pvs R) < 4294967296" "length (pvs R) < INDEX_INIT_ID"
    using assms by (auto simp: receiver_wf_def INDEX_NOT_FOUND_ID_def INDEX_INIT_ID_def)
  show thesis
  proof (cases "pvMapping R ! k = INDEX_INIT_ID")
    case False
    then have "pvMapping R ! k < length (pvs R)" "pvName_r (pvs R ! (pvMapping R ! k)) = dir k"
      using assms(2) k by (auto simp: mapping_ok_def)
    moreover from this have "dir k \<in> set (names_of (pvs R))"
      by (metis length_map nth_map nth_mem)
    ultimately show thesis
      using False assms k
      by (intro that [of R "pvMapping R ! k"])
        (auto simp: resolve_index_def intro!: exI [of _ "pvMapping R"])
  next
    case True
    obtain ok i where look: "GetLocalVariableIndex L (pvs R) (length (pvs R)) (dir k) = Some (ok, i)"
        "ok \<longleftrightarrow> dir k \<in> set (names_of (pvs R))"
        "ok \<Longrightarrow> i < length (pvs R) \<and> names_of (pvs R) ! i = dir k"
      using GetLocalVariableIndex_correct assms(1) k by (metis receiver_wf_def)
    let ?R1 = "R\<lparr>pvMapping := (pvMapping R)[k := i]\<rparr>"
    show thesis
    proof (cases ok)
      case found: True
      have i: "i < length (pvs R)" "pvName_r (pvs R ! i) = dir k" "i \<noteq> INDEX_INIT_ID"
        using look(3) [OF found] k by auto
      have "mapping_ok dir ?R1"
        using assms(2) i k by (auto simp: mapping_ok_def nth_list_update)
      moreover have "receiver_wf L ?R1"
        using assms(1) by (simp add: receiver_wf_def)
      moreover have "resolve_index L R k (dir k) = Some (Inr (?R1, i))"
          "resolve_index L ?R1 k (dir k) = Some (Inr (?R1, i))"
        using True found look(1) i(3) k by (simp_all add: resolve_index_def)
      moreover have "if dir k \<in> set (names_of (pvs R)) then i < length (pvs R) \<and> pvName_r (pvs R ! i) = dir k
          else i = INDEX_NOT_FOUND_ID"
        using look(2) found i by simp
      ultimately show thesis
        by (intro that [of ?R1 i]) (assumption | rule exI, rule refl)+
    next
      case False
      with True look k assms show thesis
        by (intro that [of R INDEX_NOT_FOUND_ID])
          (auto simp: resolve_index_def intro!: exI [of _ "pvMapping R"])
    qed
  qed
qed


lemma note_change_eq:
  assumes "offset_r (pvs R ! i) + totalSize_r (pvs R ! i) \<le> length mem"
    and "offset_r (pvs R ! i) + totalSize_r (pvs R ! i) \<le> length (memoryPrec_r R)"
    and "mem = put_bytes (put_bytes (memory_r R) (offset_r (pvs R ! i) + fr_offset fr) (fr_data fr))
      (offset_r (pvs R ! i) + totalSize_r (pvs R ! i)) (fr_ts fr)"
  shows "note_change L t R i mem = store_frame t R i fr"
proof -
  let ?pv = "pvs R ! i"
  have "MemCompare L (drop (offset_r ?pv) mem) (drop (offset_r ?pv) (memoryPrec_r R))
      (totalSize_r ?pv) = 0 \<longleftrightarrow> slot R i mem = slot R i (memoryPrec_r R)"
    using assms(1,2) mem_compare [of "totalSize_r ?pv"] by (simp add: slot_def)
  moreover have "MemCopy L (memoryPrec_r R) (offset_r ?pv) mem (offset_r ?pv) (totalSize_r ?pv)
      = put_bytes (memoryPrec_r R) (offset_r ?pv) (slot R i mem)"
    using assms(1,2) by (simp add: mem_copy put_bytes_def slot_def)
  ultimately show ?thesis
    by (simp add: note_change_def store_frame_def Let_def assms(3) [symmetric])
qed

lemma encode_prefix_fields:
  assumes "length (fr_ts fr) = 8"
  shows "take (length (fr_data fr)) (drop (length (fr_name fr) + 17) (encode fr @ rest)) = fr_data fr"
    and "take 8 (drop (length (fr_name fr) + 17 + length (fr_data fr)) (encode fr @ rest)) = fr_ts fr"
  using assms by (simp_all add: encode_def)

text \<open>A complete frame at the front of the payload is delivered and removed.\<close>

lemma ReadVarValueAndSkip_frame:
  assumes wf: "receiver_wf L R" and fr: "frame_for L dir R fr"
    and i: "if dir (fr_index fr) \<in> set (names_of (pvs R))
      then i < length (pvs R) \<and> pvName_r (pvs R ! i) = dir (fr_index fr)
      else i = INDEX_NOT_FOUND_ID"
    and li: "index_l li = i" "processedSize_l li = length (encode fr)" "controlOk_l li"
  shows "ReadVarValueAndSkip L t R (encode fr @ rest) (header_of L fr) li =
    Inr (if i < numberOfVariables_r R then store_frame t R i fr else R, rest)"
proof -
  have ts: "length (fr_ts fr) = 8" using fr by (simp add: frame_for_def frame_ok_def)
  have skip: "consume L (encode fr @ rest) (length (encode fr)) = rest"
    by (subst consume_eq) simp_all
  show ?thesis
  proof (cases "i < numberOfVariables_r R")
    case False
    then show ?thesis
      using li skip by (simp add: ReadVarValueAndSkip_def Let_def)
  next
    case True
    let ?pv = "pvs R ! i"
    have named: "pvName_r ?pv = dir (fr_index fr)" "i < length (pvs R)"
      using i True wf by (auto simp: receiver_wf_def split: if_splits)
    then have fit: "fr_offset fr + length (fr_data fr) \<le> totalSize_r ?pv"
      using fr by (simp add: frame_for_def)
    have room: "offset_r ?pv + totalSize_r ?pv + 8 \<le> length (memory_r R)"
        "length (memoryPrec_r R) = length (memory_r R)"
      using wf named by (auto simp: receiver_wf_def slots_ok_def)
    define m1 where "m1 = put_bytes (memory_r R) (offset_r ?pv + fr_offset fr) (fr_data fr)"
    define m2 where "m2 = put_bytes m1 (offset_r ?pv + totalSize_r ?pv) (fr_ts fr)"
    have len: "length m1 = length (memory_r R)" "length m2 = length (memory_r R)"
      using fit room ts by (simp_all add: m1_def m2_def)
    have "mem_copy_checked L (memory_r R) (offset_r ?pv + fr_offset fr) (encode fr @ rest)
        (length (fr_name fr) + 17) (length (fr_data fr)) = Inr m1"
      using fit room ts
      by (subst mem_copy_checked_Inr)
        (simp_all only: encode_prefix_fields [OF ts] m1_def put_bytes_def, simp_all)
    moreover have "mem_copy_checked L m1 (offset_r ?pv + totalSize_r ?pv) (encode fr @ rest)
        (length (fr_name fr) + 17 + length (fr_data fr)) 8 = Inr m2"
      using room ts len
      by (subst mem_copy_checked_Inr)
        (simp_all only: encode_prefix_fields [OF ts] m2_def put_bytes_def ts, simp_all)
    ultimately have "write_value L R (encode fr @ rest) (header_of L fr) li = Inr m2"
      using li by (simp add: write_value_def Let_def header_of_def ac_simps)
    moreover have "note_change L t R i m2 = store_frame t R i fr"
      using room len m1_def m2_def by (intro note_change_eq) simp_all
    ultimately show ?thesis
      using li skip True by (simp add: ReadVarValueAndSkip_def Let_def)
  qed
qed

lemma GetLocalIndex_frame:
  assumes wf: "receiver_wf L R" and fr: "frame_for L dir R fr" and "mapping_ok dir R"
    and h: "h = (header_of L fr)\<lparr>receivedOffset_h := x\<rparr>"
  obtains R1 i c where "GetLocalIndex L R p h = Some (Inr (R1,
      \<lparr>index_l = i, processedSize_l = length (encode fr), controlOk_l = c,
       ok_l = (length (encode fr) \<le> length p)\<rparr>))"
    and "resolve_index L R (fr_index fr) (dir (fr_index fr)) = Some (Inr (R1, i))"
    and "x = fr_offset fr \<longrightarrow> c"
proof -
  let ?k = "fr_index fr"
  have k: "?k < numberOfVariables_r R" and ts: "length (fr_ts fr) = 8"
    and dir: "strip_field L (fr_name fr) = dir ?k"
    using fr by (auto simp: frame_for_def frame_ok_def)
  obtain R1 i where res: "resolve_index L R ?k (dir ?k) = Some (Inr (R1, i))"
      and R1: "\<exists>mp. R1 = R\<lparr>pvMapping := mp\<rparr>"
      and i: "if dir ?k \<in> set (names_of (pvs R)) then i < length (pvs R) \<and> pvName_r (pvs R ! i) = dir ?k
        else i = INDEX_NOT_FOUND_ID"
    by (rule resolve_index_spec [OF wf assms(3) k])
  have same: "pvs R1 = pvs R" "numberOfVariables_r R1 = length (pvs R)"
    using R1 wf by (auto simp: receiver_wf_def)
  define c where "c = (if i < numberOfVariables_r R1
    then totalSize_r (pvs R1 ! i) > 0 \<and>
      u32 (length (fr_data fr) + x) \<le> totalSize_r (pvs R1 ! i) else True)"
  have size: "length (fr_name fr) + length (fr_data fr) + 27 < 4294967296"
    using fr wf by (simp add: frame_for_def frame_ok_def PV_NAME_MAX_SIZE_REC_def receiver_wf_def)
  have "GetLocalIndex L R p h = Some (Inr (R1,
      \<lparr>index_l = i, processedSize_l = length (encode fr), controlOk_l = c,
       ok_l = (length (encode fr) \<le> length p)\<rparr>))"
    using res dir ts size
    by (simp add: GetLocalIndex_def h header_of_def Let_def c_def u32_id ac_simps)
  moreover have c_fit: "c" if "x = fr_offset fr"
  proof (cases "i < length (pvs R)")
    case True
    then have "pvName_r (pvs R ! i) = dir ?k"
      using i wf by (auto simp: receiver_wf_def split: if_splits)
    then have fit: "0 < totalSize_r (pvs R ! i)"
        "fr_offset fr + length (fr_data fr) \<le> totalSize_r (pvs R ! i)"
      using fr True by (auto simp: frame_for_def)
    moreover have "totalSize_r (pvs R ! i) < 4294967296"
      using wf True by (auto simp: receiver_wf_def slots_ok_def)
    ultimately show ?thesis
      using same that by (simp add: c_def u32_id add.commute)
  qed (simp add: c_def same)
  ultimately show thesis using res that by blast
qed


subsection \<open>Frames keep the receiver well-formed\<close>

lemma store_frame_fields [simp]:
  "pvs (store_frame t R i fr) = pvs R"
  "numberOfVariables_r (store_frame t R i fr) = numberOfVariables_r R"
  "maxArraySize_r (store_frame t R i fr) = maxArraySize_r R"
  "pvMapping (store_frame t R i fr) = pvMapping R"
  "totalMemorySize_r (store_frame t R i fr) = totalMemorySize_r R"
  "maxNumberOfThreads_r (store_frame t R i fr) = maxNumberOfThreads_r R"
  by (simp_all add: store_frame_def Let_def)

lemma store_frame_wf:
  assumes "receiver_wf L R" "i < length (pvs R)" "length (fr_ts fr) = 8"
    and "fr_offset fr + length (fr_data fr) \<le> totalSize_r (pvs R ! i)"
  shows "receiver_wf L (store_frame t R i fr)"
proof -
  have room: "offset_r (pvs R ! i) + totalSize_r (pvs R ! i) + 8 \<le> totalMemorySize_r R"
    using assms by (auto simp: receiver_wf_def slots_ok_def)
  have "length (memory_r (store_frame t R i fr)) = totalMemorySize_r R"
    using assms room by (simp add: store_frame_def Let_def receiver_wf_def)
  moreover have "length (memoryPrec_r (store_frame t R i fr)) = totalMemorySize_r R"
    using assms room by (simp add: store_frame_def Let_def receiver_wf_def slot_def)
  moreover have "length (changeFlag_r (store_frame t R i fr)) = length (changeFlag_r R)"
      "length (numberOfReceivedPVs (store_frame t R i fr)) = length (numberOfReceivedPVs R)"
    by (simp_all add: store_frame_def Let_def)
  ultimately show ?thesis using assms(1) by (simp add: receiver_wf_def)
qed

lemma resolve_frame:
  assumes "stream_inv L dir R" and "frame_for L dir R fr"
  obtains R1 i mp where "resolve_index L R (fr_index fr) (strip_field L (fr_name fr)) = Some (Inr (R1, i))"
    and "R1 = R\<lparr>pvMapping := mp\<rparr>" and "stream_inv L dir R1" and "frame_for L dir R1 fr"
    and "resolve_index L R1 (fr_index fr) (strip_field L (fr_name fr)) = Some (Inr (R1, i))"
    and "if dir (fr_index fr) \<in> set (names_of (pvs R1))
      then i < length (pvs R1) \<and> pvName_r (pvs R1 ! i) = dir (fr_index fr) else i = INDEX_NOT_FOUND_ID"
proof -
  have k: "fr_index fr < numberOfVariables_r R" "strip_field L (fr_name fr) = dir (fr_index fr)"
    using assms(2) by (auto simp: frame_for_def frame_ok_def)
  have inv: "receiver_wf L R" "mapping_ok dir R"
    using assms(1) by (simp_all add: stream_inv_def)
  show thesis
    by (rule resolve_index_spec [OF inv k(1)])
      (use assms(2) k(2) in \<open>auto simp: stream_inv_def frame_for_def intro: that\<close>)
qed

lemma deliver_resolved:
  assumes "stream_inv L dir R" and "frame_for L dir R fr"
  shows "deliver L t (resolved L R fr) fr = deliver L t R fr"
    and "stream_inv L dir (resolved L R fr)"
    and "frame_for L dir (resolved L R fr) fr' = frame_for L dir R fr'"
proof -
  obtain R1 i mp where
      res: "resolve_index L R (fr_index fr) (strip_field L (fr_name fr)) = Some (Inr (R1, i))"
        "resolve_index L R1 (fr_index fr) (strip_field L (fr_name fr)) = Some (Inr (R1, i))"
      and R1: "R1 = R\<lparr>pvMapping := mp\<rparr>" "stream_inv L dir R1"
    by (rule resolve_frame [OF assms])
  then have "resolved L R fr = R1" by (simp add: resolved_def)
  then show "deliver L t (resolved L R fr) fr = deliver L t R fr"
      "stream_inv L dir (resolved L R fr)"
      "frame_for L dir (resolved L R fr) fr' = frame_for L dir R fr'"
    using res R1 by (simp_all add: deliver_def frame_for_def)
qed

lemma deliver_inv:
  assumes "stream_inv L dir R" and "frame_for L dir R fr"
  shows "stream_inv L dir (deliver L t R fr)" and "frame_for L dir (deliver L t R fr) fr' = frame_for L dir R fr'"
proof -
  obtain R1 i mp where res: "resolve_index L R (fr_index fr) (strip_field L (fr_name fr)) = Some (Inr (R1, i))"
      "R1 = R\<lparr>pvMapping := mp\<rparr>" "stream_inv L dir R1" "frame_for L dir R1 fr"
      "if dir (fr_index fr) \<in> set (names_of (pvs R1))
      then i < length (pvs R1) \<and> pvName_r (pvs R1 ! i) = dir (fr_index fr) else i = INDEX_NOT_FOUND_ID"
    by (rule resolve_frame [OF assms])
  have d: "deliver L t R fr = (if i < numberOfVariables_r R1 then store_frame t R1 i fr else R1)"
    using res(1) by (simp add: deliver_def)
  have "stream_inv L dir (store_frame t R1 i fr)" if "i < numberOfVariables_r R1"
  proof -
    have i: "i < length (pvs R1)" "pvName_r (pvs R1 ! i) = dir (fr_index fr)"
      using that res(3,5) by (auto simp: stream_inv_def receiver_wf_def split: if_splits)
    then have "receiver_wf L (store_frame t R1 i fr)"
      using res(3,4) by (intro store_frame_wf) (auto simp: stream_inv_def frame_for_def frame_ok_def)
    then show ?thesis using res(3) by (simp add: stream_inv_def mapping_ok_def)
  qed
  then show "stream_inv L dir (deliver L t R fr)" using d res(3) by simp
  show "frame_for L dir (deliver L t R fr) fr' = frame_for L dir R fr'"
    using d res(2) by (auto simp: frame_for_def)
qed

subsection \<open>The loop delivers the frames in order\<close>

lemma consume_vars_frame:
  assumes inv: "stream_inv L dir R" and fr: "frame_for L dir R fr"
  shows "consume_vars L t R (encode fr @ rest) = consume_vars L t (deliver L t R fr) rest"
proof -
  have wf: "receiver_wf L R" and mp: "mapping_ok dir R" using inv by (simp_all add: stream_inv_def)
  have N: "8 * maxArraySize_r R < 4294967296" "numberOfVariables_r R < 4294967296"
    using wf by (auto simp: receiver_wf_def INDEX_NOT_FOUND_ID_def)
  have ok: "frame_ok (numberOfVariables_r R) (maxArraySize_r R) fr"
    using fr by (simp add: frame_for_def)
  have pq: "(encode fr @ rest) @ [] = frame_header fr @ (fr_data fr @ fr_ts fr @ [10, 13] @ rest)"
    by (simp add: encode_def)
  have h: "ReadVarNameAndIndex L R (encode fr @ rest) = (encode fr @ rest, Some (header_of L fr))"
    using ReadVarNameAndIndex_prefix [OF pq ok N] ok
    by (auto simp: frame_ok_def header_of_def split: option.splits)
  have same: "header_of L fr = (header_of L fr)\<lparr>receivedOffset_h := fr_offset fr\<rparr>"
    by (simp add: header_of_def)
  obtain R1 i c where g: "GetLocalIndex L R (encode fr @ rest) (header_of L fr) = Some (Inr (R1,
      \<lparr>index_l = i, processedSize_l = length (encode fr), controlOk_l = c,
       ok_l = (length (encode fr) \<le> length (encode fr @ rest))\<rparr>))"
    and r: "resolve_index L R (fr_index fr) (dir (fr_index fr)) = Some (Inr (R1, i))"
    and c: "fr_offset fr = fr_offset fr \<longrightarrow> c"
    by (rule GetLocalIndex_frame [OF wf fr mp same, where p = "encode fr @ rest"])
  have dir: "strip_field L (fr_name fr) = dir (fr_index fr)" using fr by (simp add: frame_for_def)
  obtain R2 i2 mp where
      "resolve_index L R (fr_index fr) (strip_field L (fr_name fr)) = Some (Inr (R2, i2))"
    and inv2: "stream_inv L dir R2" "frame_for L dir R2 fr"
    and i2: "if dir (fr_index fr) \<in> set (names_of (pvs R2))
      then i2 < length (pvs R2) \<and> pvName_r (pvs R2 ! i2) = dir (fr_index fr)
      else i2 = INDEX_NOT_FOUND_ID"
    by (rule resolve_frame [OF inv fr])
  then have "R2 = R1" "i2 = i" using r dir by simp_all
  then have inv1: "receiver_wf L R1" "frame_for L dir R1 fr"
    and i: "if dir (fr_index fr) \<in> set (names_of (pvs R1))
      then i < length (pvs R1) \<and> pvName_r (pvs R1 ! i) = dir (fr_index fr) else i = INDEX_NOT_FOUND_ID"
    using inv2 i2 by (simp_all only: stream_inv_def)
  have "ReadVarValueAndSkip L t R1 (encode fr @ rest) (header_of L fr)
      \<lparr>index_l = i, processedSize_l = length (encode fr), controlOk_l = c, ok_l = True\<rparr>
    = Inr (if i < numberOfVariables_r R1 then store_frame t R1 i fr else R1, rest)"
    using c by (intro ReadVarValueAndSkip_frame [OF inv1 i]) simp_all
  then show ?thesis
    using h g r dir
    by (subst consume_vars.simps) (simp add: deliver_def del: length_encode)
qed

text \<open>The beginning of a frame stays in the payload; its name may be resolved already.\<close>

lemma consume_vars_partial:
  assumes inv: "stream_inv L dir R" and fr: "frame_for L dir R fr"
    and pq: "p @ q = encode fr" and "q \<noteq> []"
  shows "\<exists>R'. consume_vars L t R p = Some (Inr (R', p)) \<and> (R' = R \<or> R' = resolved L R fr)"
proof -
  have wf: "receiver_wf L R" and mp: "mapping_ok dir R" using inv by (simp_all add: stream_inv_def)
  have N: "8 * maxArraySize_r R < 4294967296" "numberOfVariables_r R < 4294967296"
    using wf by (auto simp: receiver_wf_def INDEX_NOT_FOUND_ID_def)
  have ok: "frame_ok (numberOfVariables_r R) (maxArraySize_r R) fr"
    and dir: "strip_field L (fr_name fr) = dir (fr_index fr)"
    using fr by (simp_all add: frame_for_def)
  have pq': "p @ q = frame_header fr @ (fr_data fr @ fr_ts fr @ [10, 13])"
    using pq by (simp add: encode_def)
  obtain ho where h: "ReadVarNameAndIndex L R p = (p, ho)"
      "case ho of None \<Rightarrow> length p < length (fr_name fr) + 17
        | Some h' \<Rightarrow> \<exists>x. h' = (header_of L fr)\<lparr>receivedOffset_h := x\<rparr> \<and>
            (length (fr_name fr) + 17 \<le> length p \<longrightarrow> x = fr_offset fr)"
    using ReadVarNameAndIndex_prefix [OF pq' ok N] by blast
  show ?thesis
  proof (cases ho)
    case None
    then show ?thesis using h by (subst consume_vars.simps) simp
  next
    case (Some h')
    then obtain x where x: "h' = (header_of L fr)\<lparr>receivedOffset_h := x\<rparr>" using h by auto
    obtain R1 i c where g: "GetLocalIndex L R p h' = Some (Inr (R1,
        \<lparr>index_l = i, processedSize_l = length (encode fr), controlOk_l = c,
         ok_l = (length (encode fr) \<le> length p)\<rparr>))"
      and r: "resolve_index L R (fr_index fr) (dir (fr_index fr)) = Some (Inr (R1, i))"
      by (rule GetLocalIndex_frame [OF wf fr mp x, where p = p])
    have short: "\<not> length (encode fr) \<le> length p"
      using arg_cong [OF pq, of length] assms(4) by (cases q) (simp_all del: length_encode)
    have "consume_vars L t R p = Some (Inr (R1, p))"
      using Some h g short by (subst consume_vars.simps) (simp del: length_encode)
    moreover have "R1 = resolved L R fr" using r dir by (simp add: resolved_def)
    ultimately show ?thesis by blast
  qed
qed


lemma consume_vars_stream:
  assumes "stream_inv L dir R" and "\<forall>fr \<in> set (frs @ [nxt]). frame_for L dir R fr"
    and "tail @ q = encode nxt" and "q \<noteq> []"
  shows "\<exists>R'. consume_vars L t R (encode_all frs @ tail) = Some (Inr (R', tail))
    \<and> (R' = deliver_all L t R frs \<or> R' = resolved L (deliver_all L t R frs) nxt)
    \<and> stream_inv L dir (deliver_all L t R frs)
    \<and> (\<forall>fr. frame_for L dir (deliver_all L t R frs) fr = frame_for L dir R fr)"
  using assms(1,2)
proof (induction frs arbitrary: R)
  case Nil
  then show ?case
    using consume_vars_partial [OF Nil.prems(1) _ assms(3,4), of t] by auto
next
  case (Cons fr frs)
  have fr: "frame_for L dir R fr" using Cons.prems by simp
  note inv' = deliver_inv [OF Cons.prems(1) fr, of t]
  have "\<forall>x \<in> set (frs @ [nxt]). frame_for L dir (deliver L t R fr) x"
    using Cons.prems(2) inv'(2) by simp
  with Cons.IH [OF inv'(1)] show ?case
    using consume_vars_frame [OF Cons.prems(1) fr] inv'(2) by simp
qed

lemma consume_vars_all:
  assumes "stream_inv L dir R" and "\<forall>fr \<in> set frs. frame_for L dir R fr"
  shows "consume_vars L t R (encode_all frs) = Some (Inr (deliver_all L t R frs, []))"
  using assms
proof (induction frs arbitrary: R)
  case Nil
  then show ?case
    by (subst consume_vars.simps) (simp add: ReadVarNameAndIndex_def)
next
  case (Cons fr frs)
  have fr: "frame_for L dir R fr" using Cons.prems by simp
  note inv' = deliver_inv [OF Cons.prems(1) fr, of t]
  have "\<forall>x \<in> set frs. frame_for L dir (deliver L t R fr) x"
    using Cons.prems(2) inv'(2) by simp
  with Cons.IH [OF inv'(1)] show ?case
    using consume_vars_frame [OF Cons.prems(1) fr] by simp
qed

end

subsection \<open>Any cut of the stream into chunks\<close>

text \<open>
  What \<open>ClientService\<close> does with successive chunks: append the chunk to the payload that is
  left, then consume the complete variables.
\<close>

fun feed :: "marte \<Rightarrow> nat \<Rightarrow> receiver \<Rightarrow> bytes \<Rightarrow> bytes list \<Rightarrow> (fault + receiver \<times> bytes) option" where
  "feed L t R payload [] = Some (Inr (R, payload))"
| "feed L t R payload (c # cs) =
     (case consume_vars L t R (payload @ c) of
        None \<Rightarrow> None
      | Some (Inl e) \<Rightarrow> Some (Inl e)
      | Some (Inr (R1, p1)) \<Rightarrow> feed L t R1 p1 cs)"

lemma encode_nonempty [simp]: "encode fr \<noteq> []"
  by (simp add: encode_def frame_header_def)

text \<open>A prefix of a sequence of frames is some whole frames and a proper part of the next.\<close>

lemma encode_all_prefix:
  assumes "p @ q = encode_all frs"
  obtains "p = encode_all frs" "q = []"
  | xs nxt ys tail r where "frs = xs @ nxt # ys" "p = encode_all xs @ tail" "tail @ r = encode nxt"
      "r \<noteq> []" "q = r @ encode_all ys"
proof -
  have "(p = encode_all frs \<and> q = []) \<or> (\<exists>xs nxt ys tail r. frs = xs @ nxt # ys
      \<and> p = encode_all xs @ tail \<and> tail @ r = encode nxt \<and> r \<noteq> [] \<and> q = r @ encode_all ys)"
    using assms
  proof (induction frs arbitrary: p)
    case Nil
    then show ?case by simp
  next
    case (Cons fr frs)
    from Cons.prems consider us where "p @ us = encode fr" "q = us @ encode_all frs" "us \<noteq> []"
      | us where "p = encode fr @ us" "us @ q = encode_all frs"
      by (auto simp: append_eq_append_conv2) (metis append_Nil append_Nil2)+
    then show ?case
    proof cases
      case 1
      then show ?thesis by (metis append_Nil concat.simps(1) list.simps(8))
    next
      case 2
      from Cons.IH [OF 2(2)] show ?thesis
      proof
        assume "us = encode_all frs \<and> q = []"
        with 2 show ?thesis by simp
      next
        assume "\<exists>xs nxt ys tail r. frs = xs @ nxt # ys \<and> us = encode_all xs @ tail
          \<and> tail @ r = encode nxt \<and> r \<noteq> [] \<and> q = r @ encode_all ys"
        then obtain xs nxt ys tail r where "frs = xs @ nxt # ys" "us = encode_all xs @ tail"
            "tail @ r = encode nxt" "r \<noteq> []" "q = r @ encode_all ys" by blast
        with 2 show ?thesis
          by (intro disjI2 exI [of _ "fr # xs"] exI [of _ nxt] exI [of _ ys] exI [of _ tail]
              exI [of _ r]) simp
      qed
    qed
  qed
  then show thesis using that by blast
qed

context marte_lib
begin

lemma feed_all:
  assumes "stream_inv L dir R" and "\<forall>fr \<in> set frs. frame_for L dir R fr"
    and "p @ concat cs = encode_all frs" and "cs \<noteq> [] \<or> p = []"
  shows "feed L t R p cs = Some (Inr (deliver_all L t R frs, []))"
  using assms
proof (induction cs arbitrary: R p frs)
  case Nil
  then have "frs = []" by (cases frs) auto
  with Nil show ?case by simp
next
  case (Cons c cs)
  have split: "(p @ c) @ concat cs = encode_all frs" using Cons.prems(3) by simp
  show ?case
  proof (cases rule: encode_all_prefix [OF split])
    case 1
    then have "consume_vars L t R (p @ c) = Some (Inr (deliver_all L t R frs, []))"
      using consume_vars_all [OF Cons.prems(1,2)] by simp
    moreover have "feed L t (deliver_all L t R frs) [] cs
        = Some (Inr (deliver_all L t (deliver_all L t R frs) [], []))" if "stream_inv L dir (deliver_all L t R frs)"
      using 1 that by (intro Cons.IH) simp_all
    moreover have "stream_inv L dir (deliver_all L t R frs)"
      using Cons.prems(1,2)
      by (induction frs arbitrary: R) (use deliver_inv in \<open>auto simp: deliver_all_simps\<close>)
    ultimately show ?thesis by simp
  next
    case (2 xs nxt ys tail r)
    have "\<forall>fr \<in> set (xs @ [nxt]). frame_for L dir R fr" using Cons.prems(2) 2(1) by simp
    from consume_vars_stream [OF Cons.prems(1) this 2(3,4), of t]
    obtain R' where c: "consume_vars L t R (p @ c) = Some (Inr (R', tail))"
        and R': "R' = deliver_all L t R xs \<or> R' = resolved L (deliver_all L t R xs) nxt"
        and inv: "stream_inv L dir (deliver_all L t R xs)"
        and ff: "\<forall>fr. frame_for L dir (deliver_all L t R xs) fr = frame_for L dir R fr"
      unfolding 2(2) by blast
    have nxt: "frame_for L dir (deliver_all L t R xs) nxt" using ff Cons.prems(2) 2(1) by simp
    note res = deliver_resolved [OF inv nxt]
    have inv': "stream_inv L dir R'" using R' inv res(2) by auto
    have ff': "\<forall>fr \<in> set (nxt # ys). frame_for L dir R' fr"
      using R' ff res(3) Cons.prems(2) 2(1) by auto
    have "feed L t R' tail cs = Some (Inr (deliver_all L t R' (nxt # ys), []))"
      using 2 by (intro Cons.IH [OF inv' ff']) (auto simp: append_assoc [symmetric])
    moreover have "deliver_all L t R' (nxt # ys) = deliver_all L t R frs"
      using R' res(1) 2(1) by auto
    ultimately show ?thesis using c by simp
  qed
qed

end

end
