(* ===== verification/ReceiverSafety.thy ===== *)
theory ReceiverSafety
  imports ReceiverStream
begin

section \<open>The parser on arbitrary bytes\<close>

text \<open>
  The payload comes from the network. On any bytes the parser terminates, leaves a suffix of
  the payload, reads at most one byte behind it, and, unless the received size and offset
  wrap around in 32 bits, writes only inside the slot of the variable it found.
\<close>

subsection \<open>The scanning loops leave a suffix of the payload\<close>

definition suffix_of :: "bytes \<Rightarrow> bytes \<Rightarrow> bool" where
  "suffix_of q p \<longleftrightarrow> (\<exists>k. q = drop k p)"

lemma suffix_of_refl [simp]: "suffix_of p p"
  unfolding suffix_of_def by (rule exI [of _ 0]) simp

lemma suffix_of_Nil [simp]: "suffix_of [] p"
  unfolding suffix_of_def by (rule exI [of _ "length p"]) simp

lemma suffix_of_drop [simp]: "suffix_of (drop k p) p"
  unfolding suffix_of_def by blast

lemma suffix_of_trans: "suffix_of r q \<Longrightarrow> suffix_of q p \<Longrightarrow> suffix_of r p"
  unfolding suffix_of_def by (metis drop_drop)

lemma suffix_of_length: "suffix_of q p \<Longrightarrow> length q \<le> length p"
  unfolding suffix_of_def by auto

text \<open>What a decoded header guarantees about the payload it was decoded from.\<close>

definition header_within :: "receiver \<Rightarrow> bytes \<Rightarrow> wire_header \<Rightarrow> bool" where
  "header_within R p h \<longleftrightarrow>
     receivedIndex_h h < numberOfVariables_r R \<and> receivedSize_h h < u32 (8 * maxArraySize_r R)
     \<and> dataPtr_h h = processedSize_h h + 10 \<and> processedSize_h h + 13 \<le> length p
     \<and> processedSize_h h \<le> PV_NAME_MAX_SIZE_REC + patternSize"

context marte_lib
begin

lemma consume_suffix: "i \<le> length p \<Longrightarrow> suffix_of (consume L p i) p"
  by (simp add: consume_eq)

lemma resync_loop_suffix: "resync_loop L p i = (p', found, ok) \<Longrightarrow> suffix_of p' p"
proof (induction "length p - i" arbitrary: p i rule: less_induct)
  case less
  show ?case
  proof (cases "i < length p \<and> p ! i = quote_char")
    case True
    then have c: "consume L p i = drop i p" by (simp add: consume_eq)
    have shrink: "length (drop i p) - 1 < length p - i" using True by (simp, linarith)
    have "suffix_of p' (drop i p)" if "resync_loop L (drop i p) 1 = (p', found, ok)"
      using less.hyps [OF shrink that] by simp
    then show ?thesis
      using less.prems True
      by (auto simp: c resync_loop.simps [of L p i] Let_def split: if_splits
          intro: suffix_of_trans [OF _ suffix_of_drop])
  next
    case False
    have "suffix_of p' p" if "i < length p" "resync_loop L p (Suc i) = (p', found, ok)"
      using less.hyps [OF _ that(2)] that(1) by simp
    then show ?thesis
      using less.prems False by (auto simp: resync_loop.simps [of L p i] split: if_splits)
  qed
qed

lemma name_end_loop_suffix:
  "name_end_loop L p i = (p', r) \<Longrightarrow> 1 \<le> i \<Longrightarrow> suffix_of p' p
    \<and> (\<forall>k. r = Some k \<longrightarrow> 1 \<le> k \<and> k + patternSize \<le> length p')"
proof (induction "length p - i" arbitrary: p i rule: less_induct)
  case less
  show ?case
  proof (cases "i < length p \<and> p ! i = quote_char")
    case True
    then have c: "consume L p i = drop i p" by (simp add: consume_eq)
    have shrink: "length (drop i p) - 1 < length p - i" using True by (simp, linarith)
    have "suffix_of p' (drop i p) \<and> (\<forall>k. r = Some k \<longrightarrow> 1 \<le> k \<and> k + patternSize \<le> length p')"
      if "name_end_loop L (drop i p) 1 = (p', r)"
      using less.hyps [OF shrink that] by simp
    then show ?thesis
      using less.prems True c
      by (auto simp: name_end_loop.simps [of L p i] split: if_splits
          intro: suffix_of_trans [OF _ suffix_of_drop])
  next
    case False
    have "suffix_of p' p \<and> (\<forall>k. r = Some k \<longrightarrow> 1 \<le> k \<and> k + patternSize \<le> length p')"
      if "i < length p" "name_end_loop L p (Suc i) = (p', r)"
      using less.hyps [OF _ that(2)] that(1) less.prems(2) by simp
    then show ?thesis
      using less.prems False by (auto simp: name_end_loop.simps [of L p i] split: if_splits)
  qed
qed

end

lemma suffix_of_consume: "marte_lib L \<Longrightarrow> suffix_of (consume L p (min k (length p))) p"
  by (rule marte_lib.consume_suffix) simp_all

context marte_lib
begin

lemma decode_header_within:
  assumes "decode_header L R p i = (p', ho)" and "1 \<le> i" and "i + patternSize \<le> length p"
    and "i < 4294967296"
  shows "suffix_of p' p \<and> (\<forall>h. ho = Some h \<longrightarrow> p' = p \<and> header_within R p h)"
proof (cases "u32 (i - 1) \<le> PV_NAME_MAX_SIZE_REC")
  case True
  let ?n = "u32 (i - 1)"
  show ?thesis
  proof (cases "length p - (?n + patternSize) \<ge> 13")
    case len: True
    have "Suc (u32 (i - Suc 0)) = i" using assms(2,4) by (simp add: u32_id)
    then show ?thesis
      using assms True len
      by (auto simp: decode_header_def Let_def header_within_def patternSize_def split: if_splits)
  next
    case False
    then show ?thesis using assms True by (auto simp: decode_header_def Let_def)
  qed
next
  case False
  then show ?thesis
    using assms consume_suffix [of "u32 (i - 1)" p]
    by (auto simp: decode_header_def Let_def consume_suffix split: if_splits)
qed


lemma ReadVarNameAndIndex_within:
  assumes "ReadVarNameAndIndex L R p = (p', ho)" and "length p < 4294967296"
  shows "suffix_of p' p" and "ho = Some h \<Longrightarrow> header_within R p' h"
proof -
  define pre where "pre = (if length p > 0 then
      (if p ! 0 \<noteq> quote_char then
         (case resync_loop L p 0 of (p, found, ok) \<Rightarrow> if ok \<and> \<not> found then ([], False) else (p, ok))
       else (p, True))
      else (p, False))"
  obtain p1 ok where first: "pre = (p1, ok)" by (cases pre)
  have p1: "suffix_of p1 p"
    using first by (auto simp: pre_def split: if_splits prod.splits dest: resync_loop_suffix)
  obtain p2 r where second: "name_end_loop L p1 1 = (p2, r)" by (cases "name_end_loop L p1 1")
  have p2: "suffix_of p2 p1" "\<And>k. r = Some k \<Longrightarrow> 1 \<le> k \<and> k + patternSize \<le> length p2"
    using name_end_loop_suffix [OF second] by auto
  have whole: "ReadVarNameAndIndex L R p = (if ok then
      (case name_end_loop L p1 1 of (p1, None) \<Rightarrow> (p1, None)
       | (p1, Some i) \<Rightarrow> decode_header L R p1 i) else (p1, None))"
    unfolding ReadVarNameAndIndex_def pre_def [symmetric] first by simp
  have small: "length p2 < 4294967296"
    using suffix_of_length [OF p1] suffix_of_length [OF p2(1)] assms(2) by simp
  have all: "suffix_of p' p \<and> (\<forall>h. ho = Some h \<longrightarrow> header_within R p' h)"
  proof (cases "ok \<and> r \<noteq> None")
    case True
    then obtain i where i: "r = Some i" "ok" by auto
    have "decode_header L R p2 i = (p', ho)"
      using assms(1) whole second i by simp
    from decode_header_within [OF this] p2(2) [OF i(1)] small show ?thesis
      using p1 p2(1) by (auto intro: suffix_of_trans simp: patternSize_def)
  next
    case False
    then have "ho = None \<and> (p' = p1 \<or> p' = p2)"
      using assms(1) whole second by (auto split: if_splits)
    then show ?thesis using p1 p2(1) by (auto intro: suffix_of_trans)
  qed
  then show "suffix_of p' p" and "ho = Some h \<Longrightarrow> header_within R p' h" by blast+
qed

end

subsection \<open>Termination and memory safety of one variable\<close>

text \<open>The mapping holds local indexes or is unresolved.\<close>

definition mapping_in_range :: "receiver \<Rightarrow> bool" where
  "mapping_in_range R \<longleftrightarrow>
     (\<forall>k < length (pvMapping R). pvMapping R ! k = INDEX_INIT_ID
        \<or> pvMapping R ! k < length (pvs R))"

lemma mapping_in_range_dir: "mapping_ok dir R \<Longrightarrow> mapping_in_range R"
  by (auto simp: mapping_ok_def mapping_in_range_def)

definition receiver_inv :: "marte \<Rightarrow> receiver \<Rightarrow> bool" where
  "receiver_inv L R \<longleftrightarrow> receiver_wf L R \<and> mapping_in_range R"

context marte_lib
begin

lemma GetLocalIndex_total:
  assumes "receiver_inv L R" and "header_within R p h"
  obtains R1 i c where "GetLocalIndex L R p h = Some (Inr (R1,
      \<lparr>index_l = i, processedSize_l = processedSize_h h + receivedSize_h h + 24, controlOk_l = c,
       ok_l = (processedSize_h h + receivedSize_h h + 24 \<le> length p)\<rparr>))"
    and "\<exists>mp. R1 = R\<lparr>pvMapping := mp\<rparr>" and "receiver_inv L R1"
    and "i < length (pvs R) \<or> i = INDEX_NOT_FOUND_ID"
    and "i < length (pvs R) \<longrightarrow> c = (totalSize_r (pvs R ! i) > 0 \<and>
      u32 (receivedSize_h h + receivedOffset_h h) \<le> totalSize_r (pvs R ! i))"
proof -
  have wf: "receiver_wf L R" "mapping_in_range R" using assms(1) by (simp_all add: receiver_inv_def)
  let ?k = "receivedIndex_h h"
  have k: "?k < length (pvMapping R)" "?k < length (pvs R)" "numberOfVariables_r R = length (pvs R)"
    using assms(2) wf by (auto simp: header_within_def receiver_wf_def)
  have lens: "length (pvs R) < 4294967296" "length (pvs R) < INDEX_NOT_FOUND_ID"
      "INDEX_NOT_FOUND_ID < INDEX_INIT_ID"
    using wf by (auto simp: receiver_wf_def INDEX_NOT_FOUND_ID_def INDEX_INIT_ID_def)
  obtain ok j where look: "GetLocalVariableIndex L (pvs R) (length (pvs R)) (varName_h h) = Some (ok, j)"
      "ok \<Longrightarrow> j < length (pvs R)"
    using GetLocalVariableIndex_correct wf(1) lens(1) by (metis receiver_wf_def)
  obtain R1 i where res: "resolve_index L R ?k (varName_h h) = Some (Inr (R1, i))"
      "\<exists>mp. R1 = R\<lparr>pvMapping := mp\<rparr>" "receiver_inv L R1"
      "i < length (pvs R) \<or> i = INDEX_NOT_FOUND_ID"
  proof (cases "pvMapping R ! ?k = INDEX_INIT_ID \<and> ok")
    case True
    let ?R1 = "R\<lparr>pvMapping := (pvMapping R)[?k := j]\<rparr>"
    have j: "j < length (pvs R)" using look(2) True by simp
    have res: "resolve_index L R ?k (varName_h h) = Some (Inr (?R1, j))"
      using True k look(1) by (simp add: resolve_index_def)
    have inv: "receiver_inv L ?R1"
      using assms(1) j k
      by (auto simp: receiver_inv_def receiver_wf_def mapping_in_range_def nth_list_update)
    show thesis
      by (rule that [OF res _ inv]) (use j in auto)
  next
    case unres: False
    define i where "i = (if pvMapping R ! ?k = INDEX_INIT_ID then INDEX_NOT_FOUND_ID
      else pvMapping R ! ?k)"
    have "i < length (pvs R) \<or> i = INDEX_NOT_FOUND_ID"
      using wf(2) k by (auto simp: i_def mapping_in_range_def)
    moreover have "resolve_index L R ?k (varName_h h) = Some (Inr (R, i))"
      using unres k look by (auto simp: resolve_index_def i_def)
    moreover have "\<exists>mp. R = R\<lparr>pvMapping := mp\<rparr>" by (rule exI [of _ "pvMapping R"]) simp
    ultimately show thesis using assms(1) by (intro that [of R i])
  qed
  have "8 * maxArraySize_r R + 256 < 4294967296" using wf by (simp add: receiver_wf_def)
  then have size: "processedSize_h h + receivedSize_h h + 24 < 4294967296"
    using assms(2)
    by (auto simp: header_within_def PV_NAME_MAX_SIZE_REC_def patternSize_def u32_id)
  define c where "c = (if i < numberOfVariables_r R1
    then totalSize_r (pvs R1 ! i) > 0 \<and>
      u32 (receivedSize_h h + receivedOffset_h h) \<le> totalSize_r (pvs R1 ! i) else True)"
  have "GetLocalIndex L R p h = Some (Inr (R1,
      \<lparr>index_l = i, processedSize_l = processedSize_h h + receivedSize_h h + 24, controlOk_l = c,
       ok_l = (processedSize_h h + receivedSize_h h + 24 \<le> length p)\<rparr>))"
    using res(1) size by (simp add: GetLocalIndex_def Let_def c_def u32_id ac_simps)
  moreover have "i < length (pvs R) \<longrightarrow> c = (totalSize_r (pvs R ! i) > 0 \<and>
      u32 (receivedSize_h h + receivedOffset_h h) \<le> totalSize_r (pvs R ! i))"
    using res(2) k by (auto simp: c_def)
  ultimately show thesis using res(2-) that by blast
qed

end

text \<open>Two memories agree outside the slot and the time stamp of variable \<open>i\<close>.\<close>

definition same_outside :: "receiver \<Rightarrow> nat \<Rightarrow> bytes \<Rightarrow> bytes \<Rightarrow> bool" where
  "same_outside R i m m' \<longleftrightarrow> length m = length m' \<and>
     (\<forall>k < length m. k < offset_r (pvs R ! i)
        \<or> offset_r (pvs R ! i) + totalSize_r (pvs R ! i) + 8 \<le> k \<longrightarrow> m ! k = m' ! k)"

lemma nth_put_bytes:
  "k + length bs \<le> length m \<Longrightarrow> j < k \<or> k + length bs \<le> j \<Longrightarrow> j < length m \<Longrightarrow>
   put_bytes m k bs ! j = m ! j"
  by (auto simp: put_bytes_def nth_append)

lemma same_outside_refl [simp]: "same_outside R i m m"
  by (simp add: same_outside_def)

lemma same_outside_trans:
  "same_outside R i a b \<Longrightarrow> same_outside R i b c \<Longrightarrow> same_outside R i a c"
  unfolding same_outside_def by metis

lemma same_outside_put:
  assumes "offset_r (pvs R ! i) \<le> k"
    and "k + length bs \<le> offset_r (pvs R ! i) + totalSize_r (pvs R ! i) + 8"
    and "k + length bs \<le> length m"
  shows "same_outside R i (put_bytes m k bs) m"
  using assms by (auto simp: same_outside_def nth_put_bytes)

text \<open>
  The variable does not fit and is converted, but its type has more bytes than there are left in
  the payload.
\<close>

definition converts_beyond :: "bytes \<Rightarrow> wire_header \<Rightarrow> local_index \<Rightarrow> bool" where
  "converts_beyond p h li \<longleftrightarrow> \<not> controlOk_l li \<and> receivedOffset_h h = 0
     \<and> receivedTypeId_h h < NUMBER_OF_TYPES
     \<and> length p < dataPtr_h h + 4 + td_bytes (descriptors ! receivedTypeId_h h)"

lemma same_outside_slot:
  assumes "receiver_wf L R" "same_outside R i m m'" "length m' = totalMemorySize_r R"
    and "i < length (pvs R)" "j < length (pvs R)" "i \<noteq> j"
  shows "slot R j m = slot R j m'"
proof (rule nth_equalityI)
  have lay: "offset_r (pvs R ! j) + totalSize_r (pvs R ! j) + 8 \<le> totalMemorySize_r R"
      "offset_r (pvs R ! j) + totalSize_r (pvs R ! j) + 8 \<le> offset_r (pvs R ! i)
       \<or> offset_r (pvs R ! i) + totalSize_r (pvs R ! i) + 8 \<le> offset_r (pvs R ! j)"
    using assms by (auto simp: receiver_wf_def slots_ok_def nat_neq_iff)
  show "length (slot R j m) = length (slot R j m')"
    using assms(2) by (simp add: slot_def same_outside_def)
  show "slot R j m ! k = slot R j m' ! k" if "k < length (slot R j m)" for k
    using that lay assms(2,3) by (auto simp: slot_def same_outside_def)
qed

context marte_lib
begin

lemma mem_copy_checked_put:
  assumes "i + n \<le> length d" "j + n \<le> length s"
  shows "mem_copy_checked L d i s j n = Inr (put_bytes d i (take n (drop j s)))"
  using assms by (simp add: mem_copy_checked_Inr put_bytes_def)

lemma write_value_cases:
  assumes inv: "receiver_inv L R" and h: "header_within R p h"
    and i: "index_l li < length (pvs R)" and len: "processedSize_h h + receivedSize_h h + 24 \<le> length p"
  shows "write_value L R p h li = Inl Out_Of_Bounds
    \<or> (\<exists>mem. write_value L R p h li = Inr mem \<and> length mem = totalMemorySize_r R)"
proof -
  let ?pv = "pvs R ! index_l li"
  have room: "offset_r ?pv + totalSize_r ?pv + 8 \<le> totalMemorySize_r R"
      "length (memory_r R) = totalMemorySize_r R"
    using inv i by (auto simp: receiver_inv_def receiver_wf_def slots_ok_def)
  have conv: "length (TypeConv L (at_r ?pv) k src (take (totalSize_r ?pv)
      (drop (offset_r ?pv) (memory_r R)))) = totalSize_r ?pv" for k src
    using room by (simp add: type_conv_length)
  show ?thesis
    using room conv
    by (auto simp: write_value_def Let_def mem_copy_checked_def mem_copy_length split: sum.splits)
qed

lemma write_value_safe:
  assumes inv: "receiver_inv L R" and h: "header_within R p h"
    and i: "index_l li < length (pvs R)" and len: "processedSize_h h + receivedSize_h h + 24 \<le> length p"
    and fit: "controlOk_l li \<longrightarrow>
      receivedOffset_h h + receivedSize_h h \<le> totalSize_r (pvs R ! index_l li)"
    and conv: "\<not> converts_beyond p h li"
  obtains mem where "write_value L R p h li = Inr mem"
    and "same_outside R (index_l li) mem (memory_r R)"
proof -
  let ?pv = "pvs R ! index_l li"
  have room: "offset_r ?pv + totalSize_r ?pv + 8 \<le> length (memory_r R)"
    using inv i by (auto simp: receiver_inv_def receiver_wf_def slots_ok_def)
  have ptr: "dataPtr_h h + 4 + receivedSize_h h + 8 \<le> length p"
    using h len by (simp add: header_within_def)
  show thesis
  proof (cases "controlOk_l li")
    case True
    then have fit: "receivedOffset_h h + receivedSize_h h \<le> totalSize_r ?pv" using fit by simp
    define m1 where "m1 = put_bytes (memory_r R) (offset_r ?pv + receivedOffset_h h)
      (take (receivedSize_h h) (drop (dataPtr_h h + 4) p))"
    define m2 where "m2 = put_bytes m1 (offset_r ?pv + totalSize_r ?pv)
      (take 8 (drop (dataPtr_h h + 4 + receivedSize_h h) p))"
    have len1: "length m1 = length (memory_r R)" using fit room ptr by (simp add: m1_def)
    have so1: "same_outside R (index_l li) m1 (memory_r R)"
      unfolding m1_def using fit room ptr by (intro same_outside_put) simp_all
    have so2: "same_outside R (index_l li) m2 m1"
      unfolding m2_def using room ptr len1 by (intro same_outside_put) simp_all
    have "write_value L R p h li = Inr m2"
      using True fit room ptr len1
      by (simp add: write_value_def Let_def mem_copy_checked_put m1_def [symmetric]
          m2_def [symmetric])
    then show thesis using that so1 so2 same_outside_trans by blast
  next
    case False
    let ?v = "TypeConv L (at_r ?pv) (receivedTypeId_h h)
      (take (td_bytes (descriptors ! receivedTypeId_h h)) (drop (dataPtr_h h + 4) p))
      (take (totalSize_r ?pv) (drop (offset_r ?pv) (memory_r R)))"
    have "length ?v = totalSize_r ?pv" using room by (simp add: type_conv_length)
    then have "same_outside R (index_l li) (put_bytes (memory_r R) (offset_r ?pv) ?v) (memory_r R)"
      using room by (intro same_outside_put) simp_all
    then show thesis
      using False conv \<open>length ?v = totalSize_r ?pv\<close> that same_outside_refl
      by (cases "receivedOffset_h h = 0 \<and> receivedTypeId_h h < NUMBER_OF_TYPES")
        (auto simp: write_value_def Let_def put_bytes_def converts_beyond_def)
  qed
qed

lemma write_value_beyond: "converts_beyond p h li \<Longrightarrow> write_value L R p h li = Inl Out_Of_Bounds"
  by (simp add: converts_beyond_def write_value_def Let_def)

lemma note_change_inv:
  assumes inv: "receiver_inv L R" and i: "i < length (pvs R)"
    and "length mem = totalMemorySize_r R"
  shows "receiver_inv L (note_change L t R i mem)"
proof -
  have room: "offset_r (pvs R ! i) + totalSize_r (pvs R ! i) \<le> totalMemorySize_r R"
      "length (memoryPrec_r R) = totalMemorySize_r R"
    using inv i by (auto simp: receiver_inv_def receiver_wf_def slots_ok_def)
  then show ?thesis
    using inv assms(3) room
    by (auto simp: note_change_def Let_def receiver_inv_def receiver_wf_def mapping_in_range_def
        mem_copy_length)
qed

text \<open>Storing a variable and skipping it: an out-of-bounds copy, or a shorter payload.\<close>

lemma ReadVarValueAndSkip_cases:
  assumes inv: "receiver_inv L R" and h: "header_within R p h"
    and i: "index_l li < length (pvs R) \<or> index_l li = INDEX_NOT_FOUND_ID"
    and size: "processedSize_l li = processedSize_h h + receivedSize_h h + 24"
      "processedSize_l li \<le> length p"
  shows "ReadVarValueAndSkip L t R p h li = Inl Out_Of_Bounds \<or>
    (\<exists>R2. ReadVarValueAndSkip L t R p h li = Inr (R2, drop (processedSize_l li) p)
      \<and> receiver_inv L R2 \<and> numberOfVariables_r R2 = numberOfVariables_r R)"
proof (cases "index_l li < numberOfVariables_r R")
  case False
  then show ?thesis
    using size(2) inv by (simp add: ReadVarValueAndSkip_def Let_def consume_eq)
next
  case True
  then have i: "index_l li < length (pvs R)"
    using inv by (simp add: receiver_inv_def receiver_wf_def)
  have "numberOfVariables_r (note_change L t R (index_l li) mem) = numberOfVariables_r R" for mem
    by (simp add: note_change_def Let_def)
  then show ?thesis
    using write_value_cases [OF inv h i] size True note_change_inv [OF inv i]
    by (auto simp: ReadVarValueAndSkip_def Let_def consume_eq)
qed

lemma consume_vars_returns:
  assumes "receiver_inv L R" and "length p < 4294967296"
  shows "\<exists>r. consume_vars L t R p = Some r \<and>
    (case r of Inl e \<Rightarrow> e = Out_Of_Bounds
     | Inr (R', p') \<Rightarrow> receiver_inv L R' \<and> suffix_of p' p)"
  using assms
proof (induction "length p" arbitrary: R p rule: less_induct)
  case less
  obtain p1 ho where rd: "ReadVarNameAndIndex L R p = (p1, ho)"
    by (cases "ReadVarNameAndIndex L R p")
  note within = ReadVarNameAndIndex_within [OF rd less.prems(2)]
  show ?case
  proof (cases ho)
    case None
    then show ?thesis
      using rd within(1) less.prems(1) by (subst consume_vars.simps) simp
  next
    case (Some h)
    have h: "header_within R p1 h" using within(2) Some by simp
    obtain R1 i c where g: "GetLocalIndex L R p1 h = Some (Inr (R1,
        \<lparr>index_l = i, processedSize_l = processedSize_h h + receivedSize_h h + 24, controlOk_l = c,
         ok_l = (processedSize_h h + receivedSize_h h + 24 \<le> length p1)\<rparr>))"
      and R1: "\<exists>mp. R1 = R\<lparr>pvMapping := mp\<rparr>" "receiver_inv L R1"
      and i: "i < length (pvs R) \<or> i = INDEX_NOT_FOUND_ID"
      by (rule GetLocalIndex_total [OF less.prems(1) h])
    define n where "n = processedSize_h h + receivedSize_h h + 24"
    define li where "li = \<lparr>index_l = i, processedSize_l = n, controlOk_l = c, ok_l = (n \<le> length p1)\<rparr>"
    have g: "GetLocalIndex L R p1 h = Some (Inr (R1, li))" using g by (simp add: li_def n_def)
    have h1: "header_within R1 p1 h" "index_l li < length (pvs R1) \<or> index_l li = INDEX_NOT_FOUND_ID"
      using h R1 i by (auto simp: header_within_def li_def)
    show ?thesis
    proof (cases "ok_l li")
      case False
      then show ?thesis
        using rd Some g R1 within(1) by (subst consume_vars.simps) simp
    next
      case True
      then have "processedSize_l li = processedSize_h h + receivedSize_h h + 24"
          "processedSize_l li \<le> length p1"
        by (simp_all add: li_def n_def)
      from ReadVarValueAndSkip_cases [OF R1(2) h1 this, of t]
      consider "ReadVarValueAndSkip L t R1 p1 h li = Inl Out_Of_Bounds"
        | R2 where "ReadVarValueAndSkip L t R1 p1 h li = Inr (R2, drop n p1)" "receiver_inv L R2"
        by (auto simp: li_def)
      then show ?thesis
      proof cases
        case 1
        then show ?thesis using rd Some g True by (subst consume_vars.simps) simp
      next
        case 2
        have "0 < n" "n \<le> length p1" using True by (auto simp: n_def li_def)
        then have "length (drop n p1) < length p"
          using suffix_of_length [OF within(1)] by simp
        from less.hyps [OF this 2(2)] this less.prems(2) obtain r where
            r: "consume_vars L t R2 (drop n p1) = Some r"
              "case r of Inl e \<Rightarrow> e = Out_Of_Bounds
               | Inr (R', p') \<Rightarrow> receiver_inv L R' \<and> suffix_of p' (drop n p1)"
          by auto
        moreover have "suffix_of (drop n p1) p"
          using within(1) suffix_of_drop suffix_of_trans by blast
        ultimately have "case r of Inl e \<Rightarrow> e = Out_Of_Bounds
               | Inr (R', p') \<Rightarrow> receiver_inv L R' \<and> suffix_of p' p"
          by (auto split: sum.splits intro: suffix_of_trans)
        moreover have "consume_vars L t R p = Some r"
          using rd Some g True 2 r(1) by (subst consume_vars.simps) simp
        ultimately show ?thesis by blast
      qed
    qed
  qed
qed

end

end
