(* ===== verification/ChangeSource.thy ===== *)
theory ChangeSource
  imports SubscriberLayout ReceiverSafety
begin

section \<open>Reporting changes once\<close>

text \<open>
  The subscriber of the sender and the receiver have the same contract with their client:
  \<open>Synchronise\<close> copies the changed flags out and clears them, and every event raises the
  flags of the variables it changes. The locale states the contract, its lemma what a client
  that synchronises again after some events reads: exactly the variables changed since.
\<close>

fun run_events :: "('e \<Rightarrow> 's \<Rightarrow> fault + 's) \<Rightarrow> 'e list \<Rightarrow> 's \<Rightarrow> fault + 's" where
  "run_events event [] s = Inr s"
| "run_events event (e # es) s =
     (case event e s of Inl f \<Rightarrow> Inl f | Inr s1 \<Rightarrow> run_events event es s1)"

text \<open>Whether a run changes a variable, from what each of its events touches.\<close>

fun touched_in ::
  "('e \<Rightarrow> 's \<Rightarrow> fault + 's) \<Rightarrow> ('e \<Rightarrow> 's \<Rightarrow> nat \<Rightarrow> bool) \<Rightarrow> 'e list \<Rightarrow> 's \<Rightarrow> nat \<Rightarrow> bool" where
  "touched_in event touched [] s i \<longleftrightarrow> False"
| "touched_in event touched (e # es) s i \<longleftrightarrow>
     touched e s i
     \<or> (case event e s of Inl f \<Rightarrow> False | Inr s1 \<Rightarrow> touched_in event touched es s1 i)"

locale change_source =
  fixes inv :: "'s \<Rightarrow> bool"
    and flags :: "'s \<Rightarrow> bytes"
    and event :: "'e \<Rightarrow> 's \<Rightarrow> fault + 's"
    and touched :: "'e \<Rightarrow> 's \<Rightarrow> nat \<Rightarrow> bool"
    and sync :: "'s \<Rightarrow> bytes \<times> 's"
  assumes sync_reports: "inv s \<Longrightarrow> fst (sync s) = flags s"
    and sync_clears: "inv s \<Longrightarrow> flags (snd (sync s)) = replicate (length (flags s)) 0"
    and sync_inv: "inv s \<Longrightarrow> inv (snd (sync s))"
    and event_inv: "inv s \<Longrightarrow> event e s = Inr s' \<Longrightarrow> inv s'"
    and event_flags: "inv s \<Longrightarrow> event e s = Inr s' \<Longrightarrow>
      flags s' = map (\<lambda>i. if touched e s i then 1 else flags s ! i) [0..<length (flags s)]"
begin

lemma run_flags:
  assumes "inv s" "run_events event es s = Inr s'"
  shows "inv s' \<and> flags s' = map (\<lambda>i. if touched_in event touched es s i then 1 else flags s ! i) [0..<length (flags s)]"
  using assms
proof (induction es arbitrary: s)
  case Nil
  then show ?case by (simp add: map_nth)
next
  case (Cons e es)
  then obtain s1 where s1: "event e s = Inr s1" "run_events event es s1 = Inr s'" by (auto split: sum.splits)
  note fl = event_flags [OF Cons.prems(1) s1(1)]
  have "inv s'" "flags s' = map (\<lambda>i. if touched_in event touched es s1 i then 1 else flags s1 ! i)
      [0..<length (flags s1)]"
    using Cons.IH [OF event_inv [OF Cons.prems(1) s1(1)] s1(2)] by auto
  then show ?case using s1(1) fl by (auto intro!: map_cong)
qed

text \<open>Two calls of \<open>Synchronise\<close> with events between them.\<close>

lemma sync_run_sync:
  assumes "inv s" "run_events event es (snd (sync s)) = Inr s'"
  shows "fst (sync s') = map (\<lambda>i. if touched_in event touched es (snd (sync s)) i then 1 else 0)
     [0..<length (flags s)]"
proof -
  have "inv s' \<and> flags s' = map (\<lambda>i. if touched_in event touched es (snd (sync s)) i then 1
      else flags (snd (sync s)) ! i) [0..<length (flags (snd (sync s)))]"
    by (rule run_flags [OF sync_inv [OF assms(1)] assms(2)])
  then show ?thesis
    using sync_clears [OF assms(1)] by (auto simp: sync_reports intro!: map_cong)
qed

end

subsection \<open>The subscriber as a change source\<close>

datatype ca_event =
    ValueEvent nat bytes \<comment> \<open>\<open>GetValueCallback\<close> for a variable, with the value\<close>
  | StampEvent nat bytes \<comment> \<open>\<open>GetTimeoutCallback\<close> for a variable, with the time stamp\<close>

text \<open>Channel access calls back for a variable that has been subscribed to.\<close>

definition subscriber_event :: "marte \<Rightarrow> ca_event \<Rightarrow> subscriber \<Rightarrow> fault + subscriber" where
  "subscriber_event L e S =
     (case e of
        ValueEvent i dbr \<Rightarrow>
          if i < numberOfVariables_e S \<and> has_value (pvDescriptor_e S ! i)
          then GetValueCallback L i dbr S else Inr S
      | StampEvent i ts \<Rightarrow>
          if i < numberOfVariables_e S \<and> has_value (pvDescriptor_e S ! i)
          then GetTimeoutCallback L i ts S else Inr S)"

fun subscriber_touched :: "ca_event \<Rightarrow> subscriber \<Rightarrow> nat \<Rightarrow> bool" where
  "subscriber_touched (ValueEvent k dbr) S i \<longleftrightarrow>
     k = i \<and> k < numberOfVariables_e S \<and> has_value (pvDescriptor_e S ! k)"
| "subscriber_touched (StampEvent k ts) S i \<longleftrightarrow> False"

text \<open>\<open>Synchronise\<close> into buffers of the sizes the class announces.\<close>

definition subscriber_sync :: "marte \<Rightarrow> subscriber \<Rightarrow> bytes \<times> subscriber" where
  "subscriber_sync L S =
     (case Synchronise_e L (replicate (GetTotalMemorySize S) 0)
             (replicate (GetNumberOfVariables_e S) 0) S of
        Inl e \<Rightarrow> ([], S)
      | Inr (out, fl, S1) \<Rightarrow> (fl, S1))"

context marte_lib
begin

lemma sync_loop_join:
  assumes "off + sum_list (map length ms) < 4294967296"
    and "length out = off + sum_list (map length ms) + k"
  shows "sync_loop L ms (map length ms) off out =
    Inr (take off out @ concat ms @ drop (off + sum_list (map length ms)) out)"
  using assms
proof (induction ms arbitrary: off out)
  case Nil
  then show ?case by simp
next
  case (Cons m ms)
  let ?out = "take off out @ m @ drop (off + length m) out"
  have "mem_copy_checked L out off m 0 (length m) = Inr ?out"
    using Cons.prems by (simp add: mem_copy_checked_Inr)
  moreover have "sync_loop L ms (map length ms) (off + length m) ?out =
      Inr (take (off + length m) ?out @ concat ms
        @ drop (off + length m + sum_list (map length ms)) ?out)"
    using Cons.prems by (intro Cons.IH) simp_all
  ultimately show ?case
    using Cons.prems by (simp add: u32_id ac_simps)
qed

lemma Synchronise_e_eq:
  assumes "layout_ok S" "length memoryOut = GetTotalMemorySize S"
    and "length changedFlags = numberOfVariables_e S"
  shows "Synchronise_e L memoryOut changedFlags S = Inr (concat (memory_e S), changedFlagMem_e S,
    S\<lparr>changedFlagMem_e := replicate (numberOfVariables_e S) 0\<rparr>)"
proof -
  have ok: "memorySize_e S = map length (memory_e S)" "length (memory_e S) = numberOfPoolThreads_e S"
      "sum_list (memorySize_e S) < 4294967296" "length (changedFlagMem_e S) = numberOfVariables_e S"
    using assms(1) by (auto simp: layout_ok_def)
  have len: "length memoryOut = sum_list (map length (memory_e S))"
    using assms(2) ok by (simp add: GetTotalMemorySize_def)
  have "sync_loop L (memory_e S) (map length (memory_e S)) 0 memoryOut
      = Inr (concat (memory_e S))"
    using sync_loop_join [of 0 "memory_e S" memoryOut 0] len ok by simp
  then show ?thesis
    using ok assms(3) by (simp add: Synchronise_e_def mem_copy_checked_Inr)
qed

end

lemma take_drop_concat:
  assumes "t < length ms" "off + n \<le> length (ms ! t)"
  shows "take n (drop (sum_list (take t (map length ms)) + off) (concat ms))
    = take n (drop off (ms ! t))"
  using assms
proof (induction ms arbitrary: t)
  case Nil
  then show ?case by simp
next
  case (Cons m ms)
  show ?case
  proof (cases t)
    case 0
    then show ?thesis using Cons.prems by simp
  next
    case (Suc s)
    then show ?thesis using Cons.IH [of s] Cons.prems by (simp add: add.assoc)
  qed
qed

lemma concat_put:
  assumes "t < length ms" "off + length bs \<le> length (ms ! t)"
  shows "concat (ms[t := put_bytes (ms ! t) off bs])
    = put_bytes (concat ms) (sum_list (take t (map length ms)) + off) bs"
  using assms
proof (induction ms arbitrary: t)
  case Nil
  then show ?case by simp
next
  case (Cons m ms)
  show ?case
  proof (cases t)
    case 0
    then show ?thesis using Cons.prems by (simp add: put_bytes_def)
  next
    case (Suc s)
    then have "concat (ms[s := put_bytes (ms ! s) off bs])
        = put_bytes (concat ms) (sum_list (take s (map length ms)) + off) bs"
      using Cons by simp
    with Suc show ?thesis by (simp add: put_bytes_def add.assoc)
  qed
qed

lemma take_drop_put_other:
  assumes "k + length bs \<le> length m" "a + n \<le> length m" "a + n \<le> k \<or> k + length bs \<le> a"
  shows "take n (drop a (put_bytes m k bs)) = take n (drop a m)"
  using assms by (intro nth_equalityI) (auto simp: nth_put_bytes)

lemma take_drop_put_same:
  assumes "k + length bs \<le> length m"
  shows "take (length bs) (drop k (put_bytes m k bs)) = bs"
  using assms by (simp add: put_bytes_def)

text \<open>The value and the time stamp of a variable, as the blocks hold them.\<close>

definition pv_value :: "subscriber \<Rightarrow> nat \<Rightarrow> bytes" where
  "pv_value S i = (let d = pvDescriptor_e S ! i in
     case memory_d d of (t, off) \<Rightarrow> take (value_bytes d) (drop off (memory_e S ! t)))"

definition pv_stamp :: "subscriber \<Rightarrow> nat \<Rightarrow> bytes" where
  "pv_stamp S i = (case timeStamp_d (pvDescriptor_e S ! i) of
     (t, off) \<Rightarrow> take TS_SIZE (drop off (memory_e S ! t)))"

text \<open>The same bytes in the joined memory.\<close>

lemma layout_slot:
  assumes "layout_ok S" "i < numberOfVariables_e S" "has_value (pvDescriptor_e S ! i)"
  defines "d \<equiv> pvDescriptor_e S ! i"
  obtains t off where "memory_d d = (t, off)" "timeStamp_d d = (t, off + value_bytes d)"
    and "t < length (memory_e S)" "off + value_bytes d + TS_SIZE \<le> length (memory_e S ! t)"
    and "offset_d d = sum_list (take t (map length (memory_e S))) + off"
    and "offset_d d + value_bytes d + TS_SIZE \<le> length (concat (memory_e S))"
    and "index_d d = i"
proof -
  obtain t off where md: "memory_d d = (t, off)" by (cases "memory_d d")
  have pl: "pv_placed S d" "memorySize_e S = map length (memory_e S)"
      "length (memory_e S) = numberOfPoolThreads_e S" "index_d d = i"
    using assms by (auto simp: layout_ok_def)
  have t: "t < length (memory_e S)" "off + value_bytes d + TS_SIZE \<le> length (memory_e S ! t)"
      "offset_d d = sum_list (take t (map length (memory_e S))) + off"
    using pl md by (auto simp: pv_placed_def)
  have "sum_list (take t (map length (memory_e S))) + length (memory_e S ! t)
      \<le> length (concat (memory_e S))"
    using sum_take_next [of t "length (memory_e S)" "map length (memory_e S)"] t(1)
    by (simp add: length_concat)
  then show thesis using that md pl t by (auto simp: pv_placed_def)
qed

lemma joined_value:
  assumes "layout_ok S" "i < numberOfVariables_e S" "has_value (pvDescriptor_e S ! i)"
  defines "d \<equiv> pvDescriptor_e S ! i"
  shows "take (value_bytes d) (drop (offset_d d) (concat (memory_e S))) = pv_value S i"
    and "take TS_SIZE (drop (offset_d d + value_bytes d) (concat (memory_e S))) = pv_stamp S i"
proof -
  obtain t off where d: "memory_d d = (t, off)" "timeStamp_d d = (t, off + value_bytes d)"
      "t < length (memory_e S)" "off + value_bytes d + TS_SIZE \<le> length (memory_e S ! t)"
      "offset_d d = sum_list (take t (map length (memory_e S))) + off"
    using layout_slot [OF assms(1-3)] unfolding d_def by metis
  show "take (value_bytes d) (drop (offset_d d) (concat (memory_e S))) = pv_value S i"
    using d take_drop_concat [OF d(3), of off "value_bytes d"]
    by (simp add: pv_value_def d_def [symmetric])
  show "take TS_SIZE (drop (offset_d d + value_bytes d) (concat (memory_e S))) = pv_stamp S i"
    using d take_drop_concat [OF d(3), of "off + value_bytes d" TS_SIZE]
    by (simp add: pv_stamp_def d_def [symmetric] add.assoc)
qed

context marte_lib
begin

lemma layout_memory:
  "layout_ok S \<Longrightarrow> map length mem = map length (memory_e S) \<Longrightarrow> length fl = length (changedFlagMem_e S) \<Longrightarrow>
   layout_ok (S\<lparr>memory_e := mem, changedFlagMem_e := fl\<rparr>)"
proof -
  assume a: "layout_ok S" "map length mem = map length (memory_e S)"
    "length fl = length (changedFlagMem_e S)"
  have "length mem = length (memory_e S)" using a(2) by (metis length_map)
  moreover have "pv_placed (S\<lparr>memory_e := mem, changedFlagMem_e := fl\<rparr>) d = pv_placed S d" for d
    by (simp add: pv_placed_def)
  ultimately show ?thesis using a by (auto simp: layout_ok_def)
qed

lemma poke_put:
  assumes "t < length mem" "off + n \<le> length (mem ! t)" "n \<le> length src"
  shows "poke L (t, off) src n mem = Inr (mem[t := put_bytes (mem ! t) off (take n src)])"
  using assms by (simp add: poke_ok put_bytes_def)

lemma poke_short: "t < length mem \<Longrightarrow> length src < n \<Longrightarrow> poke L (t, off) src n mem = Inl Out_Of_Bounds"
  by (simp add: poke_def mem_copy_checked_def)

lemma GetValueCallback_cases:
  assumes "layout_ok S" "i < numberOfVariables_e S" "has_value (pvDescriptor_e S ! i)"
  defines "d \<equiv> pvDescriptor_e S ! i"
  shows "value_bytes d \<le> length dbr \<Longrightarrow> \<exists>mem. GetValueCallback L i dbr S =
      Inr (S\<lparr>memory_e := mem, changedFlagMem_e := (changedFlagMem_e S)[i := 1]\<rparr>)
      \<and> map length mem = map length (memory_e S)
      \<and> concat mem = put_bytes (concat (memory_e S)) (offset_d d) (take (value_bytes d) dbr)"
    and "length dbr < value_bytes d \<Longrightarrow> GetValueCallback L i dbr S = Inl Out_Of_Bounds"
proof -
  obtain t off where d: "memory_d d = (t, off)" "t < length (memory_e S)"
      "off + value_bytes d + TS_SIZE \<le> length (memory_e S ! t)" "index_d d = i"
      "offset_d d = sum_list (take t (map length (memory_e S))) + off"
    using layout_slot [OF assms(1-3)] unfolding d_def by metis
  have n: "u32 (memorySize_d d * numberOfElements_d d) = value_bytes d"
    by (simp add: value_bytes_def mult.commute)
  show "GetValueCallback L i dbr S = Inl Out_Of_Bounds" if "length dbr < value_bytes d"
    using d that n by (simp add: GetValueCallback_def d_def [symmetric] Let_def poke_short)
  show "\<exists>mem. GetValueCallback L i dbr S =
      Inr (S\<lparr>memory_e := mem, changedFlagMem_e := (changedFlagMem_e S)[i := 1]\<rparr>)
      \<and> map length mem = map length (memory_e S)
      \<and> concat mem = put_bytes (concat (memory_e S)) (offset_d d) (take (value_bytes d) dbr)"
    if vb: "value_bytes d \<le> length dbr"
  proof -
    let ?mem = "(memory_e S)[t := put_bytes (memory_e S ! t) off (take (value_bytes d) dbr)]"
    have p: "poke L (t, off) dbr (value_bytes d) (memory_e S) = Inr ?mem"
      using d vb by (intro poke_put) simp_all
    have "concat ?mem = put_bytes (concat (memory_e S)) (offset_d d) (take (value_bytes d) dbr)"
      unfolding d(5) using d vb by (intro concat_put) simp_all
    moreover have "GetValueCallback L i dbr S
        = Inr (S\<lparr>memory_e := ?mem, changedFlagMem_e := (changedFlagMem_e S)[i := 1]\<rparr>)"
      using d(1,4) p n by (simp add: GetValueCallback_def d_def [symmetric] Let_def)
    ultimately show ?thesis using poke_lengths [OF p] by blast
  qed
qed

lemma GetTimeoutCallback_cases:
  assumes "layout_ok S" "i < numberOfVariables_e S" "has_value (pvDescriptor_e S ! i)"
  defines "d \<equiv> pvDescriptor_e S ! i"
  shows "TS_SIZE \<le> length ts \<Longrightarrow> \<exists>mem. GetTimeoutCallback L i ts S = Inr (S\<lparr>memory_e := mem\<rparr>)
      \<and> map length mem = map length (memory_e S)
      \<and> concat mem = put_bytes (concat (memory_e S)) (offset_d d + value_bytes d) (take TS_SIZE ts)"
    and "length ts < TS_SIZE \<Longrightarrow> GetTimeoutCallback L i ts S = Inl Out_Of_Bounds"
proof -
  obtain t off where d: "timeStamp_d d = (t, off + value_bytes d)" "t < length (memory_e S)"
      "off + value_bytes d + TS_SIZE \<le> length (memory_e S ! t)"
      "offset_d d = sum_list (take t (map length (memory_e S))) + off"
    using layout_slot [OF assms(1-3)] unfolding d_def by metis
  show "GetTimeoutCallback L i ts S = Inl Out_Of_Bounds" if "length ts < TS_SIZE"
    using d that by (simp add: GetTimeoutCallback_def d_def [symmetric] poke_short)
  show "\<exists>mem. GetTimeoutCallback L i ts S = Inr (S\<lparr>memory_e := mem\<rparr>)
      \<and> map length mem = map length (memory_e S)
      \<and> concat mem = put_bytes (concat (memory_e S)) (offset_d d + value_bytes d) (take TS_SIZE ts)"
    if ts: "TS_SIZE \<le> length ts"
  proof -
    let ?mem = "(memory_e S)[t := put_bytes (memory_e S ! t) (off + value_bytes d) (take TS_SIZE ts)]"
    have p: "poke L (t, off + value_bytes d) ts TS_SIZE (memory_e S) = Inr ?mem"
      using d ts by (intro poke_put) simp_all
    have "concat ?mem = put_bytes (concat (memory_e S))
        (sum_list (take t (map length (memory_e S))) + (off + value_bytes d)) (take TS_SIZE ts)"
      using d ts by (intro concat_put) simp_all
    moreover have "GetTimeoutCallback L i ts S = Inr (S\<lparr>memory_e := ?mem\<rparr>)"
      using d(1) p by (simp add: GetTimeoutCallback_def d_def [symmetric])
    ultimately show ?thesis
      using d(4) poke_lengths [OF p] by (intro exI [of _ ?mem]) (simp add: add.assoc)
  qed
qed

end

lemma map_touched:
  "length xs = n \<Longrightarrow> map (\<lambda>i. if k = i \<and> P then 1 else xs ! i) [0..<n]
     = (if P then xs[k := 1] else xs)"
  by (auto intro!: nth_equalityI simp: nth_list_update)

sublocale marte_lib \<subseteq> subs: change_source layout_ok changedFlagMem_e "subscriber_event L"
    subscriber_touched "subscriber_sync L"
proof
  fix S S' :: subscriber and e
  assume inv: "layout_ok S"
  have sy: "subscriber_sync L S = (changedFlagMem_e S,
      S\<lparr>changedFlagMem_e := replicate (numberOfVariables_e S) 0\<rparr>)"
    using inv by (simp add: subscriber_sync_def Synchronise_e_eq GetNumberOfVariables_e_def)
  have n: "length (changedFlagMem_e S) = numberOfVariables_e S" using inv by (simp add: layout_ok_def)
  show "fst (subscriber_sync L S) = changedFlagMem_e S"
    and "changedFlagMem_e (snd (subscriber_sync L S)) = replicate (length (changedFlagMem_e S)) 0"
    using sy n by simp_all
  show "layout_ok (snd (subscriber_sync L S))"
    using layout_memory [OF inv, of "memory_e S" "replicate (numberOfVariables_e S) 0"] sy n by simp
  assume ev: "subscriber_event L e S = Inr S'"
  have "layout_ok S' \<and> changedFlagMem_e S' = map (\<lambda>i. if subscriber_touched e S i then 1
      else changedFlagMem_e S ! i) [0..<length (changedFlagMem_e S)]"
  proof (cases e)
    case (ValueEvent k dbr)
    let ?P = "k < numberOfVariables_e S \<and> has_value (pvDescriptor_e S ! k)"
    have fl: "map (\<lambda>i. if subscriber_touched e S i then 1 else changedFlagMem_e S ! i)
        [0..<length (changedFlagMem_e S)]
        = (if ?P then (changedFlagMem_e S)[k := 1] else changedFlagMem_e S)"
      using map_touched [of "changedFlagMem_e S" "length (changedFlagMem_e S)" k ?P] ValueEvent by simp
    show ?thesis
    proof (cases ?P)
      case False
      then show ?thesis
        unfolding fl using ev inv ValueEvent by (auto simp: subscriber_event_def)
    next
      case True
      then have "GetValueCallback L k dbr S = Inr S'" using ev ValueEvent by (simp add: subscriber_event_def)
      then obtain mem where "S' = S\<lparr>memory_e := mem, changedFlagMem_e := (changedFlagMem_e S)[k := 1]\<rparr>"
          "map length mem = map length (memory_e S)"
        using GetValueCallback_cases [OF inv, of k dbr] True by (metis Inl_Inr_False Inr_inject not_less)
      then show ?thesis unfolding fl using True layout_memory [OF inv] by simp
    qed
  next
    case (StampEvent k ts)
    have fl: "map (\<lambda>i. if subscriber_touched e S i then 1 else changedFlagMem_e S ! i)
        [0..<length (changedFlagMem_e S)] = changedFlagMem_e S"
      using StampEvent by (simp add: map_nth)
    show ?thesis
    proof (cases "k < numberOfVariables_e S \<and> has_value (pvDescriptor_e S ! k)")
      case False
      then show ?thesis
        unfolding fl using ev inv StampEvent by (auto simp: subscriber_event_def)
    next
      case True
      then have "GetTimeoutCallback L k ts S = Inr S'" using ev StampEvent by (simp add: subscriber_event_def)
      then obtain mem where "S' = S\<lparr>memory_e := mem\<rparr>" "map length mem = map length (memory_e S)"
        using GetTimeoutCallback_cases [OF inv, of k ts] True by (metis Inl_Inr_False Inr_inject not_less)
      then show ?thesis
        unfolding fl using layout_memory [OF inv, of mem "changedFlagMem_e S"] by simp
    qed
  qed
  then show "layout_ok S'" and "changedFlagMem_e S' = map (\<lambda>i. if subscriber_touched e S i then 1
      else changedFlagMem_e S ! i) [0..<length (changedFlagMem_e S)]"
    by simp_all
qed

context marte_lib
begin

lemma subscriber_contract:
  "change_source layout_ok changedFlagMem_e (subscriber_event L) subscriber_touched (subscriber_sync L)"
  by (rule subs.change_source_axioms)

end

end
