(* ===== verification/ReceiverTheorems.thy ===== *)
theory ReceiverTheorems
  imports ReceiverSafety
begin

section \<open>What the receiver's table and parser guarantee\<close>

text \<open>
  The properties of \<open>DiodeReceiver\<close> up to the storing of a variable: the table of names, the
  look-up, the delivery of a stream of variables, and the behaviour on arbitrary bytes.
  A small receiver with two variables is the common example.
\<close>

subsection \<open>Finding the first variable\<close>

context xml_source
begin

lemma fill_loop_start:
  assumes "xml_names X f = Some vs"
  shows "if first \<in> set vs
    then \<exists>g. xml_names X g = Some (dropWhile (\<lambda>v. v \<noteq> first) vs)
      \<and> fill_loop L X first maxN f False 0 ps = fill_loop L X first maxN g True 0 ps
    else fill_loop L X first maxN f False 0 ps = Some (Inr ps)"
  using assms
proof (induction rule: xml_names_induct)
  case (Stop f f1 v)
  then show ?case by (simp add: fill_loop.simps [of L X first maxN f] GetVariable_rec_def)
next
  case (Name f f1 v vs)
  show ?case
  proof (cases "v = first")
    case True
    have "xml_names X f = Some (v # vs)" using Name by (simp add: xml_names.simps [of X f])
    moreover have "fill_loop L X first maxN f False 0 ps = fill_loop L X first maxN f True 0 ps"
      using Name True by (simp add: fill_loop.simps [of L X first maxN f] GetVariable_rec_def)
    ultimately show ?thesis using True by auto
  next
    case False
    with Name show ?thesis
      by (auto simp: fill_loop.simps [of L X first maxN f] GetVariable_rec_def)
  qed
qed

end

context marte_lib
begin

lemma load_pvs_spec:
  fixes X :: "'f xml_file" and remaining
  assumes src: "xml_source X remaining" and vs: "xml_names X f = Some vs"
    and "maxN < 4294967296"
    and "\<forall>v \<in> set (selected first maxN vs). length v < PV_NAME_MAX_SIZE_REC"
  shows "\<exists>ps. load_pvs L X junk first maxN f = Some (Inr ps)
    \<and> mset (names_of ps) = mset (selected first maxN vs) \<and> names.name_sorted (names_of ps)"
proof -
  let ?vs = "dropWhile (\<lambda>v. v \<noteq> first) vs"
  have cnt: "count_loop X first maxN f False 0 = Some (length (selected first maxN vs))"
    by (rule xml_source.count_loop_selected [OF src vs assms(3)])
  show ?thesis
  proof (cases "first \<in> set vs")
    case False
    then have "selected first maxN vs = []" by (auto simp: selected_def)
    then show ?thesis
      using cnt False xml_source.fill_loop_start [OF src vs, of first L maxN "[]"] by (auto simp: load_pvs_def)
  next
    case True
    then obtain g where g: "xml_names X g = Some ?vs"
        "fill_loop L X first maxN f False 0 (replicate (length (selected first maxN vs)) junk)
          = fill_loop L X first maxN g True 0 (replicate (length (selected first maxN vs)) junk)"
      using xml_source.fill_loop_start [OF src vs, of first L maxN] by auto
    have "\<exists>ps. fill_loop L X first maxN g True 0 (replicate (length (selected first maxN vs)) junk)
        = Some (Inr ps) \<and> length ps = length (replicate (length (selected first maxN vs)) junk)
      \<and> mset (names_of ps) = mset (take 0 (names_of (replicate (length (selected first maxN vs)) junk)))
        + mset (take (max 1 maxN - 0) ?vs) \<and> names.name_sorted (names_of ps)"
      using assms(3,4) by (intro fill_loop_started [OF src g(1)]) (simp_all add: selected_def)
    then show ?thesis
      using cnt g(2) by (auto simp: load_pvs_def selected_def)
  qed
qed

end

lemma name_le_cmp:
  "marte_lib L \<Longrightarrow> name_order.name_le (StrCompare L) = (\<lambda>a b. StrCompare L a b \<noteq> 2)"
  by (intro ext) (simp add: marte_lib_def name_order.name_le_def)

text \<open>
  (C20) Both passes of \<open>Initialise\<close> over the file return, no copy leaves the array, and the
  table holds exactly the selected names (those from the first variable on, up to the
  maximum number), in the order of \<open>StringHelper::Compare\<close>.
\<close>

theorem table_is_sorted_selection:
  fixes X :: "'f xml_file" and remaining :: "'f \<Rightarrow> nat"
  assumes "marte_lib L" and "xml_source X remaining" and "xml_names X f = Some vs"
    and "maxN < 4294967296"
    and "\<forall>v \<in> set (selected first maxN vs). length v < PV_NAME_MAX_SIZE_REC"
  shows "\<exists>ps. load_pvs L X junk first maxN f = Some (Inr ps)
    \<and> mset (names_of ps) = mset (selected first maxN vs)
    \<and> sorted_wrt (\<lambda>a b. StrCompare L a b \<noteq> 2) (names_of ps)"
  using marte_lib.load_pvs_spec [OF assms, of junk] unfolding name_le_cmp [OF assms(1)] .

text \<open>One element of a file, for the reference tokeniser.\<close>

definition xml_element :: "bytes \<Rightarrow> bytes" where
  "xml_element v = [60, 118, 62] @ v @ [60, 47, 118, 62]"

lemma GetVariable_element:
  assumes "v \<noteq> []" "\<forall>c \<in> set v. c \<noteq> 60 \<and> c \<noteq> 32 \<and> c \<noteq> 10"
  shows "GetVariable ref_xml (xml_element v @ rest) [] = Some (True, rest, v)"
proof -
  have t: "takeWhile (\<lambda>c. c \<noteq> 60) (v @ 60 # xs) = v" "dropWhile (\<lambda>c. c \<noteq> 60) (v @ 60 # xs) = 60 # xs"
      "filter (\<lambda>c. c \<noteq> 32 \<and> c \<noteq> 10) v = v" for xs
    using assms(2) by (induction v) auto
  show ?thesis
    using assms(1)
    by (simp add: GetVariable_def get_variable_loop.simps ref_xml_def xml_element_def t
        tok_lt_def tok_gt_def tok_skip_def)
qed

lemma xml_names_elements:
  assumes "\<forall>v \<in> set vs. v \<noteq> [] \<and> (\<forall>c \<in> set v. c \<noteq> 60 \<and> c \<noteq> 32 \<and> c \<noteq> 10)"
  shows "xml_names ref_xml (concat (map xml_element vs)) = Some vs"
  using assms
proof (induction vs)
  case Nil
  then show ?case
    by (simp add: xml_names.simps GetVariable_def get_variable_loop.simps ref_xml_def)
next
  case (Cons v vs)
  then show ?case by (subst xml_names.simps) (simp add: GetVariable_element)
qed

text \<open>A file with the variables C, B, A and D, read from B on.\<close>

definition ex_xml :: bytes where
  "ex_xml = concat (map xml_element [[67], [66], [65], [68]])"

lemma ex_xml_names: "xml_names ref_xml ex_xml = Some [[67], [66], [65], [68]]"
  unfolding ex_xml_def by (rule xml_names_elements) simp

theorem table_is_sorted_selection_witness:
  "\<exists>ps. load_pvs ref_marte ref_xml
      \<lparr>pvChid_r = None, pvType_r = DBF_LONG, numberOfElements_r = 0, pvName_r = [],
       at_r = voidAnyType, totalSize_r = 0, offset_r = 0\<rparr> [66] 2 ex_xml = Some (Inr ps)
    \<and> mset (names_of ps) = mset [[66], [65]]
    \<and> sorted_wrt (\<lambda>a b. StrCompare ref_marte a b \<noteq> 2) (names_of ps)"
  using table_is_sorted_selection [OF ref.marte_lib_axioms ref_xml.xml_source_axioms ex_xml_names,
      of 2 "[66]"]
  by (simp add: selected_def PV_NAME_MAX_SIZE_REC_def)

text \<open>
  (C34) A selected name of 64 characters or more overflows the name array of its descriptor:
  \<open>StringHelper::Copy\<close> is not told the size of the array.
\<close>

theorem long_name_overflows:
  fixes X :: "'f xml_file" and remaining :: "'f \<Rightarrow> nat"
  assumes "xml_source X remaining" and "xml_names X f = Some vs" and "maxN < 4294967296"
    and "first \<in> set vs"
    and "\<exists>v \<in> set (take maxN (dropWhile (\<lambda>v. v \<noteq> first) vs)). PV_NAME_MAX_SIZE_REC \<le> length v"
  shows "load_pvs L X junk first maxN f = Some (Inl Buffer_Overflow)"
proof -
  obtain v where v: "v \<in> set (take (maxN - 0) (if False then vs else dropWhile (\<lambda>v. v \<noteq> first) vs))"
      "PV_NAME_MAX_SIZE_REC \<le> length v"
    using assms(5) by auto
  have m: "1 \<le> maxN" using v(1) by (cases maxN) auto
  show ?thesis
    using xml_source.fill_loop_overflow [OF assms(1,2) v(1) v(2) assms(3),
        of "replicate (length (selected first maxN vs)) junk" L]
      xml_source.count_loop_selected [OF assms(1-3), of first] m
    by (simp add: load_pvs_def selected_def max_def del: length_take)
qed

definition ex_long_xml :: bytes where
  "ex_long_xml = concat (map xml_element [replicate 64 65])"

theorem long_name_overflows_witness:
  "load_pvs ref_marte ref_xml
      \<lparr>pvChid_r = None, pvType_r = DBF_LONG, numberOfElements_r = 0, pvName_r = [],
       at_r = voidAnyType, totalSize_r = 0, offset_r = 0\<rparr> (replicate 64 65) 5 ex_long_xml
    = Some (Inl Buffer_Overflow)"
proof -
  have "xml_names ref_xml ex_long_xml = Some [replicate 64 65]"
    unfolding ex_long_xml_def by (rule xml_names_elements) simp
  from long_name_overflows [OF ref_xml.xml_source_axioms this]
  show ?thesis by (simp add: PV_NAME_MAX_SIZE_REC_def)
qed

text \<open>
  (C21) \<open>GetLocalVariableIndex\<close> on a table in the order of \<open>StringHelper::Compare\<close> returns, never
  reads outside the table, and reports success, with the index of the name, exactly when
  the name is in the table.
\<close>

theorem lookup_finds_exactly:
  assumes "marte_lib L" and "sorted_wrt (\<lambda>a b. StrCompare L a b \<noteq> 2) (names_of ps)"
    and "length ps < 4294967296"
  shows "\<exists>ok i. GetLocalVariableIndex L ps (length ps) x = Some (ok, i)
    \<and> (ok \<longleftrightarrow> x \<in> set (names_of ps)) \<and> (ok \<longrightarrow> i < length ps \<and> names_of ps ! i = x)"
proof -
  have "sorted_wrt (name_order.name_le (StrCompare L)) (names_of ps)"
    using assms(2) unfolding name_le_cmp [OF assms(1)] .
  then show ?thesis
    by (rule marte_lib.GetLocalVariableIndex_correct [OF assms(1) _ assms(3), of x]) blast
qed

definition ex_pv :: "bytes \<Rightarrow> nat \<Rightarrow> pv_rec" where
  "ex_pv name off = \<lparr>pvChid_r = None, pvType_r = DBF_LONG, numberOfElements_r = 1,
     pvName_r = name, at_r = mk_any SignedInteger32Bit, totalSize_r = 4, offset_r = off\<rparr>"

abbreviation ex_pvs :: "pv_rec list" where
  "ex_pvs \<equiv> [ex_pv [65] 0, ex_pv [66] 12]"

theorem lookup_finds_exactly_witness:
  "\<exists>i. GetLocalVariableIndex ref_marte ex_pvs (length ex_pvs) [66] = Some (True, i) \<and> i < length ex_pvs"
proof -
  have "sorted_wrt (\<lambda>a b. StrCompare ref_marte a b \<noteq> 2) (names_of ex_pvs)" "length ex_pvs < 4294967296"
    by (simp_all add: ex_pv_def)
  note lookup_finds_exactly [OF ref.marte_lib_axioms this, of "[66]"]
  then obtain ok i where "GetLocalVariableIndex ref_marte ex_pvs (length ex_pvs) [66] = Some (ok, i)"
      "ok \<longleftrightarrow> [66] \<in> set (names_of ex_pvs)" "ok \<longrightarrow> i < length ex_pvs"
    by blast
  moreover have "[66] \<in> set (names_of ex_pvs)" by (simp add: ex_pv_def)
  ultimately show ?thesis by (intro exI [of _ i]) (simp only: simp_thms)
qed


subsection \<open>Delivering a stream of variables\<close>

text \<open>
  (C3) However the bytes of a sequence of variables are cut into chunks, the loop of
  \<open>ClientService\<close> over the chunks terminates without a fault, delivers exactly these
  variables in their order, and leaves nothing in the payload.
\<close>

theorem stream_independent_of_chunks:
  assumes "marte_lib L" and "stream_inv L dir R" and "\<forall>fr \<in> set frs. frame_for L dir R fr"
    and "concat cs = encode_all frs"
  shows "feed L t R [] cs = Some (Inr (deliver_all L t R frs, []))"
  using marte_lib.feed_all [OF assms(1-3), of "[]" cs t] assms(4) by simp

definition ex_receiver :: receiver where
  "ex_receiver = \<lparr>serverPort_r = 8080, acceptTimeout_r = 0, pvs = ex_pvs, numberOfVariables_r = 2,
     numberOfCpus_r = 1, memory_r = replicate 24 0, memory2_r = replicate 24 0,
     memoryPrec_r = replicate 24 0, pvMapping = replicate 4 INDEX_INIT_ID, threadSetContext = 1,
     changeFlag_r = [0, 0], changeFlag2_r = [0, 0], lastCounter_r = 0, quit_r = 0,
     totalMemorySize_r = 24, eventSem_r = True, numberOfInitThreads_r = 1, threadCnt_r = 1,
     maxNumberOfVariables_r = 2, lastTickCounter_r = [0], msecPeriod_r = 1000,
     currentCpuMask_r = 1, readTimeout_r = 10000, maxArraySize_r = 100, threadIndex_r = 1,
     numberOfReceivedPVs = [0], debug_r = 0, maxNumberOfThreads_r = 1\<rparr>"

definition ex_dir :: "nat \<Rightarrow> bytes" where
  "ex_dir k = (if k = 0 then [66] else [65])"

definition ex_frame :: "nat \<Rightarrow> bytes \<Rightarrow> frame" where
  "ex_frame k v = \<lparr>fr_name = ex_dir k @ [46, 86], fr_index = k, fr_typeId = 4, fr_offset = 0,
     fr_data = v, fr_ts = [1, 2, 3, 4, 5, 6, 7, 8]\<rparr>"

lemma ex_slots: "slots_ok ex_pvs 24"
  by (auto simp: slots_ok_def ex_pv_def less_Suc_eq)

lemma ex_stream_inv: "stream_inv ref_marte ex_dir ex_receiver"
  using ex_slots
  by (simp add: stream_inv_def receiver_wf_def mapping_ok_def ex_receiver_def ex_pv_def
      name_le_cmp [OF ref.marte_lib_axioms] INDEX_NOT_FOUND_ID_def)

lemma ex_frame_for:
  "k < 2 \<Longrightarrow> length v = 4 \<Longrightarrow> frame_for ref_marte ex_dir ex_receiver (ex_frame k v)"
  by (auto simp: frame_for_def frame_ok_def ex_frame_def ex_receiver_def ex_pv_def ex_dir_def
      strip_field_def ref_token_def quote_char_def PV_NAME_MAX_SIZE_REC_def All_less_Suc)

theorem stream_independent_of_chunks_witness:
  "feed ref_marte 0 ex_receiver []
       [take 7 (encode (ex_frame 0 [1, 2, 3, 4])),
        drop 7 (encode (ex_frame 0 [1, 2, 3, 4])) @ encode (ex_frame 1 [5, 6, 7, 8])]
     = Some (Inr (deliver_all ref_marte 0 ex_receiver [ex_frame 0 [1, 2, 3, 4], ex_frame 1 [5, 6, 7, 8]], []))"
proof -
  have "\<forall>fr \<in> set [ex_frame 0 [1, 2, 3, 4], ex_frame 1 [5, 6, 7, 8]].
      frame_for ref_marte ex_dir ex_receiver fr"
    by (simp add: ex_frame_for)
  then show ?thesis
    by (intro stream_independent_of_chunks [OF ref.marte_lib_axioms ex_stream_inv]) simp_all
qed

text \<open>A delivered variable, and what stays of the others.\<close>

definition stamp :: "receiver \<Rightarrow> nat \<Rightarrow> bytes \<Rightarrow> bytes" where
  "stamp R i m = take 8 (drop (offset_r (pvs R ! i) + totalSize_r (pvs R ! i)) m)"

lemma same_outside_stamp:
  assumes "receiver_wf L R" "same_outside R i m m'" "length m' = totalMemorySize_r R"
    and "i < length (pvs R)" "j < length (pvs R)" "i \<noteq> j"
  shows "stamp R j m = stamp R j m'"
proof (rule nth_equalityI)
  have lay: "offset_r (pvs R ! j) + totalSize_r (pvs R ! j) + 8 \<le> totalMemorySize_r R"
      "offset_r (pvs R ! j) + totalSize_r (pvs R ! j) + 8 \<le> offset_r (pvs R ! i)
       \<or> offset_r (pvs R ! i) + totalSize_r (pvs R ! i) + 8 \<le> offset_r (pvs R ! j)"
    using assms by (auto simp: receiver_wf_def slots_ok_def nat_neq_iff)
  show "length (stamp R j m) = length (stamp R j m')"
    using assms(2) by (simp add: stamp_def same_outside_def)
  show "stamp R j m ! k = stamp R j m' ! k" if "k < length (stamp R j m)" for k
    using that lay assms(2,3) by (auto simp: stamp_def same_outside_def)
qed

lemma deliver_effect:
  assumes "marte_lib L" and inv: "stream_inv L dir R" and fr: "frame_for L dir R fr"
    and "distinct (names_of (pvs R))" and i: "i < length (pvs R)"
    and "pvName_r (pvs R ! i) = dir (fr_index fr)"
    and whole: "fr_offset fr = 0" "length (fr_data fr) = totalSize_r (pvs R ! i)"
    and R'_def: "R' = deliver L t R fr"
  shows "slot R i (memory_r R') = fr_data fr" and "stamp R i (memory_r R') = fr_ts fr"
    and "changeFlag_r R' = (if slot R i (memoryPrec_r R) = fr_data fr then changeFlag_r R
                         else (changeFlag_r R)[i := 1])"
    and "same_outside R i (memory_r R') (memory_r R)"
    and "same_outside R i (memoryPrec_r R') (memoryPrec_r R)"
    and "slot R i (memoryPrec_r R') = fr_data fr"
proof -
  let ?pv = "pvs R ! i"
  obtain R1 k mp where res: "resolve_index L R (fr_index fr) (strip_field L (fr_name fr)) = Some (Inr (R1, k))"
      "R1 = R\<lparr>pvMapping := mp\<rparr>"
      "if dir (fr_index fr) \<in> set (names_of (pvs R1))
      then k < length (pvs R1) \<and> pvName_r (pvs R1 ! k) = dir (fr_index fr) else k = INDEX_NOT_FOUND_ID"
    by (rule marte_lib.resolve_frame [OF assms(1) inv fr])
  have wf: "receiver_wf L R" using inv by (simp add: stream_inv_def)
  have "dir (fr_index fr) \<in> set (names_of (pvs R))"
    using i assms(6) by (metis length_map nth_map nth_mem)
  then have "k < length (pvs R)" "names_of (pvs R) ! k = names_of (pvs R) ! i"
    using res(2,3) assms(6) i by auto
  then have "k = i" using assms(4) i nth_eq_iff_index_eq by fastforce
  then have R': "R' = store_frame t R1 i fr"
    using res(1,2) i wf by (simp add: R'_def deliver_def receiver_wf_def)
  have room: "offset_r ?pv + totalSize_r ?pv + 8 \<le> length (memory_r R)" "length (fr_ts fr) = 8"
      "length (memory_r R) = totalMemorySize_r R"
    using wf i fr by (auto simp: receiver_wf_def slots_ok_def frame_for_def frame_ok_def)
  define m1 where "m1 = put_bytes (memory_r R) (offset_r ?pv) (fr_data fr)"
  define m2 where "m2 = put_bytes m1 (offset_r ?pv + totalSize_r ?pv) (fr_ts fr)"
  have len: "length m1 = length (memory_r R)" "length m2 = length (memory_r R)"
    using room whole by (simp_all add: m1_def m2_def)
  have mem: "memory_r R' = m2" and flag: "changeFlag_r R' =
      (if slot R i m2 \<noteq> slot R i (memoryPrec_r R) then (changeFlag_r R)[i := 1] else changeFlag_r R)"
    using R' res(2) whole by (simp_all add: store_frame_def Let_def m1_def m2_def slot_def)
  have "slot R i m2 = slot R i m1"
    using room len by (auto simp: slot_def m2_def nth_put_bytes intro!: nth_equalityI)
  moreover have "slot R i m1 = fr_data fr"
    using room whole by (simp add: slot_def m1_def put_bytes_def)
  moreover have "stamp R i m2 = fr_ts fr"
    using room len by (simp add: m2_def put_bytes_def stamp_def)
  moreover have "same_outside R i m2 (memory_r R)"
  proof -
    have "same_outside R i m1 (memory_r R)" "same_outside R i m2 m1"
      unfolding m1_def m2_def using room whole len(1) [unfolded m1_def]
      by (intro same_outside_put; simp)+
    then show ?thesis using same_outside_trans by blast
  qed
  moreover have "same_outside R i (memoryPrec_r R') (memoryPrec_r R)"
    using R' res(2) wf room whole
    by (auto simp: store_frame_def Let_def slot_def receiver_wf_def intro!: same_outside_put)
  moreover have "slot R i (memoryPrec_r R') = slot R i m2"
  proof -
    have "memoryPrec_r R' = (if slot R i m2 \<noteq> slot R i (memoryPrec_r R)
        then put_bytes (memoryPrec_r R) (offset_r ?pv) (slot R i m2) else memoryPrec_r R)"
      using R' res(2) whole by (simp add: store_frame_def Let_def m1_def m2_def slot_def)
    moreover have "slot R i (put_bytes (memoryPrec_r R) (offset_r ?pv) (slot R i m2)) = slot R i m2"
      using wf room len(2) by (simp add: put_bytes_def receiver_wf_def slot_def)
    ultimately show ?thesis by (cases "slot R i m2 = slot R i (memoryPrec_r R)") simp_all
  qed
  ultimately show "slot R i (memory_r R') = fr_data fr" "stamp R i (memory_r R') = fr_ts fr"
      "changeFlag_r R' = (if slot R i (memoryPrec_r R) = fr_data fr then changeFlag_r R
                         else (changeFlag_r R)[i := 1])"
      "same_outside R i (memory_r R') (memory_r R)"
      "same_outside R i (memoryPrec_r R') (memoryPrec_r R)"
      "slot R i (memoryPrec_r R') = fr_data fr"
    using mem flag by auto
qed

lemma consume_vars_nil: "consume_vars L t R [] = Some (Inr (R, []))"
  by (subst consume_vars.simps) (simp add: ReadVarNameAndIndex_def)

text \<open>
  (C9) The effect of the bytes of a variable sent whole: the loop of \<open>ClientService\<close> consumes
  them, its value and its time stamp are in its place in the memory, its changed flag is raised
  when the value differs from the last one stored, the value is the one the next reception is
  compared with, and the values and flags of all other variables are untouched.
\<close>

theorem delivery_of_a_value:
  assumes "marte_lib L" and inv: "stream_inv L dir R" and fr: "frame_for L dir R fr"
    and "distinct (names_of (pvs R))" and i: "i < length (pvs R)"
    and "pvName_r (pvs R ! i) = dir (fr_index fr)"
    and whole: "fr_offset fr = 0" "length (fr_data fr) = totalSize_r (pvs R ! i)"
  shows "\<exists>R'. consume_vars L t R (encode fr) = Some (Inr (R', []))
    \<and> slot R i (memory_r R') = fr_data fr
    \<and> take 8 (drop (offset_r (pvs R ! i) + totalSize_r (pvs R ! i)) (memory_r R')) = fr_ts fr
    \<and> changeFlag_r R' = (if slot R i (memoryPrec_r R) = fr_data fr then changeFlag_r R
                         else (changeFlag_r R)[i := 1])
    \<and> slot R i (memoryPrec_r R') = fr_data fr
    \<and> (\<forall>j < length (pvs R). j \<noteq> i \<longrightarrow> slot R j (memory_r R') = slot R j (memory_r R)
         \<and> slot R j (memoryPrec_r R') = slot R j (memoryPrec_r R))"
proof -
  note d = deliver_effect [OF assms refl, of t]
  have "consume_vars L t R (encode fr) = Some (Inr (deliver L t R fr, []))"
    using marte_lib.consume_vars_frame [OF assms(1-3), of t "[]"] consume_vars_nil by simp
  moreover have wf: "receiver_wf L R" using inv by (simp add: stream_inv_def)
  then have "length (memory_r R) = totalMemorySize_r R" "length (memoryPrec_r R) = totalMemorySize_r R"
    by (simp_all add: receiver_wf_def)
  ultimately show ?thesis
    using d same_outside_slot [OF wf d(4) _ i] same_outside_slot [OF wf d(5) _ i]
    by (intro exI [of _ "deliver L t R fr"]) (simp add: stamp_def)
qed

theorem delivery_of_a_value_witness:
  "\<exists>R'. consume_vars ref_marte 0 ex_receiver (encode (ex_frame 0 [1, 2, 3, 4])) = Some (Inr (R', []))
    \<and> slot ex_receiver 1 (memory_r R') = [1, 2, 3, 4] \<and> changeFlag_r R' = [0, 1]"
proof -
  have "distinct (names_of (pvs ex_receiver))" "1 < length (pvs ex_receiver)"
      "pvName_r (pvs ex_receiver ! 1) = ex_dir (fr_index (ex_frame 0 [1, 2, 3, 4]))"
      "fr_offset (ex_frame 0 [1, 2, 3, 4]) = 0"
      "length (fr_data (ex_frame 0 [1, 2, 3, 4])) = totalSize_r (pvs ex_receiver ! 1)"
    by (simp_all add: ex_receiver_def ex_pv_def ex_frame_def ex_dir_def)
  note delivery_of_a_value [OF ref.marte_lib_axioms ex_stream_inv ex_frame_for [of 0 "[1, 2, 3, 4]"] this,
      of 0]
  moreover have "slot ex_receiver 1 (memoryPrec_r ex_receiver) \<noteq> [1, 2, 3, 4]"
      "(changeFlag_r ex_receiver)[1 := 1] = [0, 1]" "fr_data (ex_frame 0 [1, 2, 3, 4]) = [1, 2, 3, 4]"
    by (simp_all add: slot_def ex_receiver_def ex_pv_def ex_frame_def numeral_eq_Suc)
  ultimately show ?thesis by auto
qed

subsection \<open>Arbitrary bytes\<close>

text \<open>
  (C7) Whatever bytes arrive, the loop of \<open>ClientService\<close> over a payload returns. Unless it
  hits an out-of-bounds copy, it leaves a suffix of the payload and keeps the receiver well
  formed.
\<close>

theorem parser_total_on_any_bytes:
  assumes "marte_lib L" and "receiver_inv L R" and "length p < 4294967296"
  shows "consume_vars L t R p = Some (Inl Out_Of_Bounds)
    \<or> (\<exists>R' p'. consume_vars L t R p = Some (Inr (R', p')) \<and> receiver_inv L R' \<and> suffix_of p' p)"
proof -
  obtain r where r: "consume_vars L t R p = Some r" "case r of Inl e \<Rightarrow> e = Out_Of_Bounds
      | Inr (R', p') \<Rightarrow> receiver_inv L R' \<and> suffix_of p' p"
    using marte_lib.consume_vars_returns [OF assms, of t] by blast
  then show ?thesis by (cases r) auto
qed

lemma ex_receiver_inv: "receiver_inv ref_marte ex_receiver"
  using ex_stream_inv mapping_in_range_dir by (auto simp: receiver_inv_def stream_inv_def)

theorem parser_total_on_any_bytes_witness:
  "consume_vars ref_marte 0 ex_receiver [34, 34, 58, 32, 0] = Some (Inl Out_Of_Bounds)
    \<or> (\<exists>R' p'. consume_vars ref_marte 0 ex_receiver [34, 34, 58, 32, 0] = Some (Inr (R', p'))
         \<and> receiver_inv ref_marte R' \<and> suffix_of p' [34, 34, 58, 32, 0])"
  by (rule parser_total_on_any_bytes [OF ref.marte_lib_axioms ex_receiver_inv]) simp

lemma stored_effect:
  assumes "marte_lib L" and inv: "receiver_inv L R" and h: "header_within R p h"
    and i: "index_l li < length (pvs R)" and size: "processedSize_l li = processedSize_h h + receivedSize_h h + 24"
    and len: "processedSize_h h + receivedSize_h h + 24 \<le> length p"
    and fit: "controlOk_l li \<longrightarrow>
      receivedOffset_h h + receivedSize_h h \<le> totalSize_r (pvs R ! index_l li)"
    and conv: "\<not> converts_beyond p h li"
  shows "\<exists>R2. ReadVarValueAndSkip L t R p h li = Inr (R2, drop (processedSize_l li) p)
    \<and> receiver_inv L R2
    \<and> (\<forall>j < length (pvs R). j \<noteq> index_l li \<longrightarrow>
         slot R j (memory_r R2) = slot R j (memory_r R) \<and> changeFlag_r R2 ! j = changeFlag_r R ! j)"
proof -
  obtain mem where mem: "write_value L R p h li = Inr mem" "same_outside R (index_l li) mem (memory_r R)"
    by (rule marte_lib.write_value_safe [OF assms(1) inv h i len fit conv])
  have wf: "receiver_wf L R" "length (memory_r R) = totalMemorySize_r R" "numberOfVariables_r R = length (pvs R)"
    using inv by (auto simp: receiver_inv_def receiver_wf_def)
  have lm: "length mem = totalMemorySize_r R" using mem(2) wf(2) by (simp add: same_outside_def)
  have "ReadVarValueAndSkip L t R p h li = Inr (note_change L t R (index_l li) mem, drop (processedSize_l li) p)"
    using i wf(3) size len mem(1)
    by (simp add: ReadVarValueAndSkip_def Let_def marte_lib.consume_eq [OF assms(1)])
  moreover have "receiver_inv L (note_change L t R (index_l li) mem)"
    by (rule marte_lib.note_change_inv [OF assms(1) inv i lm])
  moreover have "memory_r (note_change L t R (index_l li) mem) = mem"
      "changeFlag_r (note_change L t R (index_l li) mem) ! j = changeFlag_r R ! j" if "j \<noteq> index_l li" for j
    using that by (simp_all add: note_change_def Let_def)
  ultimately show ?thesis
    using same_outside_slot [OF wf(1) mem(2) wf(2) i] by (auto simp: note_change_def Let_def)
qed

text \<open>
  (C6) A variable decoded from any bytes whose size and offset do not wrap around in 32 bits
  is stored inside its own slot: the values and the changed flags of all other variables stay,
  the bytes removed are exactly those of the variable, and the receiver stays well formed. The
  one exception is a variable of the table that does not fit and is converted, from a type with
  more bytes than there are left in the payload: then bytes behind the payload are read.
\<close>

theorem stored_variable_is_confined:
  assumes "marte_lib L" and inv: "receiver_inv L R" and len: "length p < 4294967296"
    and rd: "ReadVarNameAndIndex L R p = (p1, Some h)"
    and loc: "GetLocalIndex L R p1 h = Some (Inr (R1, li))" and "ok_l li"
    and wrap: "receivedSize_h h + receivedOffset_h h < 4294967296"
  shows "if index_l li < length (pvs R) \<and> converts_beyond p1 h li
    then ReadVarValueAndSkip L t R1 p1 h li = Inl Out_Of_Bounds
    else \<exists>R2. ReadVarValueAndSkip L t R1 p1 h li = Inr (R2, drop (processedSize_l li) p1)
      \<and> receiver_inv L R2
      \<and> (\<forall>j < length (pvs R). j \<noteq> index_l li \<longrightarrow>
           slot R j (memory_r R2) = slot R j (memory_r R) \<and> changeFlag_r R2 ! j = changeFlag_r R ! j)"
proof -
  have h: "header_within R p1 h"
    using marte_lib.ReadVarNameAndIndex_within(2) [OF assms(1) rd len] by simp
  obtain S i c where g: "GetLocalIndex L R p1 h = Some (Inr (S,
      \<lparr>index_l = i, processedSize_l = processedSize_h h + receivedSize_h h + 24, controlOk_l = c,
       ok_l = (processedSize_h h + receivedSize_h h + 24 \<le> length p1)\<rparr>))"
    and S: "\<exists>mp. S = R\<lparr>pvMapping := mp\<rparr>" "receiver_inv L S"
    and i: "i < length (pvs R) \<or> i = INDEX_NOT_FOUND_ID"
    and c: "i < length (pvs R) \<longrightarrow> c = (totalSize_r (pvs R ! i) > 0 \<and>
      u32 (receivedSize_h h + receivedOffset_h h) \<le> totalSize_r (pvs R ! i))"
    by (rule marte_lib.GetLocalIndex_total [OF assms(1) inv h])
  have li: "li = \<lparr>index_l = i, processedSize_l = processedSize_h h + receivedSize_h h + 24,
      controlOk_l = c, ok_l = (processedSize_h h + receivedSize_h h + 24 \<le> length p1)\<rparr>" "R1 = S"
    using g loc by simp_all
  have fits: "processedSize_h h + receivedSize_h h + 24 \<le> length p1" using assms(6) li by simp
  have same: "pvs R1 = pvs R" "memory_r R1 = memory_r R" "changeFlag_r R1 = changeFlag_r R"
      "numberOfVariables_r R1 = numberOfVariables_r R" "maxArraySize_r R1 = maxArraySize_r R"
    using S(1) li(2) by auto
  have h1: "header_within R1 p1 h" using h same by (simp add: header_within_def)
  have nv: "numberOfVariables_r R1 = length (pvs R)"
    using inv same by (simp add: receiver_inv_def receiver_wf_def)
  show ?thesis
  proof (cases "i < length (pvs R)")
    case False
    then show ?thesis
      using nv same li fits S(2)
      by (simp add: ReadVarValueAndSkip_def Let_def marte_lib.consume_eq [OF assms(1)])
  next
    case True
    have c': "controlOk_l li \<longrightarrow> receivedOffset_h h + receivedSize_h h \<le> totalSize_r (pvs R1 ! index_l li)"
      using c True wrap li same by (simp add: u32_id add.commute)
    have k: "index_l li < length (pvs R1)" "processedSize_l li = processedSize_h h + receivedSize_h h + 24"
        "receiver_inv L R1" "pvs R = pvs R1" "numberOfVariables_r R1 = length (pvs R1)"
      using True li same S(2) nv by simp_all
    have sl: "slot R1 = slot R" by (intro ext) (simp add: slot_def same)
    show ?thesis
    proof (cases "converts_beyond p1 h li")
      case beyond: True
      have "ReadVarValueAndSkip L t R1 p1 h li = Inl Out_Of_Bounds"
        using marte_lib.write_value_beyond [OF assms(1) beyond, of R1] k(1,5)
        by (simp add: ReadVarValueAndSkip_def)
      then show ?thesis using beyond k(1,4) by simp
    next
      case False
      then show ?thesis
        using stored_effect [OF assms(1) k(3) h1 k(1,2) fits c' False, of t] unfolding sl k(4) [symmetric] same(2,3)
        by simp
    qed
  qed
qed

text \<open>The example receiver once it has seen both indexes of the sender.\<close>

definition ex_mapped :: receiver where
  "ex_mapped = ex_receiver\<lparr>pvMapping := [1, 0, INDEX_INIT_ID, INDEX_INIT_ID]\<rparr>"

lemma ex_mapped_inv: "receiver_inv ref_marte ex_mapped"
proof -
  have "receiver_wf ref_marte ex_mapped"
    using ex_stream_inv by (simp add: stream_inv_def receiver_wf_def ex_mapped_def ex_receiver_def)
  moreover have "mapping_in_range ex_mapped"
    by (auto simp: mapping_in_range_def ex_mapped_def ex_receiver_def less_Suc_eq)
  ultimately show ?thesis by (simp add: receiver_inv_def)
qed

abbreviation ex_payload :: bytes where
  "ex_payload \<equiv> encode (ex_frame 0 [1, 2, 3, 4])"

lemma ex_read: "ReadVarNameAndIndex ref_marte ex_mapped ex_payload
    = (ex_payload, Some \<lparr>varName_h = [66], receivedIndex_h = 0, receivedTypeId_h = 4,
        receivedSize_h = 4, receivedOffset_h = 0, processedSize_h = 6, dataPtr_h = 16\<rparr>)"
proof -
  let ?fr = "ex_frame 0 [1, 2, 3, 4]"
  have "frame_ok (numberOfVariables_r ex_mapped) (maxArraySize_r ex_mapped) ?fr"
    using ex_frame_for [of 0 "[1, 2, 3, 4]"] by (simp add: frame_for_def ex_mapped_def)
  moreover have "ex_payload @ [] = frame_header ?fr @ (fr_data ?fr @ fr_ts ?fr @ [10, 13])"
    by (simp add: encode_def)
  moreover have "8 * maxArraySize_r ex_mapped < 4294967296" "numberOfVariables_r ex_mapped < 4294967296"
      "length (fr_name ?fr) + 17 \<le> length ex_payload"
    by (simp_all add: ex_mapped_def ex_receiver_def ex_frame_def encode_def)
  ultimately have "ReadVarNameAndIndex ref_marte ex_mapped ex_payload
      = (ex_payload, Some ((header_of ref_marte ?fr)\<lparr>receivedOffset_h := fr_offset ?fr\<rparr>))"
    using ref.ReadVarNameAndIndex_prefix [of ex_payload "[]" ?fr] by (fastforce split: option.splits)
  then show ?thesis
    by (simp add: header_of_def ex_frame_def ex_dir_def strip_field_def ref_token_def)
qed

lemma ex_local: "GetLocalIndex ref_marte ex_mapped ex_payload
    \<lparr>varName_h = [66], receivedIndex_h = 0, receivedTypeId_h = 4,
     receivedSize_h = 4, receivedOffset_h = 0, processedSize_h = 6, dataPtr_h = 16\<rparr>
    = Some (Inr (ex_mapped, \<lparr>index_l = 1, processedSize_l = 34, controlOk_l = True, ok_l = True\<rparr>))"
  by (simp add: GetLocalIndex_def resolve_index_def ex_mapped_def ex_receiver_def ex_pv_def
      INDEX_INIT_ID_def Let_def u32_def ex_frame_def ex_dir_def)

theorem stored_variable_is_confined_witness:
  "\<exists>R2. ReadVarValueAndSkip ref_marte 0 ex_mapped ex_payload
      \<lparr>varName_h = [66], receivedIndex_h = 0, receivedTypeId_h = 4,
       receivedSize_h = 4, receivedOffset_h = 0, processedSize_h = 6, dataPtr_h = 16\<rparr>
      \<lparr>index_l = 1, processedSize_l = 34, controlOk_l = True, ok_l = True\<rparr>
      = Inr (R2, drop 34 ex_payload)
    \<and> slot ex_mapped 0 (memory_r R2) = slot ex_mapped 0 (memory_r ex_mapped)"
proof -
  have "length ex_payload < 4294967296" "0 < length (pvs ex_mapped)"
    by (simp_all add: ex_frame_def ex_dir_def ex_mapped_def ex_receiver_def)
  moreover have "\<not> converts_beyond ex_payload
      \<lparr>varName_h = [66], receivedIndex_h = 0, receivedTypeId_h = 4,
       receivedSize_h = 4, receivedOffset_h = 0, processedSize_h = 6, dataPtr_h = 16\<rparr>
      \<lparr>index_l = 1, processedSize_l = 34, controlOk_l = True, ok_l = True\<rparr>"
    by (simp add: converts_beyond_def)
  ultimately show ?thesis
    using stored_variable_is_confined [OF ref.marte_lib_axioms ex_mapped_inv _ ex_read ex_local, of 0] by fastforce
qed

text \<open>
  (C33) The size check of \<open>GetLocalIndex\<close> adds the received size and offset in 32 bits. When
  the sum wraps around to at most the size of the variable, the variable is accepted and
  the value is copied to an address outside the memory of the receiver.
\<close>

theorem wrapped_offset_writes_outside:
  assumes "resolve_index L R (receivedIndex_h h) (varName_h h) = Some (Inr (R1, i))"
    and "i < numberOfVariables_r R1" and "0 < totalSize_r (pvs R1 ! i)"
    and "receivedSize_h h + receivedOffset_h h = 4294967296 + k"
    and "k \<le> totalSize_r (pvs R1 ! i)" and "totalSize_r (pvs R1 ! i) < 4294967296"
    and "length (memory_r R1) < offset_r (pvs R1 ! i) + receivedOffset_h h"
  shows "\<exists>li. GetLocalIndex L R p h = Some (Inr (R1, li)) \<and> controlOk_l li
    \<and> (ok_l li \<longrightarrow> ReadVarValueAndSkip L t R1 p h li = Inl Out_Of_Bounds)"
proof -
  have "u32 (receivedSize_h h + receivedOffset_h h) = k"
    using assms(4-6) by (simp add: u32_def)
  then show ?thesis
    using assms
    by (simp add: GetLocalIndex_def Let_def ReadVarValueAndSkip_def write_value_def
        mem_copy_checked_def)
qed

abbreviation ex_wrapping :: wire_header where
  "ex_wrapping \<equiv> \<lparr>varName_h = [66], receivedIndex_h = 0, receivedTypeId_h = 4,
     receivedSize_h = 4, receivedOffset_h = 4294967292, processedSize_h = 6, dataPtr_h = 16\<rparr>"

theorem wrapped_offset_writes_outside_witness:
  "\<exists>li. GetLocalIndex ref_marte ex_mapped ex_payload ex_wrapping = Some (Inr (ex_mapped, li))
    \<and> controlOk_l li
    \<and> (ok_l li \<longrightarrow> ReadVarValueAndSkip ref_marte 0 ex_mapped ex_payload ex_wrapping li = Inl Out_Of_Bounds)"
  by (rule wrapped_offset_writes_outside [where i = 1 and k = 0])
    (simp_all add: resolve_index_def ex_mapped_def ex_receiver_def ex_pv_def INDEX_INIT_ID_def)

end
