(* ===== verification/SubscriberTheorems.thy ===== *)
theory SubscriberTheorems
  imports ChangeSource ReceiverTheorems
begin

section \<open>What the subscriber guarantees\<close>

text \<open>
  The properties of \<open>EpicsParserAndSubscriber\<close>: the descriptors follow the file, the threads
  share the variables out and place them in disjoint parts of the memory, \<open>Synchronise\<close> hands
  out consistent values and reports each change once.
\<close>

subsection \<open>Describing the variables of the file\<close>

context xml_source
begin

lemma describe_loop_started:
  assumes "xml_names X f = Some vs" and "maxN < 4294967296" and "counter < max 1 maxN"
    and "length ds = counter + length (take (max 1 maxN - counter) vs)"
    and "\<forall>v \<in> set (take (max 1 maxN - counter) vs). length v < PV_NAME_MAX_SIZE"
  shows "\<exists>ds'. describe_loop X first maxN f True counter ds = Some (Inr ds') \<and> length ds' = length ds
    \<and> (\<forall>k < length ds. if k < counter then ds' ! k = ds ! k
         else pvName_d (ds' ! k) = vs ! (k - counter) \<and> index_d (ds' ! k) = k)"
  using assms(1,3-)
proof (induction arbitrary: counter ds rule: xml_names_induct)
  case (Stop f f1 v)
  then show ?case by (simp add: describe_loop.simps [of X first maxN f])
next
  case (Name f f1 v vs)
  let ?ds = "ds[counter := (ds ! counter)\<lparr>index_d := counter, pvName_d := v\<rparr>]"
  obtain k where k: "max 1 maxN - counter = Suc k" "k = max 1 maxN - Suc counter"
    using Name.prems(1) by (metis Suc_diff_Suc)
  have c: "counter < length ds" "length v < PV_NAME_MAX_SIZE"
    using Name.prems(2,3) k by auto
  have u: "u32 (counter + 1) = Suc counter"
    using Name.prems(1) assms(2) by (auto intro: u32_id)
  have step: "describe_loop X first maxN f True counter ds =
      (if Suc counter \<ge> maxN then Some (Inr ?ds)
       else describe_loop X first maxN f1 True (Suc counter) ?ds)"
    using Name.hyps c u by (simp add: describe_loop.simps [of X first maxN f])
  have here: "pvName_d (?ds ! j) = (v # vs) ! (j - counter) \<and> index_d (?ds ! j) = j"
    if "j = counter" for j
    using that c by simp
  show ?case
  proof (cases "Suc counter \<ge> maxN")
    case True
    then have "length ds = Suc counter" using Name.prems(1,2) k by auto
    then show ?thesis using True step here by (auto simp: less_Suc_eq)
  next
    case False
    have a: "Suc counter < max 1 maxN" using False by simp
    have b: "length ?ds = Suc counter + length (take (max 1 maxN - Suc counter) vs)"
      using Name.prems(2) k by simp
    have c: "\<forall>v \<in> set (take (max 1 maxN - Suc counter) vs). length v < PV_NAME_MAX_SIZE"
      using Name.prems(3) k by simp
    obtain ds' where ds': "describe_loop X first maxN f1 True (Suc counter) ?ds = Some (Inr ds')"
        "length ds' = length ds"
        "\<And>j. j < length ds \<Longrightarrow> if j < Suc counter then ds' ! j = ?ds ! j
         else pvName_d (ds' ! j) = vs ! (j - Suc counter) \<and> index_d (ds' ! j) = j"
      using Name.IH [OF a b c] unfolding length_list_update by blast
    have "if j < counter then ds' ! j = ds ! j
         else pvName_d (ds' ! j) = (v # vs) ! (j - counter) \<and> index_d (ds' ! j) = j"
      if "j < length ds" for j
      using ds'(3) [OF that] here [of j] by (auto simp: nth_Cons' split: if_splits)
    then show ?thesis using False step ds'(1,2) by auto
  qed
qed

lemma describe_loop_start:
  assumes "xml_names X f = Some vs"
  shows "if first \<in> set vs
    then \<exists>g. xml_names X g = Some (dropWhile (\<lambda>v. v \<noteq> first) vs)
      \<and> describe_loop X first maxN f False 0 ds = describe_loop X first maxN g True 0 ds
    else describe_loop X first maxN f False 0 ds = Some (Inr ds)"
  using assms
proof (induction rule: xml_names_induct)
  case (Stop f f1 v)
  then show ?case by (simp add: describe_loop.simps [of X first maxN f])
next
  case (Name f f1 v vs)
  show ?case
  proof (cases "v = first")
    case True
    have "xml_names X f = Some (v # vs)" using Name by (simp add: xml_names.simps [of X f])
    moreover have "describe_loop X first maxN f False 0 ds = describe_loop X first maxN f True 0 ds"
      using Name True by (simp add: describe_loop.simps [of X first maxN f])
    ultimately show ?thesis using True by auto
  next
    case False
    with Name show ?thesis by (auto simp: describe_loop.simps [of X first maxN f])
  qed
qed

lemma describe_loop_spec:
  assumes vs: "xml_names X f = Some vs" and "maxN < 4294967296"
    and names: "\<forall>v \<in> set (selected first maxN vs). length v < PV_NAME_MAX_SIZE"
  shows "\<exists>ds. describe_loop X first maxN f False 0 (replicate (length (selected first maxN vs)) junk)
      = Some (Inr ds) \<and> map pvName_d ds = selected first maxN vs
    \<and> (\<forall>k < length ds. index_d (ds ! k) = k)"
proof (cases "first \<in> set vs")
  case False
  then have "selected first maxN vs = []" by (auto simp: selected_def)
  then show ?thesis using describe_loop_start [OF vs, of first maxN "[]"] False by simp
next
  case True
  let ?vs = "dropWhile (\<lambda>v. v \<noteq> first) vs"
  let ?ds = "replicate (length (selected first maxN vs)) junk"
  obtain g where g: "xml_names X g = Some ?vs"
      "describe_loop X first maxN f False 0 ?ds = describe_loop X first maxN g True 0 ?ds"
    using describe_loop_start [OF vs, of first maxN ?ds] True by auto
  have "\<exists>ds'. describe_loop X first maxN g True 0 ?ds = Some (Inr ds') \<and> length ds' = length ?ds
    \<and> (\<forall>k < length ?ds. if k < 0 then ds' ! k = ?ds ! k
         else pvName_d (ds' ! k) = ?vs ! (k - 0) \<and> index_d (ds' ! k) = k)"
    using assms(2) names by (intro describe_loop_started [OF g(1)]) (simp_all add: selected_def)
  then obtain ds' where "describe_loop X first maxN g True 0 ?ds = Some (Inr ds')"
      "length ds' = length (selected first maxN vs)"
      "\<forall>k < length ds'. pvName_d (ds' ! k) = ?vs ! k \<and> index_d (ds' ! k) = k"
    by auto
  then show ?thesis
    using g(2) by (auto intro!: nth_equalityI simp: selected_def)
qed

end

subsection \<open>Parsing\<close>

text \<open>
  (C23) \<open>ParseAndSubscribe\<close> returns; both passes over the file agree, and the descriptors are the
  selected names in the order of the file, each with its position as index, with all changed
  flags cleared and the variables shared out to the threads.
\<close>

theorem descriptors_follow_the_file:
  fixes X :: "'f xml_file" and remaining :: "'f \<Rightarrow> nat"
  assumes "xml_source X remaining" and "xml_names X f = Some vs"
    and "maxNumberOfVariables_e S < 4294967296" and "0 < numberOfPoolThreads_e S"
    and "\<forall>v \<in> set (selected (firstVariableName_e S) (maxNumberOfVariables_e S) vs).
      length v < PV_NAME_MAX_SIZE"
  shows "\<exists>S'. ParseAndSubscribe X (Some f) junk started S = Some (Inr (started, S'))
    \<and> map pvName_d (GetPvDescriptors S')
        = selected (firstVariableName_e S) (maxNumberOfVariables_e S) vs
    \<and> (\<forall>k < GetNumberOfVariables_e S'. index_d (GetPvDescriptors S' ! k) = k)
    \<and> GetNumberOfVariables_e S' = length (GetPvDescriptors S')
    \<and> changedFlagMem_e S' = replicate (GetNumberOfVariables_e S') 0
    \<and> nVarsPerChunk_e S' = GetNumberOfVariables_e S' div numberOfPoolThreads_e S'"
proof -
  let ?first = "firstVariableName_e S" and ?maxN = "maxNumberOfVariables_e S"
  have "count_loop X ?first ?maxN f False 0 = Some (length (selected ?first ?maxN vs))"
    by (rule xml_source.count_loop_selected [OF assms(1-3)])
  moreover obtain ds where ds: "describe_loop X ?first ?maxN f False 0
      (replicate (length (selected ?first ?maxN vs)) junk) = Some (Inr ds)"
      "map pvName_d ds = selected ?first ?maxN vs" "\<forall>k < length ds. index_d (ds ! k) = k"
    using xml_source.describe_loop_spec [OF assms(1-3,5), of junk] by blast
  moreover have "length (selected ?first ?maxN vs) = length ds" using ds(2) by (metis length_map)
  ultimately show ?thesis
    using assms(4)
    by (simp add: ParseAndSubscribe_def vars_per_thread_def GetPvDescriptors_def
        GetNumberOfVariables_e_def)
qed

text \<open>An example: four scalar variables in the file, two threads.\<close>

definition ex_desc :: pv_desc where
  "ex_desc = \<lparr>pvChid_d = None, pvEvid_d = False, pvType_d = DBF_LONG, memory_d = (0, 0),
     numberOfElements_d = 0, memorySize_d = 0, pvName_d = [], index_d = 0, timeStamp_d = (0, 0),
     offset_d = 0, td_d = VoidType, typeId_d = 0\<rparr>"

definition ex_config :: subscriber where
  "ex_config = EpicsParserAndSubscriber\<lparr>firstVariableName_e := [65], numberOfPoolThreads_e := 2\<rparr>"

abbreviation ex_names :: "bytes list" where
  "ex_names \<equiv> [[65], [66], [67], [68]]"

definition ex_file :: bytes where
  "ex_file = concat (map xml_element ([72] # ex_names))"

lemma ex_file_names: "xml_names ref_xml ex_file = Some ([72] # ex_names)"
  unfolding ex_file_def by (rule xml_names_elements) simp

theorem descriptors_follow_the_file_witness:
  "\<exists>S'. ParseAndSubscribe ref_xml (Some ex_file) ex_desc True ex_config = Some (Inr (True, S'))
    \<and> map pvName_d (GetPvDescriptors S') = ex_names"
proof -
  have "maxNumberOfVariables_e ex_config < 4294967296" "0 < numberOfPoolThreads_e ex_config"
      "selected (firstVariableName_e ex_config) (maxNumberOfVariables_e ex_config) ([72] # ex_names)
        = ex_names"
    by (simp_all add: ex_config_def EpicsParserAndSubscriber_def selected_def)
  then show ?thesis
    using descriptors_follow_the_file [OF ref_xml.xml_source_axioms ex_file_names, where S = ex_config
        and junk = ex_desc and started = True]
    by (auto simp: PV_NAME_MAX_SIZE_def)
qed

subsection \<open>Sharing the variables out\<close>

text \<open>
  (C32) Every variable is served by exactly one thread when a share together with the
  remainder of the division is at least the number of threads; below that, the last two
  threads both serve the last variable.
\<close>

theorem threads_share_variables:
  assumes "n < 4294967296" and "2 \<le> T" and "T < 4294967296" and "0 < n"
  shows "if T \<le> n div T + n mod T then \<forall>i < n. \<exists>!t. t < T \<and> owns n T t i
    else owns n T (T - 2) (n - 1) \<and> owns n T (T - 1) (n - 1)"
proof (cases "T \<le> n div T + n mod T")
  case True
  have "\<exists>!t. t < T \<and> owns n T t i" if i: "i < n" for i
  proof -
    obtain t where "t < T" "owns n T t i" using owns_cover [of n T i] assms i by auto
    then show ?thesis using owns_unique [OF assms(1,3) True] by blast
  qed
  with True show ?thesis by simp
next
  case False
  then show ?thesis using owns_shared [OF assms(1,3) _ assms(2,4)] by simp
qed

theorem threads_share_variables_witness:
  "(\<exists>!t. t < 3 \<and> owns 10 3 t 9) \<and> owns 4 3 1 3 \<and> owns 4 3 2 3"
proof
  show "\<exists>!t. t < 3 \<and> owns 10 3 t 9" using threads_share_variables [of 10 3] by simp
  show "owns 4 3 1 3 \<and> owns 4 3 2 3" using threads_share_variables [of 4 3] by simp
qed

subsection \<open>The start-up of the threads\<close>

lemma placed_none: "parsed C S \<Longrightarrow> placed C S {} S"
  by (simp add: parsed_def placed_def map_replicate_const)

text \<open>The start-up stage of \<open>Execute\<close> is the start-up of the thread with the next number.\<close>

lemma Execute_startup:
  assumes "ca_context C (threatCnt_e S)"
  shows "Execute L C StartupStage ctx S =
    (case init_thread L C (threatCnt_e S)
            (S\<lparr>threatCnt_e := u32 (threatCnt_e S + 1), contexts_e := contexts_e S + 1\<rparr>) of
       Inl e \<Rightarrow> Some (Inl e) | Inr S1 \<Rightarrow> Some (Inr (False, S1)))"
proof -
  define S1 where "S1 = S\<lparr>threatCnt_e := u32 (threatCnt_e S + 1), contexts_e := contexts_e S + 1\<rparr>"
  obtain b e where be: "chunk_bounds (numberOfVariables_e S1) (numberOfPoolThreads_e S1)
      (nVarsPerChunk_e S1) (threatCnt_e S) = (b, e)"
    by (cases "chunk_bounds (numberOfVariables_e S1) (numberOfPoolThreads_e S1)
      (nVarsPerChunk_e S1) (threatCnt_e S)")
  have "S\<lparr>threatCnt_e := u32 (threatCnt_e S + 1),
      contexts_e := contexts_e (S\<lparr>threatCnt_e := u32 (threatCnt_e S + 1)\<rparr>) + 1\<rparr> = S1"
    by (simp add: S1_def)
  then show ?thesis
    unfolding S1_def [symmetric] init_thread_def Execute_def take_id_def stage.simps split_conv Let_def
    by (simp only: assms be if_True split_conv)
qed

text \<open>
  (C4) Whatever the order in which the threads run, when all have run without overlapping
  ranges the initialisation is done, no step faults, and the layout is the one the clients
  rely on: every variable with a value has its value and time stamp in its thread's block,
  its offset addresses them in the joined memory, and the places of two variables are
  disjoint and within the announced size.
\<close>

theorem startup_lays_out_memory:
  assumes "marte_lib L" and "parsed C S" and "distinct ts"
    and "set ts = {..<numberOfPoolThreads_e S}"
  shows "\<exists>S'. init_threads L C ts S = Inr S' \<and> layout_ok S' \<and> InitialisationDone S'
    \<and> numberOfVariables_e S' = numberOfVariables_e S
    \<and> GetTotalMemorySize S' = (\<Sum>t\<leftarrow>[0..<numberOfPoolThreads_e S]. size_of_thread C S t)"
proof -
  have "0 < numberOfPoolThreads_e S" using assms(2) by (simp add: parsed_def)
  then have "0 \<in> set ts" unfolding assms(4) by simp
  then have ne: "ts \<noteq> []" by (cases ts) simp_all
  obtain S' where S': "init_threads L C ts S = Inr S'" "layout_ok S'" "InitialisationDone S'"
      "numberOfVariables_e S' = numberOfVariables_e S"
      "memorySize_e S' = map (size_of_thread C S) [0..<numberOfPoolThreads_e S]"
    using marte_lib.init_threads_ok [OF assms(1,2) placed_none [OF assms(2)] assms(3) ne] assms(4)
    by (metis Int_empty_left Un_empty_left)
  moreover have "length (memorySize_e S') = numberOfPoolThreads_e S'"
    using S'(2) by (simp add: layout_ok_def)
  ultimately show ?thesis by (simp add: GetTotalMemorySize_def)
qed

definition ex_ca :: ca_lib where
  "ex_ca = \<lparr>ca_chan = (\<lambda>_. \<lparr>ca_state = Cs_conn, ca_element_count = 1, ca_field_type = DBF_LONG\<rparr>),
     ca_get = (\<lambda>_. Some [9, 9, 9, 9]), ca_subscribed = (\<lambda>_. True), ca_context = (\<lambda>_. True)\<rparr>"

definition ex_parsed :: subscriber where
  "ex_parsed = ex_config\<lparr>pvAllocated_e := True, numberOfVariables_e := 4,
     pvDescriptor_e := map (\<lambda>i. ex_desc\<lparr>index_d := i, pvName_d := [65 + of_nat i]\<rparr>) [0..<4],
     changedFlagMem_e := replicate 4 0, nVarsPerChunk_e := 2, memory_e := [[], []],
     memorySize_e := [0, 0]\<rparr>"

lemma ex_measure: "measure_pv ex_ca 20000 (ex_desc\<lparr>index_d := i, pvName_d := x\<rparr>) =
    (ex_desc\<lparr>index_d := i, pvName_d := x,
       pvChid_d := Some \<lparr>ca_state = Cs_conn, ca_element_count = 1, ca_field_type = DBF_LONG\<rparr>,
       pvType_d := DBF_LONG, numberOfElements_d := 1, memorySize_d := 4,
       td_d := SignedInteger32Bit, typeId_d := 4\<rparr>, 12)"
  by (simp add: measure_pv_def ex_ca_def ex_desc_def cainfo_def Let_def value_bytes_def u32_def
      TS_SIZE_def)

lemma ex_ca_get: "ca_get ex_ca x = Some [9, 9, 9, 9]"
  by (simp add: ex_ca_def)

lemma ex_sizes: "t < 2 \<Longrightarrow> size_of_thread ex_ca ex_parsed t = 24"
  by (auto simp: less_2_cases_iff size_of_thread_def range_of_def block_size_def ex_parsed_def
      ex_config_def EpicsParserAndSubscriber_def MAX_ARR_LEN_def ex_measure upt_rec)

lemma ex_parsed_fields:
  "numberOfVariables_e ex_parsed = 4" "numberOfPoolThreads_e ex_parsed = 2"
  "nVarsPerChunk_e ex_parsed = 2" "initialisationDone_e ex_parsed = 0"
  "maxArraySize_e ex_parsed = 20000" "memorySize_e ex_parsed = replicate 2 0"
  "length (memory_e ex_parsed) = 2" "changedFlagMem_e ex_parsed = replicate 4 0"
  "pvDescriptor_e ex_parsed = map (\<lambda>i. ex_desc\<lparr>index_d := i, pvName_d := [65 + of_nat i]\<rparr>) [0..<4]"
  by (simp_all add: ex_parsed_def ex_config_def EpicsParserAndSubscriber_def MAX_ARR_LEN_def
      numeral_2_eq_2)

lemma ex_parsed_ok: "parsed ex_ca ex_parsed"
proof -
  have "ca_complete ex_ca 20000 (pvDescriptor_e ex_parsed)"
    by (auto simp: ca_complete_def ex_parsed_fields ex_measure ex_ca_get value_bytes_def u32_def)
  moreover have "(\<Sum>t\<leftarrow>[0..<2]. size_of_thread ex_ca ex_parsed t) = 48"
    by (simp add: upt_rec ex_sizes)
  moreover have "\<forall>i < 4. index_d (pvDescriptor_e ex_parsed ! i) = i"
    by (simp add: ex_parsed_fields)
  ultimately show ?thesis
    unfolding parsed_def ex_parsed_fields(1-8) by (simp add: ex_parsed_fields(9))
qed

theorem startup_lays_out_memory_witness:
  "\<exists>S'. init_threads ref_marte ex_ca [1, 0] ex_parsed = Inr S' \<and> layout_ok S' \<and> InitialisationDone S'
    \<and> GetTotalMemorySize S' = 48"
proof -
  have "set [1, 0 :: nat] = {..<numberOfPoolThreads_e ex_parsed}"
    by (auto simp: ex_parsed_def ex_config_def)
  from startup_lays_out_memory [OF ref.marte_lib_axioms ex_parsed_ok _ this]
  obtain S' where "init_threads ref_marte ex_ca [1, 0] ex_parsed = Inr S'" "layout_ok S'"
      "InitialisationDone S'" "GetTotalMemorySize S' =
        (\<Sum>t\<leftarrow>[0..<numberOfPoolThreads_e ex_parsed]. size_of_thread ex_ca ex_parsed t)"
    by auto
  moreover have "numberOfPoolThreads_e ex_parsed = 2" by (simp add: ex_parsed_def ex_config_def)
  ultimately show ?thesis by (simp add: upt_rec ex_sizes)
qed

text \<open>
  (C35) With fewer variables than threads a share is empty, and the last thread to finish its
  subscriptions divides by zero when it maps the offsets.
\<close>

theorem few_variables_divide_by_zero:
  assumes "0 < numberOfVariables_e S" and "numberOfVariables_e S < numberOfPoolThreads_e S"
    and "numberOfPoolThreads_e S < 4294967296"
    and "nVarsPerChunk_e S = numberOfVariables_e S div numberOfPoolThreads_e S"
    and "initialisationDone_e S = numberOfPoolThreads_e S - 1"
  shows "finish_init S = Inl Div_By_Zero"
proof -
  have "[0..<numberOfVariables_e S] = 0 # [Suc 0..<numberOfVariables_e S]"
    using assms(1) by (simp add: upt_conv_Cons)
  then show ?thesis
    using assms by (simp add: finish_init_def u32_sub_id)
qed

theorem few_variables_divide_by_zero_witness:
  "finish_init (ex_parsed\<lparr>numberOfPoolThreads_e := 5, nVarsPerChunk_e := 0,
     initialisationDone_e := 4\<rparr>) = Inl Div_By_Zero"
  by (rule few_variables_divide_by_zero) (simp_all add: ex_parsed_def)

subsection \<open>Synchronising\<close>

text \<open>
  (C12) \<open>Synchronise\<close> copies the blocks of the threads behind each other without a fault: at the
  offset of a variable the client finds its value and behind it its time stamp. The changed
  flags are copied out and cleared, and nothing else changes.
\<close>

theorem synchronise_hands_out_values:
  assumes "marte_lib L" and lay: "layout_ok S" and "length memoryOut = GetTotalMemorySize S"
    and "length changedFlags = GetNumberOfVariables_e S"
  shows "\<exists>out. Synchronise_e L memoryOut changedFlags S = Inr (out, changedFlagMem_e S,
      S\<lparr>changedFlagMem_e := replicate (numberOfVariables_e S) 0\<rparr>)
    \<and> length out = GetTotalMemorySize S
    \<and> (\<forall>i < numberOfVariables_e S. has_value (pvDescriptor_e S ! i) \<longrightarrow>
         take (value_bytes (pvDescriptor_e S ! i)) (drop (offset_d (pvDescriptor_e S ! i)) out) = pv_value S i
         \<and> take TS_SIZE (drop (offset_d (pvDescriptor_e S ! i) + value_bytes (pvDescriptor_e S ! i)) out)
             = pv_stamp S i)"
proof -
  have "length (concat (memory_e S)) = GetTotalMemorySize S"
    using lay by (simp add: layout_ok_def GetTotalMemorySize_def length_concat)
  then show ?thesis
    using marte_lib.Synchronise_e_eq [OF assms(1) lay assms(3)] assms(4) joined_value [OF lay]
    by (simp add: GetNumberOfVariables_e_def)
qed

text \<open>The example after its start-up, written out.\<close>

definition ex_placed :: "nat \<Rightarrow> pv_desc" where
  "ex_placed i = ex_desc\<lparr>pvEvid_d := True, numberOfElements_d := 1, memorySize_d := 4,
     pvName_d := [65 + of_nat i], index_d := i, memory_d := (0, 12 * i), offset_d := 12 * i,
     timeStamp_d := (0, 12 * i + 4)\<rparr>"

definition ex_running :: subscriber where
  "ex_running = ex_config\<lparr>pvAllocated_e := True, numberOfVariables_e := 2, numberOfPoolThreads_e := 1,
     pvDescriptor_e := [ex_placed 0, ex_placed 1], changedFlagMem_e := [0, 0], nVarsPerChunk_e := 2,
     memory_e := [replicate 24 0], memorySize_e := [24], initialisationDone_e := 1\<rparr>"

lemma ex_placed_fields [simp]:
  "value_bytes (ex_placed i) = 4" "has_value (ex_placed i)" "offset_d (ex_placed i) = 12 * i"
  "memory_d (ex_placed i) = (0, 12 * i)" "timeStamp_d (ex_placed i) = (0, 12 * i + 4)"
  "index_d (ex_placed i) = i"
  by (simp_all add: ex_placed_def value_bytes_def has_value_def u32_def)

lemma ex_running_fields [simp]:
  "numberOfVariables_e ex_running = 2" "numberOfPoolThreads_e ex_running = 1"
  "pvDescriptor_e ex_running = [ex_placed 0, ex_placed 1]" "memory_e ex_running = [replicate 24 0]"
  "memorySize_e ex_running = [24]" "changedFlagMem_e ex_running = [0, 0]"
  by (simp_all add: ex_running_def)

lemma ex_running_ok: "layout_ok ex_running"
  unfolding layout_ok_def ex_running_fields
  by (auto simp: pv_placed_def TS_SIZE_def less_2_cases_iff)

theorem synchronise_hands_out_values_witness:
  "\<exists>out. Synchronise_e ref_marte (replicate 24 1) [1, 1] ex_running
      = Inr (out, [0, 0], ex_running\<lparr>changedFlagMem_e := replicate 2 0\<rparr>)
    \<and> take 4 (drop 12 out) = pv_value ex_running 1"
proof -
  have "length (replicate 24 (1 :: byte)) = GetTotalMemorySize ex_running"
      "length [1, 1 :: byte] = GetNumberOfVariables_e ex_running"
    by (simp_all add: GetTotalMemorySize_def GetNumberOfVariables_e_def)
  from synchronise_hands_out_values [OF ref.marte_lib_axioms ex_running_ok this]
  show ?thesis by (auto simp: All_less_Suc numeral_2_eq_2)
qed

lemma value_callback_effect:
  assumes "marte_lib L" and lay: "layout_ok S" and i: "i < numberOfVariables_e S"
    and "has_value (pvDescriptor_e S ! i)" and "value_bytes (pvDescriptor_e S ! i) \<le> length dbr"
  shows "\<exists>S'. GetValueCallback L i dbr S = Inr S' \<and> layout_ok S'
    \<and> pv_value S' i = take (value_bytes (pvDescriptor_e S ! i)) dbr \<and> pv_stamp S' i = pv_stamp S i
    \<and> changedFlagMem_e S' = (changedFlagMem_e S)[i := 1]
    \<and> (\<forall>j < numberOfVariables_e S. j \<noteq> i \<longrightarrow> has_value (pvDescriptor_e S ! j) \<longrightarrow>
         pv_value S' j = pv_value S j \<and> pv_stamp S' j = pv_stamp S j)"
proof -
  let ?d = "pvDescriptor_e S ! i" and ?M = "concat (memory_e S)"
  obtain mem where mem: "GetValueCallback L i dbr S =
        Inr (S\<lparr>memory_e := mem, changedFlagMem_e := (changedFlagMem_e S)[i := 1]\<rparr>)"
      "map length mem = map length (memory_e S)"
      "concat mem = put_bytes ?M (offset_d ?d) (take (value_bytes ?d) dbr)"
    using marte_lib.GetValueCallback_cases(1) [OF assms] by blast
  define S' where "S' = S\<lparr>memory_e := mem, changedFlagMem_e := (changedFlagMem_e S)[i := 1]\<rparr>"
  have lay': "layout_ok S'"
    unfolding S'_def by (rule marte_lib.layout_memory [OF assms(1) lay mem(2)]) simp
  have same: "pvDescriptor_e S' = pvDescriptor_e S" "numberOfVariables_e S' = numberOfVariables_e S"
      "memory_e S' = mem"
    by (simp_all add: S'_def)
  have room: "offset_d (pvDescriptor_e S ! k) + value_bytes (pvDescriptor_e S ! k) + TS_SIZE \<le> length ?M"
    if "k < numberOfVariables_e S" "has_value (pvDescriptor_e S ! k)" for k
    by (rule layout_slot [OF lay that])
  have len: "length (take (value_bytes ?d) dbr) = value_bytes ?d" using assms(5) by simp
  have "pv_value S' i = take (value_bytes ?d) (drop (offset_d ?d) (concat mem))"
    using joined_value(1) [OF lay'] i assms(4) same by simp
  then have "pv_value S' i = take (value_bytes ?d) dbr"
    using take_drop_put_same [of "offset_d ?d" "take (value_bytes ?d) dbr" ?M] room [OF i assms(4)]
      len mem(3) by simp
  moreover have "pv_stamp S' i = pv_stamp S i"
    using joined_value(2) [OF lay', of i] joined_value(2) [OF lay, of i] i assms(4) same mem(3) len
      room [OF i assms(4)] by (simp add: take_drop_put_other)
  moreover have "pv_value S' j = pv_value S j \<and> pv_stamp S' j = pv_stamp S j"
    if j: "j < numberOfVariables_e S" "j \<noteq> i" "has_value (pvDescriptor_e S ! j)" for j
  proof -
    let ?e = "pvDescriptor_e S ! j"
    have "offset_d ?e + value_bytes ?e + TS_SIZE \<le> offset_d ?d
        \<or> offset_d ?d + value_bytes ?d \<le> offset_d ?e"
      using lay i j assms(4) unfolding layout_ok_def
      by (metis add_leD1 nat_neq_iff)
    then show ?thesis
      using joined_value [OF lay', of j] joined_value [OF lay, of j] j same mem(3) len
        room [OF i assms(4)] room [OF j(1,3)] by (auto simp: take_drop_put_other)
  qed
  ultimately show ?thesis using mem(1) lay' by (auto simp: S'_def)
qed

text \<open>
  (C22) A value callback stores the value in the variable's place and raises its flag; its time
  stamp and the values and time stamps of all other variables stay. A value shorter than the
  variable is an out-of-bounds read.
\<close>

theorem value_callback_changes_one_variable:
  assumes "marte_lib L" and lay: "layout_ok S" and i: "i < numberOfVariables_e S"
    and "has_value (pvDescriptor_e S ! i)" and "value_bytes (pvDescriptor_e S ! i) \<le> length dbr"
  shows "\<exists>S'. GetValueCallback L i dbr S = Inr S' \<and> layout_ok S'
    \<and> pv_value S' i = take (value_bytes (pvDescriptor_e S ! i)) dbr \<and> pv_stamp S' i = pv_stamp S i
    \<and> changedFlagMem_e S' = (changedFlagMem_e S)[i := 1]
    \<and> (\<forall>j < numberOfVariables_e S. j \<noteq> i \<longrightarrow> has_value (pvDescriptor_e S ! j) \<longrightarrow>
         pv_value S' j = pv_value S j \<and> pv_stamp S' j = pv_stamp S j)"
  by (rule value_callback_effect [OF assms])

theorem value_callback_changes_one_variable_witness:
  "\<exists>S'. GetValueCallback ref_marte 1 [1, 2, 3, 4] ex_running = Inr S'
    \<and> pv_value S' 1 = [1, 2, 3, 4] \<and> pv_value S' 0 = pv_value ex_running 0
    \<and> changedFlagMem_e S' = [0, 1]"
  using value_callback_changes_one_variable [OF ref.marte_lib_axioms ex_running_ok, of 1 "[1, 2, 3, 4]"]
  by (auto simp: All_less_Suc numeral_2_eq_2)

text \<open>
  (C11) Between two calls of \<open>Synchronise\<close> with any callbacks in between, the second call
  reports exactly the variables for which a value has arrived.
\<close>

theorem changes_reported_once:
  assumes "marte_lib L" and "layout_ok S"
    and "run_events (subscriber_event L) es (snd (subscriber_sync L S)) = Inr S'"
  shows "fst (subscriber_sync L S') =
    map (\<lambda>i. if touched_in (subscriber_event L) subscriber_touched es (snd (subscriber_sync L S)) i
             then 1 else 0) [0..<numberOfVariables_e S]"
proof -
  have "length (changedFlagMem_e S) = numberOfVariables_e S" using assms(2) by (simp add: layout_ok_def)
  with change_source.sync_run_sync [OF marte_lib.subscriber_contract [OF assms(1)] assms(2,3)]
  show ?thesis by simp
qed

theorem changes_reported_once_witness:
  "\<exists>S'. run_events (subscriber_event ref_marte) [StampEvent 0 (replicate 8 1), ValueEvent 1 [1, 2, 3, 4]]
      (snd (subscriber_sync ref_marte ex_running)) = Inr S'
    \<and> fst (subscriber_sync ref_marte S') = [0, 1]"
proof -
  let ?es = "[StampEvent 0 (replicate 8 1), ValueEvent 1 [1, 2, 3, 4]]"
  let ?S = "snd (subscriber_sync ref_marte ex_running)"
  have S: "?S = ex_running\<lparr>changedFlagMem_e := replicate 2 0\<rparr>"
    using ref.Synchronise_e_eq [OF ex_running_ok]
    by (simp add: subscriber_sync_def GetNumberOfVariables_e_def)
  have "\<exists>S'. run_events (subscriber_event ref_marte) ?es ?S = Inr S'"
    by (simp add: S subscriber_event_def GetValueCallback_def GetTimeoutCallback_def poke_def
        mem_copy_checked_def TS_SIZE_def ex_placed_def has_value_def u32_def Let_def)
  then obtain S' where run: "run_events (subscriber_event ref_marte) ?es ?S = Inr S'" ..
  have "touched_in (subscriber_event ref_marte) subscriber_touched ?es ?S 1"
       "\<not> touched_in (subscriber_event ref_marte) subscriber_touched ?es ?S 0"
    by (simp_all add: S subscriber_event_def GetValueCallback_def GetTimeoutCallback_def poke_def
        mem_copy_checked_def TS_SIZE_def ex_placed_def has_value_def u32_def Let_def)
  then have "fst (subscriber_sync ref_marte S') = [0, 1]"
    using changes_reported_once [OF ref.marte_lib_axioms ex_running_ok run] by (simp add: upt_rec)
  with run show ?thesis by blast
qed

end
