(* ===== verification/SenderQueue.thy ===== *)
theory SenderQueue
  imports Subscriber
begin

section \<open>PrioritySender: the queue of the variables\<close>

text \<open>
  The record \<open>sender\<close> holds the members of \<open>PrioritySender\<close>. The main thread
  (\<open>PrioritySenderCycleLoop\<close>) keeps a queue \<open>indexList\<close> of the variables, read from position
  \<open>currentIdx\<close> on and wrapping at the end; in a cycle it moves the changed variables to the
  front, decides how many to send, and hands a copy of the memory and of the queue over to
  the sending threads. Its local variables that survive a cycle are the record
  \<open>cycle_locals\<close>. The data source is the subscriber; times and sleeps have no effect on the
  model, except the time stamps of the clock, which are arguments.
\<close>

record sender =
  indexList_s :: "nat list"
  indexListThreads_s :: "nat list"
  memory_s :: bytes
  memoryThreads_s :: bytes
  changeFlag_s :: bytes
  totalMemorySize_s :: nat
  numberOfVariables_s :: nat
  currentIdx_s :: nat
  currentIdxThreads_s :: nat
  currentChangePos_s :: nat
  numberOfSignalToBeSent_s :: nat
  eventSem_s :: bool
  nThreadsFinished_s :: nat
  chunckCounter_s :: nat
  numberOfChunks_s :: nat
  serverIpAddress_s :: bytes
  serverPort_s :: nat
  connectionTimeout_s :: nat
  numberOfCpus_s :: nat
  quit_s :: nat
  lastTickCounter_s :: nat
  msecPeriod_s :: nat
  numberOfCyclesPerTimeout_s :: nat
  threadIndex_s :: nat
  numberOfChangedVariables_s :: nat
  maxBytesPerCycle_s :: nat
  readTimeout_s :: nat
  maxVarSize_s :: nat
  resetCounter_s :: nat
  sendOnlyChanged_s :: nat
  tickAfterPost_s :: "nat list"
  chunkSize_s :: nat
  packetsNotAck_s :: "nat list"
  diagnostics_s :: "int list"
  debug_s :: nat
  numberOfPoolThreads_s :: nat
  cpuMasks_s :: "nat list"

subsection \<open>Construction and configuration\<close>

definition PrioritySender :: sender where
  "PrioritySender =
     \<lparr>indexList_s = [], indexListThreads_s = [], memory_s = [], memoryThreads_s = [],
      changeFlag_s = [], totalMemorySize_s = 0, numberOfVariables_s = 0, currentIdx_s = 0,
      currentIdxThreads_s = 0, currentChangePos_s = 0, numberOfSignalToBeSent_s = 0,
      eventSem_s = False, nThreadsFinished_s = 0, chunckCounter_s = 0, numberOfChunks_s = 0,
      serverIpAddress_s = [], serverPort_s = 0, connectionTimeout_s = 10000, numberOfCpus_s = 4,
      quit_s = 0, lastTickCounter_s = 0, msecPeriod_s = 0, numberOfCyclesPerTimeout_s = 0,
      threadIndex_s = 0, numberOfChangedVariables_s = 0, maxBytesPerCycle_s = 0xFFFFFFFF,
      readTimeout_s = 10000, maxVarSize_s = 0xFFFFFFFF, resetCounter_s = 120,
      sendOnlyChanged_s = 0, tickAfterPost_s = [], chunkSize_s = 1, packetsNotAck_s = [],
      diagnostics_s = [], debug_s = 0, numberOfPoolThreads_s = 0, cpuMasks_s = []\<rparr>"

text \<open>The parameters that must be given.\<close>

definition read_required :: "structured_data \<Rightarrow> sender \<Rightarrow> bool \<times> sender" where
  "read_required data P =
     (case ReadUInt data 32 ''NumberOfSignalPerThread'' of None \<Rightarrow> (False, P) | Some n \<Rightarrow>
      (let P = P\<lparr>numberOfSignalToBeSent_s := n\<rparr> in
       case ReadString data ''ServerIp'' of None \<Rightarrow> (False, P) | Some ip \<Rightarrow>
      (let P = P\<lparr>serverIpAddress_s := ip\<rparr> in
       case ReadUInt data 32 ''ServerPort'' of None \<Rightarrow> (False, P) | Some port \<Rightarrow>
      (let P = P\<lparr>serverPort_s := port\<rparr> in
       case ReadUInt data 32 ''NumberOfCpus'' of None \<Rightarrow> (False, P) | Some cpus \<Rightarrow>
      (let P = P\<lparr>numberOfCpus_s := cpus\<rparr> in
       case ReadUInt data 32 ''MsecPeriod'' of None \<Rightarrow> (False, P) | Some ms \<Rightarrow>
       (True, P\<lparr>msecPeriod_s := ms\<rparr>))))))"

text \<open>The optional ones. \<open>SendOnlyChanged\<close> is set to 0 when it is read.\<close>

definition read_optional :: "structured_data \<Rightarrow> sender \<Rightarrow> sender" where
  "read_optional data P =
     (let ct = read_or data 32 ''ConnectionTimeout'' 10000
      in P\<lparr>maxBytesPerCycle_s := read_or data 32 ''MaxBytesPerCycle'' 0xFFFFFFFF,
           maxVarSize_s := read_or data 32 ''MaxVarSize'' 0xFFFFFFFF,
           connectionTimeout_s := ct,
           numberOfCyclesPerTimeout_s :=
             (if msecPeriod_s P > 0 then ct div msecPeriod_s P else numberOfCyclesPerTimeout_s P),
           readTimeout_s := read_or data 32 ''ReadTimeout'' 10000,
           chunkSize_s := read_or data 32 ''ChunkSize'' 1,
           resetCounter_s := read_or data 32 ''ResetCounter'' 120,
           sendOnlyChanged_s := (case ReadUInt data 8 ''SendOnlyChanged'' of
                Some x \<Rightarrow> 0 | None \<Rightarrow> sendOnlyChanged_s P),
           debug_s := read_or data 8 ''Debug'' 0\<rparr>)"

definition Initialise_s :: "nat option \<Rightarrow> structured_data \<Rightarrow> sender \<Rightarrow> bool \<times> sender" where
  "Initialise_s base data P =
     (case base of
        None \<Rightarrow> (False, P)
      | Some n \<Rightarrow>
          (case read_required data (P\<lparr>numberOfPoolThreads_s := n\<rparr>) of
             (ret, P) \<Rightarrow> if ret then (True, read_optional data P) else (False, P)))"

text \<open>
  \<open>SetDataSource\<close>; it waits until the subscriber has been initialised, so it has no result
  (\<open>None\<close>) in a state where it is not. The allocations succeed.
\<close>

definition SetDataSource :: "subscriber \<Rightarrow> sender \<Rightarrow> (fault + bool \<times> sender) option" where
  "SetDataSource S P =
     (if \<not> InitialisationDone S then None
      else
        (let T = numberOfPoolThreads_s P;
             n = GetNumberOfVariables_e S;
             total = GetTotalMemorySize S;
             sentPerCycle = u32 (T * numberOfSignalToBeSent_s P);
             P = P\<lparr>totalMemorySize_s := total, memory_s := replicate total 0,
                   memoryThreads_s := replicate total 0, numberOfVariables_s := n,
                   changeFlag_s := replicate n 0, diagnostics_s := replicate (2 * T) 0,
                   packetsNotAck_s := replicate T 0, tickAfterPost_s := replicate (2 * T) 0\<rparr>
         in if n \<ge> sentPerCycle then
              (if sentPerCycle = 0 then Some (Inl Div_By_Zero)
               else Some (Inr (True, P\<lparr>indexList_s := [0..<n], indexListThreads_s := [0..<n],
                      numberOfChunks_s :=
                        (if n mod sentPerCycle > 0 then n div sentPerCycle + 1
                         else n div sentPerCycle),
                      nThreadsFinished_s := 0\<rparr>)))
            else Some (Inr (False, P))))"

text \<open>\<open>Start\<close>; \<open>now\<close> is the clock, \<open>started\<close> the outcome of \<open>MultiThreadService::Start\<close>.\<close>

definition Start_s ::
  "marte \<Rightarrow> nat \<Rightarrow> bool \<Rightarrow> subscriber \<Rightarrow> sender \<Rightarrow> fault + bool \<times> subscriber \<times> sender" where
  "Start_s L now started S P =
     (case shl1 (numberOfCpus_s P) of
        Inl e \<Rightarrow> Inl e
      | Inr m \<Rightarrow>
          (case Synchronise_e L (memory_s P) (changeFlag_s P) S of
             Inl e \<Rightarrow> Inl e
           | Inr (out, flags, S1) \<Rightarrow>
               Inr (started, S1,
                 P\<lparr>cpuMasks_s := replicate (numberOfPoolThreads_s P) (u32_sub m 1),
                   memory_s := out, changeFlag_s := flags, lastTickCounter_s := now\<rparr>)))"

definition Stop_s :: "sender \<Rightarrow> sender" where
  "Stop_s P = P\<lparr>quit_s := quit_s P + 1\<rparr>"

subsection \<open>Moving the changed variables forward\<close>

definition swap_at :: "nat \<Rightarrow> nat \<Rightarrow> nat list \<Rightarrow> nat list" where
  "swap_at a b xs = xs[a := xs ! b, b := xs ! a]"

text \<open>Position \<open>k\<close> behind the current one.\<close>

definition queue_pos :: "nat \<Rightarrow> nat \<Rightarrow> nat \<Rightarrow> nat" where
  "queue_pos n currentIdx k = u32 (currentIdx + k) mod n"

text \<open>
  The loop over \<open>j\<close>. The size it compares is that of the descriptor at the position in the
  queue, not of the variable stored there.
\<close>

definition prev_index :: "nat \<Rightarrow> nat \<Rightarrow> nat" where
  "prev_index n jIndex = (if jIndex = 0 then n - 1 else jIndex - 1)"

fun push_forward :: "pv_desc list \<Rightarrow> nat \<Rightarrow> nat \<Rightarrow> nat \<Rightarrow> nat \<Rightarrow> nat list \<Rightarrow> nat list" where
  "push_forward ds n currentIdx pvSize 0 il = il"
| "push_forward ds n currentIdx pvSize (Suc j) il =
     (let jIndex = queue_pos n currentIdx (Suc j);
          prevJIndex = prev_index n jIndex
      in if value_bytes (ds ! prevJIndex) > pvSize
         then push_forward ds n currentIdx pvSize j (swap_at prevJIndex jIndex il)
         else il)"

text \<open>The loop over \<open>i\<close>: queue, \<open>currentChangePos\<close> and \<open>nVariables\<close>.\<close>

fun sort_loop ::
  "pv_desc list \<Rightarrow> bytes \<Rightarrow> nat \<Rightarrow> nat \<Rightarrow> nat list \<Rightarrow> nat list \<times> nat \<times> nat \<Rightarrow> nat list \<times> nat \<times> nat"
where
  "sort_loop ds changeFlag n currentIdx [] st = st"
| "sort_loop ds changeFlag n currentIdx (i # is) (il, ccp, nv) =
     (let nextIndex = queue_pos n currentIdx i;
          signalIdx = il ! nextIndex
      in if changeFlag ! signalIdx = 1 then
           (let pvSize = value_bytes (ds ! nextIndex);
                il1 = swap_at (queue_pos n currentIdx ccp) nextIndex il
            in sort_loop ds changeFlag n currentIdx is
                 (push_forward ds n currentIdx pvSize ccp il1, u32 (ccp + 1), u32 (nv + 1)))
         else sort_loop ds changeFlag n currentIdx is (il, ccp, nv))"

subsection \<open>The bandwidth of a cycle\<close>

function bandwidth_loop ::
  "pv_desc list \<Rightarrow> nat \<Rightarrow> nat \<Rightarrow> nat \<Rightarrow> nat \<Rightarrow> nat \<Rightarrow> nat \<Rightarrow> nat" where
  "bandwidth_loop ds n currentIdx maxBytes varsToCheck nVariables totalSize =
     (if nVariables < varsToCheck then
        (let totalSize = u32 (totalSize + value_bytes (ds ! queue_pos n currentIdx nVariables))
         in if totalSize > maxBytes then (if nVariables > 0 then nVariables - 1 else nVariables)
            else bandwidth_loop ds n currentIdx maxBytes varsToCheck (Suc nVariables) totalSize)
      else nVariables)"
  by pat_completeness auto
termination
  by (relation "measure (\<lambda>(ds, n, c, m, varsToCheck, nVariables, t). varsToCheck - nVariables)") auto

declare bandwidth_loop.simps [simp del]

subsection \<open>A cycle of the main thread\<close>

record cycle_locals =
  changed_c :: bool
  nVariables_c :: nat
  sendCounter_c :: nat

text \<open>The sorting, or the counting of the cycles that send everything in turn.\<close>

definition sort_phase :: "pv_desc list \<Rightarrow> nat \<Rightarrow> nat \<Rightarrow> sender \<Rightarrow> nat \<times> sender" where
  "sort_phase ds chunkCounterRead maxSignalPerThread P =
     (if chunkCounterRead \<ge> numberOfChunks_s P then
        (case sort_loop ds (changeFlag_s P) (numberOfVariables_s P) (currentIdx_s P)
                [0..<numberOfVariables_s P] (indexList_s P, currentChangePos_s P, currentChangePos_s P) of
           (il, ccp, nv) \<Rightarrow> (nv, P\<lparr>indexList_s := il, currentChangePos_s := ccp\<rparr>))
      else (maxSignalPerThread, P\<lparr>chunckCounter_s := u32 (chunckCounter_s P + 1)\<rparr>))"

text \<open>How many variables to send, and what remains of the changed ones.\<close>

definition limit_phase ::
  "pv_desc list \<Rightarrow> nat \<Rightarrow> cycle_locals \<Rightarrow> nat \<Rightarrow> sender \<Rightarrow> fault + sender \<times> cycle_locals" where
  "limit_phase ds maxSignalPerThread c nVariables P =
     (let n = numberOfVariables_s P;
          nVariables = (if sendOnlyChanged_s P = 0 then maxSignalPerThread else nVariables);
          varsToCheck = (if nVariables > maxSignalPerThread then maxSignalPerThread else nVariables)
      in if varsToCheck > 0 \<and> n = 0 then Inl Div_By_Zero
         else
           (let nVariables = bandwidth_loop ds n (currentIdx_s P) (maxBytesPerCycle_s P)
                   varsToCheck 0 0;
                ccp = (if currentChangePos_s P > nVariables
                       then currentChangePos_s P - nVariables else 0);
                tooManyChanged = (ccp > u32_sub n maxSignalPerThread);
                P = P\<lparr>currentChangePos_s := ccp\<rparr>;
                P = (if tooManyChanged \<or> sendCounter_c c \<ge> resetCounter_s P
                     then P\<lparr>currentChangePos_s := 0, chunckCounter_s := 0\<rparr> else P)
            in Inr (P, c\<lparr>changed_c := True, nVariables_c := nVariables\<rparr>)))"

text \<open>The part under \<open>if (!changed)\<close>.\<close>

definition prepare_cycle ::
  "marte \<Rightarrow> nat \<Rightarrow> subscriber \<Rightarrow> sender \<Rightarrow> cycle_locals
     \<Rightarrow> fault + subscriber \<times> sender \<times> cycle_locals" where
  "prepare_cycle L chunkCounterRead S P c =
     (case Synchronise_e L (memory_s P) (changeFlag_s P) S of
        Inl e \<Rightarrow> Inl e
      | Inr (out, flags, S1) \<Rightarrow>
          (let ds = GetPvDescriptors S;
               maxSignalPerThread = u32 (numberOfSignalToBeSent_s P * numberOfPoolThreads_s P)
           in case sort_phase ds chunkCounterRead maxSignalPerThread
                     (P\<lparr>memory_s := out, changeFlag_s := flags\<rparr>) of
                (nVariables, P1) \<Rightarrow>
                  (case limit_phase ds maxSignalPerThread c nVariables P1 of
                     Inl e \<Rightarrow> Inl e
                   | Inr (P2, c1) \<Rightarrow> Inr (S1, P2, c1))))"

text \<open>The handover to the sending threads, when all of them have finished.\<close>

definition hand_over :: "sender \<Rightarrow> cycle_locals \<Rightarrow> fault + sender \<times> cycle_locals" where
  "hand_over P c =
     (if numberOfVariables_s P = 0 then Inl Div_By_Zero
      else Inr (P\<lparr>nThreadsFinished_s := 0, memoryThreads_s := memory_s P,
               indexListThreads_s := indexList_s P, currentIdxThreads_s := currentIdx_s P,
               currentIdx_s := u32 (currentIdx_s P + nVariables_c c) mod numberOfVariables_s P,
               numberOfChangedVariables_s := nVariables_c c, eventSem_s := True\<rparr>,
             c\<lparr>changed_c := False\<rparr>))"

text \<open>
  One turn of the loop. \<open>nThreadsFinishedTmp\<close> and \<open>chunkCounterRead\<close> are read, under the
  lock, at its beginning; \<open>now\<close> is the clock at its end.
\<close>

definition cycle_body ::
  "marte \<Rightarrow> nat \<Rightarrow> nat \<Rightarrow> nat \<Rightarrow> subscriber \<Rightarrow> sender \<Rightarrow> cycle_locals
     \<Rightarrow> fault + subscriber \<times> sender \<times> cycle_locals" where
  "cycle_body L now chunkCounterRead nThreadsFinishedTmp S P c =
     (case (if changed_c c then Inr (S, P, c) else prepare_cycle L chunkCounterRead S P c) of
        Inl e \<Rightarrow> Inl e
      | Inr (S, P, c) \<Rightarrow>
          (case (if nThreadsFinishedTmp = numberOfPoolThreads_s P then hand_over P c
                 else Inr (P, c)) of
             Inl e \<Rightarrow> Inl e
           | Inr (P, c) \<Rightarrow>
               Inr (if changed_c c then (S, P, c)
                    else (S, P\<lparr>lastTickCounter_s := now\<rparr>,
                          c\<lparr>sendCounter_c := u32 (sendCounter_c c + 1)\<rparr>))))"

definition cycle_start :: cycle_locals where
  "cycle_start = \<lparr>changed_c = False, nVariables_c = 0, sendCounter_c = 0\<rparr>"

text \<open>The destructor: what it frees.\<close>

definition destroy_s :: "sender \<Rightarrow> sender" where
  "destroy_s P = P\<lparr>memory_s := [], changeFlag_s := [], memoryThreads_s := [], indexList_s := [],
     indexListThreads_s := [], tickAfterPost_s := [], packetsNotAck_s := [], diagnostics_s := []\<rparr>"

end
