(* ===== verification/SenderSort.thy ===== *)
theory SenderSort
  imports SenderQueue
begin

section \<open>The order of the queue\<close>

text \<open>
  The loops over \<open>indexList\<close> work at positions relative to \<open>currentIdx\<close>, modulo the length.
  Seen from there, the queue is the list rotated by \<open>currentIdx\<close>; the lemmas carry the
  exchanges over to that view. Sorting permutes the queue, brings every changed variable
  into the first \<open>currentChangePos\<close> positions, and, when the previous cycle has left none
  over, brings only changed variables there.
\<close>

lemma length_swap_at [simp]: "length (swap_at a b xs) = length xs"
  by (simp add: swap_at_def)

lemma mset_swap_at: "a < length xs \<Longrightarrow> b < length xs \<Longrightarrow> mset (swap_at a b xs) = mset xs"
  unfolding swap_at_def using mset_swap by metis

lemma mset_rotate: "mset (rotate k xs) = mset xs"
  unfolding rotate_drop_take by (metis append_take_drop_id mset_append union_commute)

lemma queue_pos_less [simp]: "0 < n \<Longrightarrow> queue_pos n cur k < n"
  by (simp add: queue_pos_def)

lemma queue_pos_eq: "cur < n \<Longrightarrow> k \<le> n \<Longrightarrow> n < 2147483648 \<Longrightarrow> queue_pos n cur k = (cur + k) mod n"
  by (simp add: queue_pos_def u32_id)

lemma prev_index_less: "i < n \<Longrightarrow> prev_index n i < n"
  by (simp add: prev_index_def less_imp_diff_less)

lemma length_push_forward [simp]: "length (push_forward ds n cur sz j il) = length il"
  by (induction j arbitrary: il) (simp_all add: Let_def)

lemma mset_push_forward:
  "0 < n \<Longrightarrow> length il = n \<Longrightarrow> mset (push_forward ds n cur sz j il) = mset il"
proof (induction j arbitrary: il)
  case 0
  then show ?case by simp
next
  case (Suc j)
  have "prev_index n (queue_pos n cur (Suc j)) < n"
    using Suc.prems(1) queue_pos_less [of n cur "Suc j"] by (simp add: prev_index_less)
  then show ?case
    using Suc by (simp add: Let_def mset_swap_at)
qed

lemma sort_loop_mset:
  assumes "0 < n" "length il = n" "sort_loop ds fl n cur is (il, ccp, nv) = (il', ccp', nv')"
  shows "length il' = n \<and> mset il' = mset il"
  using assms(2,3)
proof (induction "is" arbitrary: il ccp nv)
  case Nil
  then show ?case by simp
next
  case (Cons i "is")
  show ?case
  proof (cases "fl ! (il ! queue_pos n cur i) = 1")
    case False
    then show ?thesis using Cons.IH [OF Cons.prems(1)] Cons.prems(2) by (simp add: Let_def)
  next
    case True
    let ?il = "push_forward ds n cur (value_bytes (ds ! queue_pos n cur i)) ccp
      (swap_at (queue_pos n cur ccp) (queue_pos n cur i) il)"
    have "length il' = n \<and> mset il' = mset ?il"
      using True Cons.prems by (intro Cons.IH) (simp_all add: Let_def)
    then show ?thesis
      using Cons.prems(1) assms(1) by (simp add: mset_push_forward mset_swap_at)
  qed
qed

subsection \<open>Seen from the current position\<close>

lemma mod_add_eq_iff:
  assumes "a < n" "b < (n :: nat)"
  shows "(c + a) mod n = (c + b) mod n \<longleftrightarrow> a = b"
proof -
  have "rotate c [0..<n] ! a = (c + a) mod n" "rotate c [0..<n] ! b = (c + b) mod n"
    using assms by (simp_all add: nth_rotate)
  then show ?thesis
    using nth_eq_iff_index_eq [of "rotate c [0..<n]" a b] assms by simp
qed

lemma rotate_swap_at:
  assumes "length il = n" "a < n" "b < n"
  shows "rotate cur (swap_at ((cur + a) mod n) ((cur + b) mod n) il) = swap_at a b (rotate cur il)"
proof (rule nth_equalityI)
  show "length (rotate cur (swap_at ((cur + a) mod n) ((cur + b) mod n) il))
    = length (swap_at a b (rotate cur il))" by simp
  fix k assume "k < length (rotate cur (swap_at ((cur + a) mod n) ((cur + b) mod n) il))"
  then have k: "k < n" using assms by simp
  have iff: "(cur + k) mod n = (cur + a) mod n \<longleftrightarrow> k = a" "(cur + k) mod n = (cur + b) mod n \<longleftrightarrow> k = b"
    using k assms by (simp_all add: mod_add_eq_iff)
  have lt: "(cur + a) mod n < n" "(cur + b) mod n < n" "(cur + k) mod n < n" using k by auto
  have r: "rotate cur il ! j = il ! ((cur + j) mod n)" if "j < n" for j
    using that assms(1) by (simp add: nth_rotate)
  define A B K where "A = (cur + a) mod n" and "B = (cur + b) mod n" and "K = (cur + k) mod n"
  have "rotate cur (swap_at A B il) ! k = swap_at A B il ! K"
    using k assms(1) nth_rotate [of k "swap_at A B il" cur] by (simp add: K_def)
  also have "\<dots> = (if K = B then il ! A else if K = A then il ! B else il ! K)"
    using lt assms(1) by (simp add: swap_at_def nth_list_update A_def B_def K_def)
  finally have "rotate cur (swap_at ((cur + a) mod n) ((cur + b) mod n) il) ! k
      = (if k = b then il ! ((cur + a) mod n) else if k = a then il ! ((cur + b) mod n)
         else il ! ((cur + k) mod n))"
    unfolding A_def B_def K_def iff .
  also have "\<dots> = swap_at a b (rotate cur il) ! k"
    using k assms r by (auto simp: swap_at_def nth_list_update)
  finally show "rotate cur (swap_at ((cur + a) mod n) ((cur + b) mod n) il) ! k
    = swap_at a b (rotate cur il) ! k" .
qed

lemma prev_pos:
  assumes "0 < n"
  shows "prev_index n ((cur + Suc j) mod n) = (cur + j) mod n"
  using assms by (auto simp: prev_index_def mod_Suc)

lemma drop_eq_mono: "drop a xs = drop a ys \<Longrightarrow> a \<le> b \<Longrightarrow> drop b xs = drop b ys"
  by (metis drop_drop le_add_diff_inverse2)

lemma drop_swap_at: "a < k \<Longrightarrow> b < k \<Longrightarrow> drop k (swap_at a b xs) = drop k xs"
  by (simp add: swap_at_def)

text \<open>Pushing a variable forward permutes the positions up to its own.\<close>

lemma push_forward_window:
  assumes "cur < n" "n < 2147483648" "length il = n" "j < n"
  shows "drop (Suc j) (rotate cur (push_forward ds n cur sz j il)) = drop (Suc j) (rotate cur il)"
  using assms(3,4)
proof (induction j arbitrary: il)
  case 0
  then show ?case by simp
next
  case (Suc j)
  have pos: "queue_pos n cur (Suc j) = (cur + Suc j) mod n"
    using assms(1,2) Suc.prems(2) by (simp add: queue_pos_eq)
  let ?il = "swap_at ((cur + j) mod n) ((cur + Suc j) mod n) il"
  have rot: "rotate cur ?il = swap_at j (Suc j) (rotate cur il)"
    using Suc.prems by (intro rotate_swap_at) simp_all
  have "drop (Suc j) (rotate cur (push_forward ds n cur sz j ?il)) = drop (Suc j) (rotate cur ?il)"
    using Suc.prems by (intro Suc.IH) simp_all
  then have "drop (Suc (Suc j)) (rotate cur (push_forward ds n cur sz j ?il))
      = drop (Suc (Suc j)) (rotate cur ?il)"
    by (metis add_Suc drop_drop plus_1_eq_Suc)
  also have "\<dots> = drop (Suc (Suc j)) (rotate cur il)" unfolding rot by (rule drop_swap_at) simp_all
  finally have step: "drop (Suc (Suc j)) (rotate cur (push_forward ds n cur sz j ?il))
      = drop (Suc (Suc j)) (rotate cur il)" .
  have n: "0 < n" using assms(1) by simp
  show ?case
    unfolding push_forward.simps Let_def pos prev_pos [OF n] using step by simp
qed

subsection \<open>What the sorting does\<close>

abbreviation flagged :: "bytes \<Rightarrow> nat \<Rightarrow> bool" where
  "flagged fl i \<equiv> fl ! i = 1"

text \<open>One exchange of the loop, seen from the current position.\<close>

lemma sort_step_view:
  fixes ds :: "pv_desc list" and sz :: nat
  assumes "cur < n" "n < 2147483648" "length il = n" "i < n" "c < n"
  defines "r \<equiv> rotate cur il"
  defines "r' \<equiv> rotate cur (push_forward ds n cur sz c
      (swap_at (queue_pos n cur c) (queue_pos n cur i) il))"
  shows "length r' = n" and "drop (Suc c) r' = drop (Suc c) (swap_at c i r)"
    and "mset (take (Suc c) r') = mset (take (Suc c) (swap_at c i r))"
    and "il ! queue_pos n cur i = r ! i"
proof -
  let ?il = "swap_at (queue_pos n cur c) (queue_pos n cur i) il"
  have rot: "rotate cur ?il = swap_at c i r"
    using assms(1-5) by (simp add: queue_pos_eq rotate_swap_at r_def)
  show "length r' = n" using assms(3) by (simp add: r'_def)
  show d: "drop (Suc c) r' = drop (Suc c) (swap_at c i r)"
    using push_forward_window [OF assms(1,2) _ assms(5), of ?il] assms(3) rot by (simp add: r'_def)
  have "mset r' = mset (swap_at c i r)"
  proof -
    have n: "0 < n" using assms(1) by simp
    have "mset r' = mset ?il"
      using mset_push_forward [OF n, of ?il] assms(3) by (simp add: r'_def mset_rotate)
    then show ?thesis using rot by (metis mset_rotate)
  qed
  then have "mset (take (Suc c) r') + mset (drop (Suc c) r')
      = mset (take (Suc c) (swap_at c i r)) + mset (drop (Suc c) (swap_at c i r))"
    by (simp only: mset_append [symmetric] append_take_drop_id)
  then show "mset (take (Suc c) r') = mset (take (Suc c) (swap_at c i r))" using d by simp
  show "il ! queue_pos n cur i = r ! i"
    using assms(1-4) by (simp add: queue_pos_eq r_def nth_rotate)
qed

text \<open>
  Positions whose variables are not flagged are passed over. When the variables left over, at
  the first \<open>a\<close> positions, are not flagged, the window holds exactly them, the multiset
  \<open>A\<close>, and the changed variables.
\<close>

lemma sort_loop_skip:
  "(\<And>i. i \<in> set is \<Longrightarrow> \<not> flagged fl (il ! queue_pos n cur i)) \<Longrightarrow>
    sort_loop ds fl n cur (is @ js) (il, c, nv) = sort_loop ds fl n cur js (il, c, nv)"
  by (induction "is") (simp_all add: Let_def)

lemma sort_loop_exact:
  assumes "cur < n" "n < 2147483648" "length il = n" "i \<le> n"
    and "c = a + length (filter (flagged fl) (take i r0))" "length r0 = n"
    and "mset (take c (rotate cur il)) = A + mset (filter (flagged fl) (take i r0))"
    and "drop i (rotate cur il) = drop i r0" and "c \<le> i"
    and "sort_loop ds fl n cur [i..<n] (il, c, nv) = (il', c', nv')" "nv + (n - i) < 4294967296"
  shows "c' = a + length (filter (flagged fl) r0)
    \<and> mset (take c' (rotate cur il')) = A + mset (filter (flagged fl) r0)
    \<and> nv' = nv + (c' - c) \<and> c \<le> c'"
  using assms(3-5,7-11)
proof (induction "n - i" arbitrary: i il c nv)
  case 0
  then have "[i..<n] = []" "take i r0 = r0" using assms(6) by simp_all
  then show ?case using 0 by simp
next
  case (Suc k)
  then have i: "i < n" by simp
  have ci: "c < n" using Suc.prems(6) i by simp
  let ?r = "rotate cur il"
  let ?il = "push_forward ds n cur (value_bytes (ds ! queue_pos n cur i)) c
      (swap_at (queue_pos n cur c) (queue_pos n cur i) il)"
  note here = sort_step_view(4) [OF assms(1,2) Suc.prems(1) i ci]
  note view = sort_step_view(1-3) [OF assms(1,2) Suc.prems(1) i ci, where ds = ds
      and sz = "value_bytes (ds ! queue_pos n cur i)"]
  have ri: "?r ! i = r0 ! i"
    using Suc.prems(5) i assms(6) Suc.prems(1)
    by (metis Cons_nth_drop_Suc length_rotate list.inject)
  have dS: "drop (Suc i) ?r = drop (Suc i) r0"
    using Suc.prems(5) by (metis drop_drop plus_1_eq_Suc)
  have upt: "[i..<n] = i # [Suc i..<n]" using i by (simp add: upt_conv_Cons)
  have u: "u32 (c + 1) = Suc c" "u32 (nv + 1) = Suc nv"
    using ci assms(2) Suc.prems(8) i by (simp_all add: u32_id)
  show ?case
  proof (cases "flagged fl (r0 ! i)")
    case False
    have "sort_loop ds fl n cur [Suc i..<n] (il, c, nv) = (il', c', nv')"
      using Suc.prems(7) False here ri by (simp add: upt Let_def)
    moreover have "take (Suc i) r0 = take i r0 @ [r0 ! i]"
      using i assms(6) by (simp add: take_Suc_conv_app_nth)
    ultimately show ?thesis
      using Suc.hyps(2) Suc.prems False dS i
      by (intro Suc.hyps(1) [of "Suc i" il c]) simp_all
  next
    case True
    have run: "sort_loop ds fl n cur [Suc i..<n] (?il, Suc c, Suc nv) = (il', c', nv')"
      using Suc.prems(7) True here ri u by (simp add: upt Let_def)
    have tk: "take (Suc i) r0 = take i r0 @ [r0 ! i]"
      using i assms(6) by (simp add: take_Suc_conv_app_nth)
    have "take (Suc c) (swap_at c i ?r) = take c ?r @ [r0 ! i]"
      using Suc.prems(1,6) ci i ri
      by (auto simp: swap_at_def take_Suc_conv_app_nth nth_list_update take_update_cancel)
    then have m: "mset (take (Suc c) (rotate cur ?il)) = A + mset (filter (flagged fl) (take (Suc i) r0))"
      using view(3) Suc.prems(4) True tk by simp
    have "drop (Suc i) (rotate cur ?il) = drop (Suc i) (swap_at c i ?r)"
      by (rule drop_eq_mono [OF view(2)]) (use Suc.prems(6) in simp)
    also have "\<dots> = drop (Suc i) r0"
      using Suc.prems(6) dS by (simp add: drop_swap_at)
    finally have d: "drop (Suc i) (rotate cur ?il) = drop (Suc i) r0" .
    have "c' = a + length (filter (flagged fl) r0)
      \<and> mset (take c' (rotate cur il')) = A + mset (filter (flagged fl) r0)
      \<and> nv' = Suc nv + (c' - Suc c) \<and> Suc c \<le> c'"
      using Suc.hyps(2) Suc.prems tk True i m d run
      by (intro Suc.hyps(1) [of "Suc i" ?il "Suc c" "Suc nv"]) simp_all
    then show ?thesis by auto
  qed
qed

text \<open>The loop from its start.\<close>

lemma sort_loop_window:
  assumes "cur < n" "n < 2147483648" "length il = n" "a \<le> n"
    and "\<And>k. k < a \<Longrightarrow> \<not> flagged fl (rotate cur il ! k)"
    and "sort_loop ds fl n cur [0..<n] (il, a, a) = (il', c', nv')"
  shows "c' = a + length (filter (flagged fl) (rotate cur il))
    \<and> mset (take c' (rotate cur il')) = mset (take a (rotate cur il)) + mset (filter (flagged fl) (rotate cur il))"
proof -
  have "filter (flagged fl) (take a (rotate cur il)) = []"
    using assms(3,4,5) by (auto simp: filter_empty_conv in_set_conv_nth)
  moreover have "sort_loop ds fl n cur [a..<n] (il, a, a) = (il', c', nv')"
  proof -
    have "sort_loop ds fl n cur ([0..<a] @ [a..<n]) (il, a, a) = sort_loop ds fl n cur [a..<n] (il, a, a)"
      using assms(1-5) by (intro sort_loop_skip) (simp add: queue_pos_eq nth_rotate)
    then show ?thesis using assms(4,6) upt_add_eq_append [of 0 a "n - a"] by simp
  qed
  ultimately show ?thesis
    using sort_loop_exact [of cur n il a a a fl "rotate cur il" "mset (take a (rotate cur il))" ds a il' c' nv']
      assms(1-4) by (auto simp del: mset_filter)
qed

text \<open>In any case every changed variable ends up in the window.\<close>

lemma sort_loop_all:
  assumes "cur < n" "n < 2147483648" "length il = n" "i \<le> n" "c + (n - i) < 4294967296"
    and "\<And>k. c \<le> k \<Longrightarrow> k < i \<Longrightarrow> \<not> flagged fl (rotate cur il ! k)"
    and "sort_loop ds fl n cur [i..<n] (il, c, nv) = (il', c', nv')"
  shows "c \<le> c' \<and> (\<forall>k. c' \<le> k \<longrightarrow> k < n \<longrightarrow> \<not> flagged fl (rotate cur il' ! k))"
  using assms(3-)
proof (induction "n - i" arbitrary: i il c nv)
  case 0
  then have "[i..<n] = []" "i = n" by simp_all
  then show ?case using 0 by simp
next
  case (Suc k)
  then have i: "i < n" by simp
  have upt: "[i..<n] = i # [Suc i..<n]" using i by (simp add: upt_conv_Cons)
  let ?r = "rotate cur il"
  let ?sz = "value_bytes (ds ! queue_pos n cur i)"
  let ?il = "push_forward ds n cur ?sz c (swap_at (queue_pos n cur c) (queue_pos n cur i) il)"
  have here: "il ! queue_pos n cur i = ?r ! i"
    using assms(1,2) Suc.prems(1) i by (simp add: queue_pos_eq nth_rotate)
  show ?case
  proof (cases "flagged fl (?r ! i)")
    case False
    have "sort_loop ds fl n cur [Suc i..<n] (il, c, nv) = (il', c', nv')"
      using Suc.prems(5) False here by (simp add: upt Let_def)
    moreover have "\<not> flagged fl (?r ! j)" if "c \<le> j" "j < Suc i" for j
      using that False Suc.prems(4) [of j] by (cases "j = i") auto
    ultimately show ?thesis
      using Suc.hyps(2) Suc.prems(1,3) i by (intro Suc.hyps(1) [of "Suc i" il c nv]) simp_all
  next
    case True
    have run: "sort_loop ds fl n cur [Suc i..<n] (?il, Suc c, u32 (nv + 1)) = (il', c', nv')"
      using Suc.prems(3,5) True here i by (simp add: upt Let_def u32_id)
    have out: "\<not> flagged fl (rotate cur ?il ! j)" if j: "Suc c \<le> j" "j < Suc i" for j
    proof -
      have c: "c < n" "c < i" using j i by auto
      note view = sort_step_view(1,2) [OF assms(1,2) Suc.prems(1) i c(1), where ds = ds and sz = ?sz]
      have "rotate cur ?il ! j = drop (Suc c) (rotate cur ?il) ! (j - Suc c)"
        using j i view(1) by simp
      also have "\<dots> = swap_at c i ?r ! j"
        using j i view(1,2) Suc.prems(1) by simp
      also have "\<dots> = (if j = i then ?r ! c else ?r ! j)"
        using j i c Suc.prems(1) by (auto simp: swap_at_def nth_list_update)
      finally show ?thesis
        using Suc.prems(4) [of c] Suc.prems(4) [of j] j c by (cases "j = i") auto
    qed
    have "Suc c \<le> c' \<and> (\<forall>k. c' \<le> k \<longrightarrow> k < n \<longrightarrow> \<not> flagged fl (rotate cur il' ! k))"
      using Suc.hyps(2) Suc.prems(1,3) i out run
      by (intro Suc.hyps(1) [of "Suc i" ?il "Suc c" "u32 (nv + 1)"]) simp_all
    then show ?thesis by auto
  qed
qed

text \<open>
  A flagged variable at a position before \<open>currentChangePos\<close> is exchanged to that position,
  and then at every later \<open>i\<close> to the next one: the count ends beyond the number of variables.
  With variables of one size the inner loop leaves the queue as it is.
\<close>

lemma push_forward_same:
  "(\<And>k. k < n \<Longrightarrow> value_bytes (ds ! k) = sz) \<Longrightarrow> 0 < n \<Longrightarrow> push_forward ds n cur sz j il = il"
  by (cases j) (simp_all add: Let_def prev_index_less)

lemma sort_loop_chase:
  assumes "cur < n" "n < 2147483648" "\<And>k. k < n \<Longrightarrow> value_bytes (ds ! k) = sz"
    and "length il = n" "i < n" "\<And>k. k < n \<Longrightarrow> flagged fl (rotate cur il ! k) \<longleftrightarrow> k = i"
  shows "fst (snd (sort_loop ds fl n cur [i..<n] (il, Suc i, nv))) = Suc n"
  using assms(4-6)
proof (induction "n - i" arbitrary: i il nv)
  case 0
  then show ?case by simp
next
  case (Suc d)
  let ?r = "rotate cur il" and ?il = "swap_at (queue_pos n cur (Suc i)) (queue_pos n cur i) il"
  have "il ! queue_pos n cur i = ?r ! i"
    using assms(1,2) Suc.prems by (simp add: queue_pos_eq nth_rotate)
  then have run: "sort_loop ds fl n cur [i..<n] (il, Suc i, nv)
      = sort_loop ds fl n cur [Suc i..<n] (?il, Suc (Suc i), u32 (nv + 1))"
    using Suc.prems assms(1-3) by (simp add: upt_conv_Cons Let_def push_forward_same [of n ds sz] u32_id del: push_forward.simps)
  show ?case
  proof (cases "Suc i < n")
    case False
    then show ?thesis using run Suc.prems(2) by simp
  next
    case True
    have "rotate cur ?il = swap_at (Suc i) i ?r"
      using assms(1,2) Suc.prems(1) True by (simp add: queue_pos_eq rotate_swap_at del: add_Suc_right)
    then have "flagged fl (rotate cur ?il ! k) \<longleftrightarrow> k = Suc i" if "k < n" for k
      using that True Suc.prems by (auto simp: swap_at_def nth_list_update)
    then show ?thesis
      unfolding run using Suc.hyps(2) Suc.prems(1) True by (intro Suc.hyps(1)) simp_all
  qed
qed

lemma sort_loop_again:
  assumes "cur < n" "n < 2147483648" "\<And>k. k < n \<Longrightarrow> value_bytes (ds ! k) = sz"
    and "length il = n" "p < a" "a < n" "\<And>k. k < n \<Longrightarrow> flagged fl (rotate cur il ! k) \<longleftrightarrow> k = p"
  shows "fst (snd (sort_loop ds fl n cur [0..<n] (il, a, nv))) = Suc n"
proof -
  let ?r = "rotate cur il" and ?il = "swap_at (queue_pos n cur a) (queue_pos n cur p) il"
  have at: "xs ! queue_pos n cur k = rotate cur xs ! k" if "k < n" "length xs = n" for k xs
    using that assms(1,2) by (simp add: queue_pos_eq nth_rotate)
  have "[0..<n] = [0..<p] @ p # [Suc p..<a] @ [a..<n]"
    using assms(5,6) upt_add_eq_append [of 0 p "n - p"] upt_add_eq_append [of "Suc p" a "n - a"]
    by (simp add: upt_conv_Cons)
  moreover have "sort_loop ds fl n cur ([0..<p] @ p # [Suc p..<a] @ [a..<n]) (il, a, nv)
      = sort_loop ds fl n cur (p # [Suc p..<a] @ [a..<n]) (il, a, nv)"
    using assms(4-7) by (intro sort_loop_skip) (simp add: at)
  ultimately have "sort_loop ds fl n cur [0..<n] (il, a, nv)
      = sort_loop ds fl n cur (p # [Suc p..<a] @ [a..<n]) (il, a, nv)" by simp
  also have "\<dots> = sort_loop ds fl n cur ([Suc p..<a] @ [a..<n]) (?il, Suc a, u32 (nv + 1))"
    using assms at [of p il] by (simp add: Let_def push_forward_same [of n ds sz] u32_id del: push_forward.simps)
  finally have run: "sort_loop ds fl n cur [0..<n] (il, a, nv)
      = sort_loop ds fl n cur ([Suc p..<a] @ [a..<n]) (?il, Suc a, u32 (nv + 1))" .
  have rot: "rotate cur ?il = swap_at a p ?r"
    using assms(1,2,4-6) by (simp add: queue_pos_eq rotate_swap_at)
  have fl: "flagged fl (rotate cur ?il ! k) \<longleftrightarrow> k = a" if "k < n" for k
    using that assms(4-7) unfolding rot by (auto simp: swap_at_def nth_list_update)
  have "sort_loop ds fl n cur ([Suc p..<a] @ [a..<n]) (?il, Suc a, u32 (nv + 1))
      = sort_loop ds fl n cur [a..<n] (?il, Suc a, u32 (nv + 1))"
    using assms(4,6) fl by (intro sort_loop_skip) (simp add: at)
  then show ?thesis
    unfolding run using assms fl by (simp add: sort_loop_chase [of cur n ds sz ?il a fl])
qed

subsection \<open>How many variables fit\<close>

definition queue_size :: "pv_desc list \<Rightarrow> nat \<Rightarrow> nat \<Rightarrow> nat \<Rightarrow> nat" where
  "queue_size ds n cur k = value_bytes (ds ! queue_pos n cur k)"

lemma bandwidth_loop_le:
  "k \<le> v \<Longrightarrow> bandwidth_loop ds n cur m v k t \<le> v"
proof (induction ds n cur m v k t rule: bandwidth_loop.induct)
  case (1 ds n cur m v k t)
  then show ?case
    by (subst bandwidth_loop.simps) (auto simp: Let_def)
qed

text \<open>What is sent fits, and one variable more would not have exceeded the limit by itself.\<close>

lemma bandwidth_loop_fits:
  assumes "\<And>l. l \<le> v \<Longrightarrow> (\<Sum>j<l. queue_size ds n cur j) < 4294967296"
    and "k \<le> v" "t = (\<Sum>j<k. queue_size ds n cur j)" "t \<le> m"
  shows "(\<Sum>j<bandwidth_loop ds n cur m v k t. queue_size ds n cur j) \<le> m"
  using assms(2-4)
proof (induction "v - k" arbitrary: k t)
  case 0
  then show ?case by (subst bandwidth_loop.simps) simp
next
  case (Suc d)
  then have k: "k < v" by simp
  have t1: "u32 (t + value_bytes (ds ! queue_pos n cur k)) = (\<Sum>j<Suc k. queue_size ds n cur j)"
    using assms(1) [of "Suc k"] k Suc.prems(2) by (simp add: u32_id queue_size_def)
  show ?case
  proof (cases "(\<Sum>j<Suc k. queue_size ds n cur j) > m")
    case True
    have "(\<Sum>j<k - 1. queue_size ds n cur j) \<le> (\<Sum>j<k. queue_size ds n cur j)"
      by (intro sum_mono2) auto
    then show ?thesis
      using True k t1 Suc.prems(2,3) by (subst bandwidth_loop.simps) (simp add: Let_def)
  next
    case False
    have "(\<Sum>j<bandwidth_loop ds n cur m v (Suc k) (\<Sum>j<Suc k. queue_size ds n cur j).
        queue_size ds n cur j) \<le> m"
      using Suc.hyps(2) k False by (intro Suc.hyps(1)) simp_all
    then show ?thesis
      using False k t1 by (subst bandwidth_loop.simps) (simp add: Let_def)
  qed
qed

text \<open>When all fit, all are sent.\<close>

lemma bandwidth_loop_all:
  assumes "(\<Sum>j<v. queue_size ds n cur j) \<le> m" "m < 4294967296"
    and "k \<le> v" "t = (\<Sum>j<k. queue_size ds n cur j)"
  shows "bandwidth_loop ds n cur m v k t = v"
  using assms(3,4)
proof (induction "v - k" arbitrary: k t)
  case 0
  then show ?case by (subst bandwidth_loop.simps) simp
next
  case (Suc d)
  then have k: "k < v" by simp
  have le: "(\<Sum>j<Suc k. queue_size ds n cur j) \<le> m"
  proof -
    have "(\<Sum>j<Suc k. queue_size ds n cur j) \<le> (\<Sum>j<v. queue_size ds n cur j)"
      using k by (intro sum_mono2) auto
    then show ?thesis using assms(1) by simp
  qed
  have "u32 (t + value_bytes (ds ! queue_pos n cur k)) = (\<Sum>j<Suc k. queue_size ds n cur j)"
    using le assms(2) Suc.prems(2) by (simp add: u32_id queue_size_def)
  moreover have "bandwidth_loop ds n cur m v (Suc k) (\<Sum>j<Suc k. queue_size ds n cur j) = v"
    using Suc.hyps(2) k by (intro Suc.hyps(1)) simp_all
  ultimately show ?case using k le by (subst bandwidth_loop.simps) (simp add: Let_def)
qed

text \<open>When the second variable does not fit, none is sent.\<close>

lemma bandwidth_loop_starves:
  assumes "2 \<le> v" "queue_size ds n cur 0 + queue_size ds n cur 1 < 4294967296"
    and "m < queue_size ds n cur 0 + queue_size ds n cur 1"
  shows "bandwidth_loop ds n cur m v 0 0 = 0"
  using assms
  by (subst bandwidth_loop.simps, subst bandwidth_loop.simps)
    (simp add: Let_def queue_size_def u32_id)

end
