(* ===== verification/SenderTheorems.thy ===== *)
theory SenderTheorems
  imports SenderSort SubscriberTheorems
begin

section \<open>What the sender's main thread guarantees\<close>

text \<open>
  The properties of \<open>PrioritySenderCycleLoop\<close>: the queue stays a permutation of the
  variables, changed variables are served first, everything is sent in turn after a reset,
  the bandwidth limit, and the situations in which the loop does not do what it is for.
\<close>

subsection \<open>The invariant of the main thread\<close>

definition queue_ok :: "sender \<Rightarrow> bool" where
  "queue_ok P \<longleftrightarrow> 0 < numberOfVariables_s P \<and> numberOfVariables_s P < 2147483648
     \<and> length (indexList_s P) = numberOfVariables_s P
     \<and> mset (indexList_s P) = mset [0..<numberOfVariables_s P]
     \<and> currentIdx_s P < numberOfVariables_s P"

text \<open>The sender and its data source fit together.\<close>

definition linked :: "subscriber \<Rightarrow> sender \<Rightarrow> bool" where
  "linked S P \<longleftrightarrow> layout_ok S \<and> numberOfVariables_s P = numberOfVariables_e S
     \<and> length (memory_s P) = GetTotalMemorySize S
     \<and> length (changeFlag_s P) = numberOfVariables_s P"

lemma sort_phase_queue:
  assumes "queue_ok P" "sort_phase ds ck m P = (nv, P')"
  shows "queue_ok P' \<and> P' = P\<lparr>indexList_s := indexList_s P', currentChangePos_s := currentChangePos_s P',
    chunckCounter_s := chunckCounter_s P'\<rparr>"
proof (cases "ck \<ge> numberOfChunks_s P")
  case False
  then show ?thesis using assms by (auto simp: sort_phase_def queue_ok_def)
next
  case True
  obtain il ccp k where s: "sort_loop ds (changeFlag_s P) (numberOfVariables_s P) (currentIdx_s P)
      [0..<numberOfVariables_s P] (indexList_s P, currentChangePos_s P, currentChangePos_s P) = (il, ccp, k)"
    by (metis prod_cases3)
  have "P' = P\<lparr>indexList_s := il, currentChangePos_s := ccp\<rparr>"
    using assms(2) True s by (simp add: sort_phase_def)
  moreover have "length il = numberOfVariables_s P" "mset il = mset (indexList_s P)"
    using sort_loop_mset [OF _ _ s] assms(1) by (auto simp: queue_ok_def)
  ultimately show ?thesis using assms(1) by (simp add: queue_ok_def)
qed

definition window_size :: "sender \<Rightarrow> nat" where
  "window_size P = u32 (numberOfSignalToBeSent_s P * numberOfPoolThreads_s P)"

text \<open>The number of variables that a cycle sends.\<close>

definition sent_count :: "pv_desc list \<Rightarrow> sender \<Rightarrow> nat \<Rightarrow> nat" where
  "sent_count ds P nv = bandwidth_loop ds (numberOfVariables_s P) (currentIdx_s P) (maxBytesPerCycle_s P)
     (if sendOnlyChanged_s P = 0 then window_size P else min nv (window_size P)) 0 0"

lemma sent_count_le: "sent_count ds P nv \<le> window_size P"
  by (auto simp: sent_count_def intro: order_trans [OF bandwidth_loop_le])

lemma limit_phase_eq:
  assumes "numberOfVariables_s P \<noteq> 0"
  shows "limit_phase ds (window_size P) c nv P =
    Inr (if currentChangePos_s P - sent_count ds P nv > u32_sub (numberOfVariables_s P) (window_size P)
            \<or> sendCounter_c c \<ge> resetCounter_s P
         then P\<lparr>currentChangePos_s := 0, chunckCounter_s := 0\<rparr>
         else P\<lparr>currentChangePos_s := currentChangePos_s P - sent_count ds P nv\<rparr>,
         c\<lparr>changed_c := True, nVariables_c := sent_count ds P nv\<rparr>)"
proof -
  have v: "(let nVariables = if sendOnlyChanged_s P = 0 then window_size P else nv
      in if nVariables > window_size P then window_size P else nVariables)
    = (if sendOnlyChanged_s P = 0 then window_size P else min nv (window_size P))"
    by (simp add: Let_def min_def)
  have c: "(if currentChangePos_s P > k then currentChangePos_s P - k else 0) = currentChangePos_s P - k" for k
    by simp
  show ?thesis
    using assms unfolding limit_phase_def Let_def v [unfolded Let_def] c
    by (simp add: sent_count_def)
qed

text \<open>A cycle from a good state: \<open>P1\<close> is the state after the sorting.\<close>

lemma prepare_cycle_eq:
  assumes "marte_lib L" "linked S P" "queue_ok P"
    and sp: "sort_phase (pvDescriptor_e S) ck (window_size P)
      (P\<lparr>memory_s := concat (memory_e S), changeFlag_s := changedFlagMem_e S\<rparr>) = (nv, P1)"
  shows "prepare_cycle L ck S P c =
     (case limit_phase (pvDescriptor_e S) (window_size P1) c nv P1 of
        Inl e \<Rightarrow> Inl e
      | Inr (P2, c1) \<Rightarrow> Inr (S\<lparr>changedFlagMem_e := replicate (numberOfVariables_e S) 0\<rparr>, P2, c1))"
    and "queue_ok P1"
    and "P1 = P\<lparr>memory_s := concat (memory_e S), changeFlag_s := changedFlagMem_e S,
      indexList_s := indexList_s P1, currentChangePos_s := currentChangePos_s P1,
      chunckCounter_s := chunckCounter_s P1\<rparr>"
proof -
  let ?P0 = "P\<lparr>memory_s := concat (memory_e S), changeFlag_s := changedFlagMem_e S\<rparr>"
  have sy: "Synchronise_e L (memory_s P) (changeFlag_s P) S = Inr (concat (memory_e S),
      changedFlagMem_e S, S\<lparr>changedFlagMem_e := replicate (numberOfVariables_e S) 0\<rparr>)"
    using assms(2) by (intro marte_lib.Synchronise_e_eq [OF assms(1)]) (auto simp: linked_def)
  have "queue_ok ?P0" using assms(3) by (simp add: queue_ok_def)
  then show "queue_ok P1" and P1: "P1 = P\<lparr>memory_s := concat (memory_e S), changeFlag_s := changedFlagMem_e S,
      indexList_s := indexList_s P1, currentChangePos_s := currentChangePos_s P1,
      chunckCounter_s := chunckCounter_s P1\<rparr>"
    using sort_phase_queue [OF _ sp] by auto
  have w: "window_size P1 = window_size P" by (subst P1) (simp add: window_size_def)
  show "prepare_cycle L ck S P c =
     (case limit_phase (pvDescriptor_e S) (window_size P1) c nv P1 of
        Inl e \<Rightarrow> Inl e
      | Inr (P2, c1) \<Rightarrow> Inr (S\<lparr>changedFlagMem_e := replicate (numberOfVariables_e S) 0\<rparr>, P2, c1))"
    using sp unfolding prepare_cycle_def sy w by (simp add: window_size_def GetPvDescriptors_def)
qed

lemma sort_phase_total: "\<exists>nv P1. sort_phase ds ck m P = (nv, P1)"
  by (cases "sort_phase ds ck m P") blast

lemma layout_flags:
  "layout_ok S \<Longrightarrow> length fl = numberOfVariables_e S \<Longrightarrow> layout_ok (S\<lparr>changedFlagMem_e := fl\<rparr>)"
proof -
  have "pv_placed (S\<lparr>changedFlagMem_e := fl\<rparr>) d = pv_placed S d" for d
    by (simp add: pv_placed_def)
  then show "layout_ok S \<Longrightarrow> length fl = numberOfVariables_e S \<Longrightarrow> ?thesis"
    unfolding layout_ok_def by auto
qed

lemma layout_memory_size:
  "layout_ok S \<Longrightarrow> GetTotalMemorySize S = length (concat (memory_e S))"
  by (simp add: layout_ok_def GetTotalMemorySize_def length_concat)

lemma linked_after:
  assumes "linked S P" "numberOfVariables_s P' = numberOfVariables_s P"
    and "memory_s P' = concat (memory_e S)" "changeFlag_s P' = changedFlagMem_e S"
  shows "linked (S\<lparr>changedFlagMem_e := replicate (numberOfVariables_e S) 0\<rparr>) P'"
proof -
  have lay: "layout_ok S" using assms(1) by (simp add: linked_def)
  let ?S = "S\<lparr>changedFlagMem_e := replicate (numberOfVariables_e S) 0\<rparr>"
  have l: "layout_ok ?S" by (rule layout_flags [OF lay]) simp
  have "length (changedFlagMem_e S) = numberOfVariables_e S" using lay by (simp add: layout_ok_def)
  then show ?thesis
    using assms l layout_memory_size [OF l] by (simp add: linked_def)
qed

lemma cycle_total:
  assumes "marte_lib L" and "linked S P" and "queue_ok P"
  shows "\<exists>S' P' c'. cycle_body L now ck nThreadsFinishedTmp S P c = Inr (S', P', c')
    \<and> linked S' P' \<and> queue_ok P'"
proof -
  have "\<exists>S1 P1 c1. (if changed_c c then Inr (S, P, c) else prepare_cycle L ck S P c) = Inr (S1, P1, c1)
      \<and> linked S1 P1 \<and> queue_ok P1"
  proof (cases "changed_c c")
    case False
    obtain nv P1 where sp: "sort_phase (pvDescriptor_e S) ck (window_size P)
        (P\<lparr>memory_s := concat (memory_e S), changeFlag_s := changedFlagMem_e S\<rparr>) = (nv, P1)"
      using sort_phase_total by blast
    note prep = prepare_cycle_eq(1) [OF assms sp, of c] prepare_cycle_eq(2,3) [OF assms sp]
    have n: "numberOfVariables_s P1 \<noteq> 0" using prep(2) by (simp add: queue_ok_def)
    have lk: "linked (S\<lparr>changedFlagMem_e := replicate (numberOfVariables_e S) 0\<rparr>) P1"
      by (rule linked_after [OF assms(2)]; subst prep(3), simp)
    show ?thesis
      using False prep(1,2) lk by (simp add: limit_phase_eq [OF n] linked_def queue_ok_def)
  qed (use assms in simp)
  then obtain S1 P1 c1 where s1: "(if changed_c c then Inr (S, P, c) else prepare_cycle L ck S P c)
      = Inr (S1, P1, c1)" "linked S1 P1" "queue_ok P1"
    by blast
  then show ?thesis
    by (cases "nThreadsFinishedTmp = numberOfPoolThreads_s P1")
      (simp_all add: cycle_body_def hand_over_def linked_def queue_ok_def)
qed

text \<open>
  (C13) A turn of the main loop never faults and keeps the queue a permutation of the
  variables, whatever has changed, has been sent or is still being sent.
\<close>

theorem cycle_keeps_queue:
  assumes "marte_lib L" and "linked S P" and "queue_ok P"
  shows "\<exists>S' P' c'. cycle_body L now ck nThreadsFinishedTmp S P c = Inr (S', P', c')
    \<and> linked S' P' \<and> queue_ok P'"
  by (rule cycle_total [OF assms])

text \<open>An example: the sender of the running subscriber with its two variables.\<close>

definition ex_sender :: sender where
  "ex_sender = PrioritySender\<lparr>numberOfPoolThreads_s := 1, numberOfSignalToBeSent_s := 2,
     numberOfVariables_s := 2, indexList_s := [0, 1], indexListThreads_s := [0, 1],
     memory_s := replicate 24 0, memoryThreads_s := replicate 24 0, changeFlag_s := [0, 0],
     totalMemorySize_s := 24, numberOfChunks_s := 1, chunckCounter_s := 1\<rparr>"

lemma ex_sender_fields [simp]:
  "numberOfVariables_s ex_sender = 2" "numberOfPoolThreads_s ex_sender = 1"
  "indexList_s ex_sender = [0, 1]" "currentIdx_s ex_sender = 0" "currentChangePos_s ex_sender = 0"
  "numberOfChunks_s ex_sender = 1" "memory_s ex_sender = replicate 24 0" "changeFlag_s ex_sender = [0, 0]"
  "numberOfSignalToBeSent_s ex_sender = 2" "resetCounter_s ex_sender = 120"
  "maxBytesPerCycle_s ex_sender = 4294967295" "sendOnlyChanged_s ex_sender = 0"
  "indexListThreads_s ex_sender = [0, 1]" "memoryThreads_s ex_sender = replicate 24 0"
  "maxVarSize_s ex_sender = 4294967295" "chunkSize_s ex_sender = 1"
  by (simp_all add: ex_sender_def PrioritySender_def)

lemma ex_queue_ok: "queue_ok ex_sender"
  by (simp add: queue_ok_def upt_rec)

lemma ex_linked: "linked ex_running ex_sender"
  using ex_running_ok by (simp add: linked_def GetTotalMemorySize_def)

theorem cycle_keeps_queue_witness:
  "\<exists>S' P' c'. cycle_body ref_marte 7 1 1 ex_running ex_sender cycle_start = Inr (S', P', c')
    \<and> linked S' P' \<and> queue_ok P'"
  by (rule cycle_keeps_queue [OF ref.marte_lib_axioms ex_linked ex_queue_ok])

subsection \<open>Changed variables first\<close>

definition changed_vars :: "subscriber \<Rightarrow> nat list" where
  "changed_vars S = filter (\<lambda>i. changedFlagMem_e S ! i = 1) [0..<numberOfVariables_e S]"

lemma changed_at:
  assumes "linked S P" "queue_ok P" "k < numberOfVariables_s P"
  shows "flagged (changedFlagMem_e S) (rotate (currentIdx_s P) (indexList_s P) ! k)
    \<longleftrightarrow> rotate (currentIdx_s P) (indexList_s P) ! k \<in> set (changed_vars S)"
proof -
  have "rotate (currentIdx_s P) (indexList_s P) ! k \<in> set (indexList_s P)"
    using assms(2,3) nth_mem [of k "rotate (currentIdx_s P) (indexList_s P)"] by (simp add: queue_ok_def)
  also have "set (indexList_s P) = {..<numberOfVariables_s P}"
    using assms(2) by (metis queue_ok_def set_mset_mset atLeast0LessThan set_upt)
  finally show ?thesis using assms(1) by (simp add: changed_vars_def linked_def)
qed

lemma distinct_queue: "queue_ok P \<Longrightarrow> distinct (rotate k (indexList_s P))"
  by (metis distinct_rotate distinct_upt mset_eq_imp_distinct_iff queue_ok_def)

text \<open>
  The first positions after the sorting: the variables left over and the changed ones.
\<close>

lemma sort_phase_window:
  assumes "linked S P" and "queue_ok P" and "numberOfChunks_s P \<le> ck"
    and "currentChangePos_s P \<le> numberOfVariables_s P"
    and "set (take (currentChangePos_s P) (rotate (currentIdx_s P) (indexList_s P))) \<inter> set (changed_vars S) = {}"
    and sp: "sort_phase (pvDescriptor_e S) ck m
      (P\<lparr>memory_s := concat (memory_e S), changeFlag_s := changedFlagMem_e S\<rparr>) = (nv, P1)"
  shows "currentChangePos_s P1 = currentChangePos_s P + length (changed_vars S)"
    and "mset (take (currentChangePos_s P + length (changed_vars S)) (rotate (currentIdx_s P) (indexList_s P1)))
      = mset (take (currentChangePos_s P) (rotate (currentIdx_s P) (indexList_s P))) + mset (changed_vars S)"
proof -
  let ?n = "numberOfVariables_s P" and ?cur = "currentIdx_s P" and ?fl = "changedFlagMem_e S"
  let ?a = "currentChangePos_s P" and ?r = "rotate ?cur (indexList_s P)"
  obtain il ccp k where sl: "sort_loop (pvDescriptor_e S) ?fl ?n ?cur [0..<?n] (indexList_s P, ?a, ?a) = (il, ccp, k)"
    by (metis prod_cases3)
  have P1: "indexList_s P1 = il" "currentChangePos_s P1 = ccp"
    using sp sl assms(3) by (auto simp: sort_phase_def)
  have q: "?cur < ?n" "?n < 2147483648" "length (indexList_s P) = ?n"
      "mset (indexList_s P) = mset [0..<?n]"
    using assms(2) by (auto simp: queue_ok_def)
  have cs: "mset (filter (flagged ?fl) ?r) = mset (changed_vars S)"
    using q(4) assms(1) by (simp add: mset_rotate changed_vars_def linked_def)
  then have len: "length (filter (flagged ?fl) ?r) = length (changed_vars S)"
    by (metis size_mset)
  have "\<not> flagged ?fl (?r ! j)" if "j < ?a" for j
  proof -
    have "?r ! j \<in> set (take ?a ?r)"
      using that assms(4) q(3) by (auto simp: in_set_conv_nth intro!: exI [of _ j])
    then show ?thesis using assms(4,5) that changed_at [OF assms(1,2), of j] by auto
  qed
  then have "ccp = ?a + length (changed_vars S)
      \<and> mset (take ccp (rotate ?cur il)) = mset (take ?a ?r) + mset (changed_vars S)"
    using sort_loop_window [OF q(1-3) assms(4) _ sl] unfolding cs len by blast
  then show "currentChangePos_s P1 = ?a + length (changed_vars S)"
      "mset (take (?a + length (changed_vars S)) (rotate ?cur (indexList_s P1)))
        = mset (take ?a ?r) + mset (changed_vars S)"
    using P1 by auto
qed

text \<open>The changed variables are in front after the sorting.\<close>

lemma sort_phase_front:
  assumes "linked S P" and "queue_ok P" and "numberOfChunks_s P \<le> ck" and "currentChangePos_s P = 0"
    and sp: "sort_phase (pvDescriptor_e S) ck m
      (P\<lparr>memory_s := concat (memory_e S), changeFlag_s := changedFlagMem_e S\<rparr>) = (nv, P1)"
  shows "mset (take (length (changed_vars S)) (rotate (currentIdx_s P) (indexList_s P1)))
    = mset (changed_vars S)"
  using sort_phase_window(2) [OF assms(1-3) _ _ sp] assms(4) by simp

text \<open>
  (C14) When the initial round is over and no changed variable is left from earlier cycles,
  the sorting brings exactly the variables reported as changed to the front of the queue.
\<close>

theorem changed_variables_come_first:
  assumes "marte_lib L" and "linked S P" and "queue_ok P" and "numberOfChunks_s P \<le> ck"
    and "currentChangePos_s P = 0"
  shows "\<exists>S' P' c'. prepare_cycle L ck S P c = Inr (S', P', c') \<and> currentIdx_s P' = currentIdx_s P
    \<and> mset (take (length (changed_vars S)) (rotate (currentIdx_s P') (indexList_s P')))
      = mset (changed_vars S)"
proof -
  obtain nv P1 where sp: "sort_phase (pvDescriptor_e S) ck (window_size P)
        (P\<lparr>memory_s := concat (memory_e S), changeFlag_s := changedFlagMem_e S\<rparr>) = (nv, P1)"
    using sort_phase_total by blast
  note prep = prepare_cycle_eq(1) [OF assms(1-3) sp, of c] prepare_cycle_eq(2,3) [OF assms(1-3) sp]
  have "numberOfVariables_s P1 \<noteq> 0" using prep(2) by (simp add: queue_ok_def)
  moreover have "currentIdx_s P1 = currentIdx_s P" by (subst prep(3)) simp
  ultimately show ?thesis
    using prep(1) sort_phase_front [OF assms(2-5) sp] by (simp add: limit_phase_eq)
qed

theorem changed_variables_come_first_witness:
  "\<exists>S' P' c'. prepare_cycle ref_marte 1 (ex_running\<lparr>changedFlagMem_e := [0, 1]\<rparr>) ex_sender cycle_start
      = Inr (S', P', c') \<and> currentIdx_s P' = 0
    \<and> mset (take 1 (rotate (currentIdx_s P') (indexList_s P'))) = mset [1]"
proof -
  let ?S = "ex_running\<lparr>changedFlagMem_e := [0, 1]\<rparr>"
  have "layout_ok ?S"
    by (rule layout_flags [OF ex_running_ok]) simp
  then have "linked ?S ex_sender" by (simp add: linked_def GetTotalMemorySize_def)
  moreover have "changed_vars ?S = [1]" by (simp add: changed_vars_def upt_rec)
  ultimately show ?thesis
    using changed_variables_come_first [OF ref.marte_lib_axioms _ ex_queue_ok, of ?S 1 cycle_start] by simp
qed

text \<open>
  (C15) Let \<open>a\<close> variables be left over from earlier cycles, none of them changed again, and
  let \<open>w\<close> be \<open>a\<close> plus the number of the changed variables. After the sorting the first
  \<open>w\<close> positions of the queue hold exactly the variables left over and the changed ones.
  Those of them that are not sent now are counted for the next cycle, unless they are more
  than the loop accepts, or the rounds are due: then everything is sent in turn again.
\<close>

theorem changed_variables_in_window:
  assumes "marte_lib L" and "linked S P" and "queue_ok P" and "numberOfChunks_s P \<le> ck"
    and "currentChangePos_s P \<le> numberOfVariables_s P"
    and "set (take (currentChangePos_s P) (rotate (currentIdx_s P) (indexList_s P))) \<inter> set (changed_vars S) = {}"
  shows "\<exists>S' P' c'. prepare_cycle L ck S P c = Inr (S', P', c') \<and> currentIdx_s P' = currentIdx_s P
    \<and> mset (take (currentChangePos_s P + length (changed_vars S)) (rotate (currentIdx_s P') (indexList_s P')))
      = mset (take (currentChangePos_s P) (rotate (currentIdx_s P) (indexList_s P))) + mset (changed_vars S)
    \<and> (let left = currentChangePos_s P + length (changed_vars S) - nVariables_c c'
       in if left > u32_sub (numberOfVariables_s P) (window_size P) \<or> sendCounter_c c \<ge> resetCounter_s P
          then currentChangePos_s P' = 0 \<and> chunckCounter_s P' = 0
          else currentChangePos_s P' = left \<and> chunckCounter_s P' = chunckCounter_s P)"
proof -
  obtain nv P1 where sp: "sort_phase (pvDescriptor_e S) ck (window_size P)
        (P\<lparr>memory_s := concat (memory_e S), changeFlag_s := changedFlagMem_e S\<rparr>) = (nv, P1)"
    using sort_phase_total by blast
  note prep = prepare_cycle_eq(1) [OF assms(1-3) sp, of c] prepare_cycle_eq(2,3) [OF assms(1-3) sp]
  have n: "numberOfVariables_s P1 \<noteq> 0" using prep(2) by (simp add: queue_ok_def)
  have f: "currentIdx_s P1 = currentIdx_s P" "numberOfVariables_s P1 = numberOfVariables_s P"
      "window_size P1 = window_size P" "resetCounter_s P1 = resetCounter_s P"
    by (subst prep(3), simp add: window_size_def)+
  have "chunckCounter_s P1 = chunckCounter_s P"
    using sp assms(4) by (auto simp: sort_phase_def split: prod.splits)
  then show ?thesis
    unfolding prep(1) limit_phase_eq [OF n] using f sort_phase_window [OF assms(2-6) sp]
    by (simp add: Let_def)
qed

theorem changed_variables_in_window_witness:
  "\<exists>S' P' c'. prepare_cycle ref_marte 1 (ex_running\<lparr>changedFlagMem_e := [0, 1]\<rparr>)
        (ex_sender\<lparr>currentChangePos_s := 1\<rparr>) cycle_start = Inr (S', P', c')
    \<and> currentIdx_s P' = 0 \<and> mset (take 2 (rotate 0 (indexList_s P'))) = mset [0] + mset [1]"
proof -
  let ?S = "ex_running\<lparr>changedFlagMem_e := [0, 1]\<rparr>"
  let ?P = "ex_sender\<lparr>currentChangePos_s := 1\<rparr>"
  have "layout_ok ?S" by (rule layout_flags [OF ex_running_ok]) simp
  then have l: "linked ?S ?P" by (simp add: linked_def GetTotalMemorySize_def)
  have q: "queue_ok ?P" using ex_queue_ok by (simp add: queue_ok_def)
  have v: "changed_vars ?S = [1]" by (simp add: changed_vars_def upt_rec)
  show ?thesis
    using changed_variables_in_window [OF ref.marte_lib_axioms l q, of 1 cycle_start] v
    by (auto simp: numeral_2_eq_2)
qed

text \<open>
  (C40) A variable left over from an earlier cycle that changes again before its turn comes is
  moved behind the variables left over, where the loop meets it again, and again at every
  further position. The count exceeds the number of variables, so the loop gives up the order
  and sends everything in turn again, however few variables have changed. Stated for
  variables of one size, where the inner loop exchanges nothing, and one variable changed.
\<close>

theorem waiting_variable_restarts_round:
  assumes "marte_lib L" and "linked S P" and "queue_ok P" and "numberOfChunks_s P \<le> ck"
    and "p < currentChangePos_s P" and "currentChangePos_s P < numberOfVariables_s P"
    and "changed_vars S = [rotate (currentIdx_s P) (indexList_s P) ! p]"
    and "\<And>i. i < numberOfVariables_s P \<Longrightarrow> value_bytes (GetPvDescriptors S ! i) = sz"
    and "window_size P \<le> numberOfVariables_s P"
  shows "\<exists>S' P' c'. prepare_cycle L ck S P c = Inr (S', P', c')
    \<and> currentChangePos_s P' = 0 \<and> chunckCounter_s P' = 0"
proof -
  let ?n = "numberOfVariables_s P" and ?cur = "currentIdx_s P" and ?fl = "changedFlagMem_e S"
  obtain nv P1 where sp: "sort_phase (pvDescriptor_e S) ck (window_size P)
        (P\<lparr>memory_s := concat (memory_e S), changeFlag_s := changedFlagMem_e S\<rparr>) = (nv, P1)"
    using sort_phase_total by blast
  note prep = prepare_cycle_eq(1) [OF assms(1-3) sp, of c] prepare_cycle_eq(2,3) [OF assms(1-3) sp]
  have n: "numberOfVariables_s P1 \<noteq> 0" using prep(2) by (simp add: queue_ok_def)
  have q: "?cur < ?n" "?n < 2147483648" "length (indexList_s P) = ?n"
      "mset (indexList_s P) = mset [0..<?n]"
    using assms(3) by (auto simp: queue_ok_def)
  have one: "flagged ?fl (rotate ?cur (indexList_s P) ! k) \<longleftrightarrow> k = p" if "k < ?n" for k
    using changed_at [OF assms(2,3) that] assms(5-7) that
      distinct_queue [OF assms(3)] by (simp add: nth_eq_iff_index_eq q(3))
  have "fst (snd (sort_loop (pvDescriptor_e S) ?fl ?n ?cur [0..<?n]
      (indexList_s P, currentChangePos_s P, currentChangePos_s P))) = Suc ?n"
    using assms(5,6,8) one by (intro sort_loop_again [OF q(1,2)]) (simp_all add: q(3) GetPvDescriptors_def)
  then have w: "currentChangePos_s P1 = Suc ?n"
    using sp assms(4) by (auto simp: sort_phase_def split: prod.splits)
  have f: "numberOfVariables_s P1 = ?n" "window_size P1 = window_size P"
    by (subst prep(3), simp add: window_size_def)+
  have "sent_count (pvDescriptor_e S) P1 nv \<le> window_size P"
    using sent_count_le [of "pvDescriptor_e S" P1 nv] f by simp
  then have "Suc ?n - sent_count (pvDescriptor_e S) P1 nv > u32_sub ?n (window_size P)"
    using assms(9) q(2) by (simp add: u32_sub_id)
  then show ?thesis
    unfolding prep(1) limit_phase_eq [OF n] using w f by simp
qed

theorem waiting_variable_restarts_round_witness:
  "\<exists>S' P' c'. prepare_cycle ref_marte 1 (ex_running\<lparr>changedFlagMem_e := [1, 0]\<rparr>)
        (ex_sender\<lparr>currentChangePos_s := 1\<rparr>) cycle_start = Inr (S', P', c')
    \<and> currentChangePos_s P' = 0 \<and> chunckCounter_s P' = 0"
proof -
  let ?S = "ex_running\<lparr>changedFlagMem_e := [1, 0]\<rparr>"
  let ?P = "ex_sender\<lparr>currentChangePos_s := 1\<rparr>"
  have "layout_ok ?S" by (rule layout_flags [OF ex_running_ok]) simp
  then have l: "linked ?S ?P" by (simp add: linked_def GetTotalMemorySize_def)
  have q: "queue_ok ?P" using ex_queue_ok by (simp add: queue_ok_def)
  have v: "changed_vars ?S = [0]" by (simp add: changed_vars_def upt_rec)
  show ?thesis
    using v by (intro waiting_variable_restarts_round [OF ref.marte_lib_axioms l q, of 1 0 4])
      (auto simp: window_size_def u32_id GetPvDescriptors_def less_2_cases_iff)
qed

end
