(* ===== verification/SenderRounds.thy ===== *)
theory SenderRounds
  imports SenderTheorems
begin

section \<open>Several turns of the sender's main thread\<close>

text \<open>
  A run of turns in which the sending threads have always finished: what is handed over to
  them, that a round sends every variable, and two situations in which the loop does not do
  what it is for.
\<close>

text \<open>What the last handover asks the sending threads to send.\<close>

definition sent_now :: "sender \<Rightarrow> nat list" where
  "sent_now P = map (\<lambda>k. indexListThreads_s P ! queue_pos (numberOfVariables_s P) (currentIdxThreads_s P) k)
     [0..<numberOfChangedVariables_s P]"

text \<open>\<open>k\<close> turns without interference of the sending threads, and what each hands over.\<close>

fun run_cycles ::
  "marte \<Rightarrow> nat \<Rightarrow> subscriber \<Rightarrow> sender \<Rightarrow> cycle_locals
     \<Rightarrow> fault + nat list list \<times> subscriber \<times> sender \<times> cycle_locals" where
  "run_cycles L 0 S P c = Inr ([], S, P, c)"
| "run_cycles L (Suc k) S P c =
     (case cycle_body L 0 (chunckCounter_s P) (numberOfPoolThreads_s P) S P c of
        Inl e \<Rightarrow> Inl e
      | Inr (S, P, c) \<Rightarrow>
          (case run_cycles L k S P c of
             Inl e \<Rightarrow> Inl e
           | Inr (sent, r) \<Rightarrow> Inr (sent_now P # sent, r)))"

subsection \<open>One turn in terms of its phases\<close>

definition same_setup :: "sender \<Rightarrow> sender \<Rightarrow> bool" where
  "same_setup P P' \<longleftrightarrow> numberOfVariables_s P' = numberOfVariables_s P
     \<and> numberOfSignalToBeSent_s P' = numberOfSignalToBeSent_s P
     \<and> numberOfPoolThreads_s P' = numberOfPoolThreads_s P
     \<and> maxBytesPerCycle_s P' = maxBytesPerCycle_s P \<and> resetCounter_s P' = resetCounter_s P
     \<and> sendOnlyChanged_s P' = sendOnlyChanged_s P \<and> numberOfChunks_s P' = numberOfChunks_s P"

lemma same_setup_refl [simp]: "same_setup P P"
  by (simp add: same_setup_def)

lemma same_setup_trans: "same_setup P Q \<Longrightarrow> same_setup Q R \<Longrightarrow> same_setup P R"
  by (simp add: same_setup_def)

abbreviation synced :: "subscriber \<Rightarrow> sender \<Rightarrow> sender" where
  "synced S P \<equiv> P\<lparr>memory_s := concat (memory_e S), changeFlag_s := changedFlagMem_e S\<rparr>"

lemma sent_count_cong:
  "numberOfVariables_s P1 = numberOfVariables_s P \<Longrightarrow> currentIdx_s P1 = currentIdx_s P \<Longrightarrow>
   maxBytesPerCycle_s P1 = maxBytesPerCycle_s P \<Longrightarrow> sendOnlyChanged_s P1 = sendOnlyChanged_s P \<Longrightarrow>
   window_size P1 = window_size P \<Longrightarrow> sent_count ds P1 nv = sent_count ds P nv"
  by (simp add: sent_count_def)

text \<open>What the sending threads find after the handover.\<close>

definition handed :: "subscriber \<Rightarrow> sender \<Rightarrow> sender \<Rightarrow> nat \<Rightarrow> sender \<Rightarrow> bool" where
  "handed S P P1 k P' \<longleftrightarrow> memoryThreads_s P' = concat (memory_e S)
     \<and> indexListThreads_s P' = indexList_s P1 \<and> currentIdxThreads_s P' = currentIdx_s P
     \<and> numberOfChangedVariables_s P' = k \<and> chunkSize_s P' = chunkSize_s P
     \<and> maxVarSize_s P' = maxVarSize_s P"

lemma full_cycle:
  assumes "marte_lib L" "linked S P" "queue_ok P" "\<not> changed_c c"
    and sp: "sort_phase (pvDescriptor_e S) ck (window_size P) (synced S P) = (nv, P1)"
  obtains S' P' c' where "cycle_body L now ck (numberOfPoolThreads_s P) S P c = Inr (S', P', c')"
    and "linked S' P'" "queue_ok P'" "same_setup P P'" "\<not> changed_c c'"
    and "pvDescriptor_e S' = pvDescriptor_e S" "indexList_s P' = indexList_s P1"
    and "sendCounter_c c' = u32 (sendCounter_c c + 1)"
    and "sent_now P' = map (\<lambda>k. indexList_s P1 ! queue_pos (numberOfVariables_s P) (currentIdx_s P) k)
          [0..<sent_count (pvDescriptor_e S) P nv]"
    and "currentIdx_s P' = queue_pos (numberOfVariables_s P) (currentIdx_s P)
          (sent_count (pvDescriptor_e S) P nv)"
    and "currentChangePos_s P' \<le> currentChangePos_s P1 - sent_count (pvDescriptor_e S) P nv"
    and "chunckCounter_s P' = chunckCounter_s P1 \<or> chunckCounter_s P' = 0"
    and "resetCounter_s P \<le> sendCounter_c c \<Longrightarrow> chunckCounter_s P' = 0"
    and "S' = S\<lparr>changedFlagMem_e := replicate (numberOfVariables_e S) 0\<rparr>"
    and "handed S P P1 (sent_count (pvDescriptor_e S) P nv) P'"
proof -
  note prep = prepare_cycle_eq(1) [OF assms(1-3) sp, of c] prepare_cycle_eq(2,3) [OF assms(1-3) sp]
  have n: "numberOfVariables_s P1 \<noteq> 0" using prep(2) by (simp add: queue_ok_def)
  have f: "numberOfVariables_s P1 = numberOfVariables_s P" "currentIdx_s P1 = currentIdx_s P"
      "maxBytesPerCycle_s P1 = maxBytesPerCycle_s P" "sendOnlyChanged_s P1 = sendOnlyChanged_s P"
      "window_size P1 = window_size P" "numberOfPoolThreads_s P1 = numberOfPoolThreads_s P"
      "same_setup P P1" "resetCounter_s P1 = resetCounter_s P" "memory_s P1 = concat (memory_e S)"
      "changeFlag_s P1 = changedFlagMem_e S" "chunkSize_s P1 = chunkSize_s P" "maxVarSize_s P1 = maxVarSize_s P"
    by (subst prep(3), simp add: window_size_def same_setup_def)+
  have cnt: "sent_count (pvDescriptor_e S) P1 nv = sent_count (pvDescriptor_e S) P nv"
    by (rule sent_count_cong) (simp_all add: f)
  let ?S = "S\<lparr>changedFlagMem_e := replicate (numberOfVariables_e S) 0\<rparr>"
  have lk: "linked ?S P1" by (rule linked_after [OF assms(2)]) (simp_all add: f)
  define k where "k = sent_count (pvDescriptor_e S) P nv"
  define P2 where "P2 = (if currentChangePos_s P1 - k > u32_sub (numberOfVariables_s P) (window_size P)
      \<or> sendCounter_c c \<ge> resetCounter_s P
      then P1\<lparr>currentChangePos_s := 0, chunckCounter_s := 0\<rparr>
      else P1\<lparr>currentChangePos_s := currentChangePos_s P1 - k\<rparr>)"
  have "limit_phase (pvDescriptor_e S) (window_size P1) c nv P1
      = Inr (P2, c\<lparr>changed_c := True, nVariables_c := k\<rparr>)"
    using limit_phase_eq [OF n, of "pvDescriptor_e S" c nv] unfolding cnt f P2_def k_def .
  then have p2: "prepare_cycle L ck S P c = Inr (?S, P2, c\<lparr>changed_c := True, nVariables_c := k\<rparr>)"
    using prep(1) by simp
  have g: "numberOfVariables_s P2 = numberOfVariables_s P" "currentIdx_s P2 = currentIdx_s P"
      "numberOfPoolThreads_s P2 = numberOfPoolThreads_s P" "indexList_s P2 = indexList_s P1"
      "same_setup P P2" "linked ?S P2" "currentChangePos_s P2 \<le> currentChangePos_s P1 - k"
      "chunckCounter_s P2 = chunckCounter_s P1 \<or> chunckCounter_s P2 = 0"
      "resetCounter_s P \<le> sendCounter_c c \<Longrightarrow> chunckCounter_s P2 = 0"
      "memory_s P2 = concat (memory_e S)" "chunkSize_s P2 = chunkSize_s P" "maxVarSize_s P2 = maxVarSize_s P"
    using f lk by (simp_all add: P2_def same_setup_def linked_def)
  have q2: "queue_ok P2" using prep(2) by (simp add: P2_def queue_ok_def)
  have n2: "numberOfVariables_s P \<noteq> 0" using n f by simp
  let ?P3 = "P2\<lparr>nThreadsFinished_s := 0, memoryThreads_s := memory_s P2,
      indexListThreads_s := indexList_s P2, currentIdxThreads_s := currentIdx_s P2,
      currentIdx_s := u32 (currentIdx_s P2 + k) mod numberOfVariables_s P2,
      numberOfChangedVariables_s := k, eventSem_s := True, lastTickCounter_s := now\<rparr>"
  have run: "cycle_body L now ck (numberOfPoolThreads_s P) S P c
      = Inr (?S, ?P3, c\<lparr>changed_c := False, nVariables_c := k,
          sendCounter_c := u32 (sendCounter_c c + 1)\<rparr>)"
    using assms(4) n2 g(1,3) by (simp add: cycle_body_def p2 hand_over_def)
  show thesis
    by (rule that [OF run])
      (use g q2 n2 in \<open>simp_all add: linked_def queue_ok_def same_setup_def sent_now_def
         queue_pos_def k_def handed_def\<close>)
qed

subsection \<open>A round in turn\<close>

lemma rotate_as_map:
  "length xs = n \<Longrightarrow> map (\<lambda>k. xs ! ((cur + k) mod n)) [0..<n] = rotate cur xs"
  by (rule nth_equalityI) (simp_all add: nth_rotate)

lemma window_fits:
  assumes "cur < n" "n < 2147483648" "length ds = n" "w \<le> n"
  shows "(\<Sum>j<w. queue_size ds n cur j) \<le> (\<Sum>d\<leftarrow>ds. value_bytes d)"
proof -
  have "(\<Sum>j<n. queue_size ds n cur j) = (\<Sum>k\<leftarrow>[0..<n]. value_bytes (ds ! ((cur + k) mod n)))"
    using assms(1,2)
    by (auto simp: queue_size_def queue_pos_eq sum_list_sum_nth atLeast0LessThan intro!: sum.cong)
  also have "\<dots> = sum_list (map value_bytes (map (\<lambda>k. ds ! ((cur + k) mod n)) [0..<n]))"
    by (simp add: o_def)
  also have "\<dots> = (\<Sum>d\<leftarrow>rotate cur ds. value_bytes d)"
    by (simp only: rotate_as_map [OF assms(3)])
  also have "\<dots> = (\<Sum>d\<leftarrow>ds. value_bytes d)"
    by (metis mset_map mset_rotate sum_mset_sum_list)
  finally show ?thesis
    using sum_mono2 [of "{..<n}" "{..<w}" "queue_size ds n cur"] assms(4) by simp
qed

text \<open>The situation in which everything is sent in turn.\<close>

definition in_turn :: "subscriber \<Rightarrow> sender \<Rightarrow> cycle_locals \<Rightarrow> bool" where
  "in_turn S P c \<longleftrightarrow> linked S P \<and> queue_ok P \<and> \<not> changed_c c
     \<and> window_size P \<le> numberOfVariables_s P
     \<and> (\<Sum>d\<leftarrow>pvDescriptor_e S. value_bytes d) \<le> maxBytesPerCycle_s P
     \<and> maxBytesPerCycle_s P < 4294967296"

lemma fifo_cycle:
  assumes "marte_lib L" "in_turn S P c" "chunckCounter_s P < numberOfChunks_s P"
    and "numberOfChunks_s P < 4294967296"
  obtains S' P' c' where "cycle_body L now (chunckCounter_s P) (numberOfPoolThreads_s P) S P c
      = Inr (S', P', c')"
    and "in_turn S' P' c'" "same_setup P P'" "indexList_s P' = indexList_s P"
    and "chunckCounter_s P' \<le> chunckCounter_s P + 1"
    and "sendCounter_c c' = u32 (sendCounter_c c + 1)"
    and "resetCounter_s P \<le> sendCounter_c c \<Longrightarrow> chunckCounter_s P' = 0"
    and "currentIdx_s P' = (currentIdx_s P + window_size P) mod numberOfVariables_s P"
    and "sent_now P' = map (\<lambda>k. indexList_s P ! ((currentIdx_s P + k) mod numberOfVariables_s P))
          [0..<window_size P]"
proof -
  let ?w = "window_size P" and ?n = "numberOfVariables_s P"
  let ?P1 = "(synced S P)\<lparr>chunckCounter_s := u32 (chunckCounter_s P + 1)\<rparr>"
  have i: "linked S P" "queue_ok P" "\<not> changed_c c" "?w \<le> ?n" "maxBytesPerCycle_s P < 4294967296"
      "(\<Sum>d\<leftarrow>pvDescriptor_e S. value_bytes d) \<le> maxBytesPerCycle_s P"
    using assms(2) by (auto simp: in_turn_def)
  have q: "currentIdx_s P < ?n" "?n < 2147483648" "length (pvDescriptor_e S) = ?n"
    using i(1,2) by (auto simp: queue_ok_def linked_def layout_ok_def)
  have sp: "sort_phase (pvDescriptor_e S) (chunckCounter_s P) ?w (synced S P) = (?w, ?P1)"
    using assms(3) by (simp add: sort_phase_def)
  have cnt: "sent_count (pvDescriptor_e S) P ?w = ?w"
    using window_fits [OF q i(4)] i(5,6) by (simp add: sent_count_def bandwidth_loop_all)
  obtain S' P' c' where s: "cycle_body L now (chunckCounter_s P) (numberOfPoolThreads_s P) S P c
      = Inr (S', P', c')" "linked S' P'" "queue_ok P'" "same_setup P P'" "\<not> changed_c c'"
      "pvDescriptor_e S' = pvDescriptor_e S" "indexList_s P' = indexList_s ?P1"
      "sendCounter_c c' = u32 (sendCounter_c c + 1)"
      "sent_now P' = map (\<lambda>k. indexList_s ?P1 ! queue_pos ?n (currentIdx_s P) k) [0..<?w]"
      "currentIdx_s P' = queue_pos ?n (currentIdx_s P) ?w"
      "chunckCounter_s P' = chunckCounter_s ?P1 \<or> chunckCounter_s P' = 0"
      "resetCounter_s P \<le> sendCounter_c c \<Longrightarrow> chunckCounter_s P' = 0"
    using full_cycle [OF assms(1) i(1-3) sp] unfolding cnt by metis
  show thesis
    by (rule that [OF s(1)])
      (use s i q assms(3,4) in \<open>auto simp: in_turn_def same_setup_def window_size_def queue_pos_eq u32_id\<close>)
qed

lemma fifo_run:
  assumes "marte_lib L" "in_turn S P c" "chunckCounter_s P + m \<le> numberOfChunks_s P"
    and "numberOfChunks_s P < 4294967296"
  shows "\<exists>sent r. run_cycles L m S P c = Inr (sent, r) \<and> concat sent =
    map (\<lambda>k. indexList_s P ! ((currentIdx_s P + k) mod numberOfVariables_s P)) [0..<m * window_size P]"
  using assms(2-4)
proof (induction m arbitrary: S P c)
  case 0
  then show ?case by simp
next
  case (Suc m)
  let ?w = "window_size P" and ?n = "numberOfVariables_s P"
  have lt: "chunckCounter_s P < numberOfChunks_s P" using Suc.prems(2) by simp
  obtain S' P' c' where s: "cycle_body L 0 (chunckCounter_s P) (numberOfPoolThreads_s P) S P c
      = Inr (S', P', c')" "in_turn S' P' c'" "same_setup P P'" "indexList_s P' = indexList_s P"
      "chunckCounter_s P' \<le> chunckCounter_s P + 1"
      "currentIdx_s P' = (currentIdx_s P + ?w) mod ?n"
      "sent_now P' = map (\<lambda>k. indexList_s P ! ((currentIdx_s P + k) mod ?n)) [0..<?w]"
    using fifo_cycle [OF assms(1) Suc.prems(1) lt Suc.prems(3), of 0] by metis
  have e: "numberOfVariables_s P' = ?n" "window_size P' = ?w" "numberOfChunks_s P' = numberOfChunks_s P"
    using s(3) by (simp_all add: same_setup_def window_size_def)
  obtain sent r where r: "run_cycles L m S' P' c' = Inr (sent, r)"
      "concat sent = map (\<lambda>k. indexList_s P ! (((currentIdx_s P + ?w) mod ?n + k) mod ?n)) [0..<m * ?w]"
    using Suc.IH [OF s(2)] Suc.prems(2,3) s(4-6) e by auto
  let ?f = "\<lambda>k. indexList_s P ! ((currentIdx_s P + k) mod ?n)"
  have "map ?f [0..<Suc m * ?w] = map ?f [0..<?w] @ map ?f [?w..<?w + m * ?w]"
    unfolding mult_Suc by (simp only: upt_add_eq_append [OF le0] map_append add_0_left)
  also have "map ?f [?w..<?w + m * ?w] = map (\<lambda>k. ?f (?w + k)) [0..<m * ?w]"
    by (intro nth_equalityI) simp_all
  also have "(\<lambda>k. ?f (?w + k)) = (\<lambda>k. indexList_s P ! (((currentIdx_s P + ?w) mod ?n + k) mod ?n))"
    by (simp add: mod_add_left_eq add.assoc)
  finally have "concat (sent_now P' # sent) = map ?f [0..<Suc m * ?w]"
    using s(7) r(2) by simp
  then show ?case
    using s(1) r(1) by (cases r) simp
qed

text \<open>
  (C16) While everything is sent in turn, the turns of one round, as many as there are chunks,
  hand every variable over to the sending threads.
\<close>

theorem round_sends_everything:
  assumes "marte_lib L" and "in_turn S P c" and "chunckCounter_s P = 0"
    and "numberOfChunks_s P < 4294967296"
    and "numberOfVariables_s P \<le> numberOfChunks_s P * window_size P"
  shows "\<exists>sent r. run_cycles L (numberOfChunks_s P) S P c = Inr (sent, r)
    \<and> set (concat sent) = {..<numberOfVariables_s P}"
proof -
  let ?n = "numberOfVariables_s P" and ?f = "\<lambda>k. indexList_s P ! ((currentIdx_s P + k) mod numberOfVariables_s P)"
  obtain sent r where r: "run_cycles L (numberOfChunks_s P) S P c = Inr (sent, r)"
      "concat sent = map ?f [0..<numberOfChunks_s P * window_size P]"
    using fifo_run [OF assms(1,2) _ assms(4), of "numberOfChunks_s P"] assms(3) by auto
  have qo: "queue_ok P" using assms(2) by (simp add: in_turn_def)
  then have "mset (indexList_s P) = mset [0..<?n]" unfolding queue_ok_def by blast
  then have "set (indexList_s P) = {..<?n}" by (metis atLeast_upt mset_eq_setD)
  then have q: "length (indexList_s P) = ?n" "set (indexList_s P) = {..<?n}" "0 < ?n"
    using qo by (simp_all add: queue_ok_def)
  have "{..<?n} = set (map ?f [0..<?n])"
    unfolding rotate_as_map [OF q(1)] using q(2) by simp
  also have "\<dots> = ?f ` {0..<?n}" by simp
  also have "\<dots> \<subseteq> ?f ` {0..<numberOfChunks_s P * window_size P}"
    using assms(5) by (intro image_mono) auto
  also have "\<dots> = set (concat sent)" unfolding r(2) by simp
  finally have "{..<?n} \<subseteq> set (concat sent)" .
  moreover have "set (concat sent) \<subseteq> {..<?n}"
  proof
    fix x assume "x \<in> set (concat sent)"
    then obtain k where "x = indexList_s P ! ((currentIdx_s P + k) mod ?n)" unfolding r(2) by auto
    moreover have "(currentIdx_s P + k) mod ?n < length (indexList_s P)" using q by simp
    ultimately show "x \<in> {..<?n}" using q(2) nth_mem by blast
  qed
  ultimately show ?thesis using r(1) by blast
qed

lemma ex_in_turn: "in_turn ex_running (ex_sender\<lparr>chunckCounter_s := 0\<rparr>) cycle_start"
  using ex_linked ex_queue_ok
  by (simp add: in_turn_def linked_def queue_ok_def cycle_start_def window_size_def u32_id)

theorem round_sends_everything_witness:
  "\<exists>sent r. run_cycles ref_marte 1 ex_running (ex_sender\<lparr>chunckCounter_s := 0\<rparr>) cycle_start
      = Inr (sent, r) \<and> set (concat sent) = {..<2}"
  using round_sends_everything [OF ref.marte_lib_axioms ex_in_turn]
  by (simp add: window_size_def u32_id del: run_cycles.simps)

subsection \<open>After the reset counter\<close>

text \<open>
  A run in which channel access calls back before every turn: what each turn finds reported
  as changed, and the queue after it.
\<close>

fun run_changing ::
  "marte \<Rightarrow> ca_event list list \<Rightarrow> subscriber \<Rightarrow> sender \<Rightarrow> cycle_locals
     \<Rightarrow> fault + (bytes \<times> nat list) list \<times> subscriber \<times> sender \<times> cycle_locals" where
  "run_changing L [] S P c = Inr ([], S, P, c)"
| "run_changing L (es # ess) S P c =
     (case run_events (subscriber_event L) es S of
        Inl e \<Rightarrow> Inl e
      | Inr S \<Rightarrow>
          (case cycle_body L 0 (chunckCounter_s P) (numberOfPoolThreads_s P) S P c of
             Inl e \<Rightarrow> Inl e
           | Inr (S, P, c) \<Rightarrow>
               (case run_changing L ess S P c of
                  Inl e \<Rightarrow> Inl e
                | Inr (seen, r) \<Rightarrow> Inr ((changeFlag_s P, indexList_s P) # seen, r))))"

text \<open>The callbacks deliver as many bytes as the variable, and whole time stamps.\<close>

definition event_fits :: "pv_desc list \<Rightarrow> ca_event \<Rightarrow> bool" where
  "event_fits ds e = (case e of
     ValueEvent i dbr \<Rightarrow> value_bytes (ds ! i) \<le> length dbr
   | StampEvent i ts \<Rightarrow> TS_SIZE \<le> length ts)"

lemma event_keeps_linked:
  assumes "marte_lib L" "linked S P" "event_fits (pvDescriptor_e S) e"
  obtains S' where "subscriber_event L e S = Inr S'" "linked S' P" "pvDescriptor_e S' = pvDescriptor_e S"
proof -
  have lay: "layout_ok S" using assms(2) by (simp add: linked_def)
  have "\<exists>mem fl. subscriber_event L e S = Inr (S\<lparr>memory_e := mem, changedFlagMem_e := fl\<rparr>)"
  proof (cases e)
    case (ValueEvent i dbr)
    show ?thesis
    proof (cases "i < numberOfVariables_e S \<and> has_value (pvDescriptor_e S ! i)")
      case True
      then show ?thesis
        using marte_lib.GetValueCallback_cases(1) [OF assms(1) lay, of i dbr] assms(3) ValueEvent
        by (auto simp: subscriber_event_def event_fits_def)
    qed (use ValueEvent in \<open>auto simp: subscriber_event_def intro!: exI [of _ "memory_e S"] exI [of _ "changedFlagMem_e S"]\<close>)
  next
    case (StampEvent i ts)
    show ?thesis
    proof (cases "i < numberOfVariables_e S \<and> has_value (pvDescriptor_e S ! i)")
      case True
      then obtain mem where "GetTimeoutCallback L i ts S = Inr (S\<lparr>memory_e := mem\<rparr>)"
        using marte_lib.GetTimeoutCallback_cases(1) [OF assms(1) lay, of i ts] assms(3) StampEvent
        by (auto simp: event_fits_def)
      then show ?thesis
        using True StampEvent
        by (auto simp: subscriber_event_def intro!: exI [of _ mem] exI [of _ "changedFlagMem_e S"])
    qed (use StampEvent in \<open>auto simp: subscriber_event_def intro!: exI [of _ "memory_e S"] exI [of _ "changedFlagMem_e S"]\<close>)
  qed
  then obtain mem fl where S': "subscriber_event L e S = Inr (S\<lparr>memory_e := mem, changedFlagMem_e := fl\<rparr>)"
    by blast
  then have "layout_ok (S\<lparr>memory_e := mem, changedFlagMem_e := fl\<rparr>)"
    by (rule change_source.event_inv [OF marte_lib.subscriber_contract [OF assms(1)] lay])
  then show thesis
    using that [OF S'] assms(2) by (simp add: linked_def GetTotalMemorySize_def)
qed

lemma events_keep_linked:
  assumes "marte_lib L" "linked S P" "list_all (event_fits (pvDescriptor_e S)) es"
  obtains S' where "run_events (subscriber_event L) es S = Inr S'" "linked S' P"
    "pvDescriptor_e S' = pvDescriptor_e S"
proof -
  have "\<exists>S'. run_events (subscriber_event L) es S = Inr S' \<and> linked S' P
      \<and> pvDescriptor_e S' = pvDescriptor_e S"
    using assms(2,3)
  proof (induction es arbitrary: S)
    case (Cons e es)
    obtain S1 where s1: "subscriber_event L e S = Inr S1" "linked S1 P" "pvDescriptor_e S1 = pvDescriptor_e S"
      using event_keeps_linked [OF assms(1) Cons.prems(1), of e] Cons.prems(2) by auto
    then show ?case using Cons.IH [OF s1(2)] Cons.prems(2) by simp
  qed simp
  then show thesis using that by blast
qed

lemma reset_run:
  assumes "marte_lib L" "linked S P" "queue_ok P" "\<not> changed_c c" "chunckCounter_s P = 0"
    and "0 < numberOfChunks_s P" "numberOfChunks_s P < 4294967296"
    and "resetCounter_s P \<le> sendCounter_c c" "sendCounter_c c + length ess < 4294967296"
    and "list_all (list_all (event_fits (pvDescriptor_e S))) ess"
  shows "\<exists>seen S' P' c'. run_changing L ess S P c = Inr (seen, S', P', c')
    \<and> map snd seen = replicate (length ess) (indexList_s P) \<and> chunckCounter_s P' = 0"
  using assms(2-)
proof (induction ess arbitrary: S P c)
  case Nil
  then show ?case by simp
next
  case (Cons es ess)
  obtain S1 where s1: "run_events (subscriber_event L) es S = Inr S1" "linked S1 P"
      "pvDescriptor_e S1 = pvDescriptor_e S"
    using events_keep_linked [OF assms(1) Cons.prems(1)] Cons.prems(9) by auto
  have sp: "sort_phase (pvDescriptor_e S1) 0 (window_size P) (synced S1 P)
      = (window_size P, (synced S1 P)\<lparr>chunckCounter_s := u32 1\<rparr>)"
    using Cons.prems(4,5) by (simp add: sort_phase_def)
  obtain S' P' c' where s: "cycle_body L 0 0 (numberOfPoolThreads_s P) S1 P c
      = Inr (S', P', c')" "linked S' P'" "queue_ok P'" "same_setup P P'" "\<not> changed_c c'"
      "indexList_s P' = indexList_s P" "pvDescriptor_e S' = pvDescriptor_e S1"
      "sendCounter_c c' = u32 (sendCounter_c c + 1)" "chunckCounter_s P' = 0"
  proof (rule full_cycle [OF assms(1) s1(2) Cons.prems(2,3) sp, of 0])
    fix S' P' c'
    assume "cycle_body L 0 0 (numberOfPoolThreads_s P) S1 P c = Inr (S', P', c')" "linked S' P'"
      "queue_ok P'" "same_setup P P'" "\<not> changed_c c'" "pvDescriptor_e S' = pvDescriptor_e S1"
      "indexList_s P' = indexList_s (synced S1 P\<lparr>chunckCounter_s := u32 1\<rparr>)"
      "sendCounter_c c' = u32 (sendCounter_c c + 1)"
      "resetCounter_s P \<le> sendCounter_c c \<Longrightarrow> chunckCounter_s P' = 0"
    then show thesis using Cons.prems(7) by (intro that [of S' P' c']) simp_all
  qed
  have sc: "sendCounter_c c' = sendCounter_c c + 1" using s(8) Cons.prems(8) by (simp add: u32_id)
  have e: "numberOfChunks_s P' = numberOfChunks_s P" "resetCounter_s P' = resetCounter_s P"
    using s(4) by (simp_all add: same_setup_def)
  obtain seen r where "run_changing L ess S' P' c' = Inr (seen, r)"
      "map snd seen = replicate (length ess) (indexList_s P')" "chunckCounter_s (fst (snd r)) = 0"
    using Cons.IH [OF s(2,3,5,9)] Cons.prems(5-9) unfolding e sc s(7) s1(3) by fastforce
  then show ?case using s1(1) s(1,6) Cons.prems(4) by (cases r) simp
qed

text \<open>
  (C36) Once the main loop has counted \<open>ResetCounter\<close> turns, its counter is never set back:
  every later turn starts a new round. Whatever callbacks come before each of the turns, the
  queue stays as it is in every one of them; it is never sorted again.
\<close>

theorem no_sorting_after_reset:
  assumes "marte_lib L" and "linked S P" and "queue_ok P" and "\<not> changed_c c"
    and "chunckCounter_s P = 0" and "0 < numberOfChunks_s P" and "numberOfChunks_s P < 4294967296"
    and "resetCounter_s P \<le> sendCounter_c c" and "sendCounter_c c + length ess < 4294967296"
    and "list_all (list_all (event_fits (pvDescriptor_e S))) ess"
  shows "\<exists>seen S' P' c'. run_changing L ess S P c = Inr (seen, S', P', c')
    \<and> map snd seen = replicate (length ess) (indexList_s P) \<and> chunckCounter_s P' = 0"
  by (rule reset_run [OF assms])

text \<open>In two turns the second variable changes each time and stays behind the first.\<close>

theorem no_sorting_after_reset_witness:
  "\<exists>f g S' P' c'. run_changing ref_marte [[ValueEvent 1 [1, 2, 3, 4]], [ValueEvent 1 [5, 6, 7, 8]]]
      ex_running (ex_sender\<lparr>chunckCounter_s := 0\<rparr>) (cycle_start\<lparr>sendCounter_c := 120\<rparr>)
      = Inr ([(f, [0, 1]), (g, [0, 1])], S', P', c')
    \<and> chunckCounter_s P' = 0"
proof -
  let ?P = "ex_sender\<lparr>chunckCounter_s := 0\<rparr>"
  have l: "linked ex_running ?P" "queue_ok ?P"
    using ex_linked ex_queue_ok by (simp_all add: linked_def queue_ok_def)
  from no_sorting_after_reset [OF ref.marte_lib_axioms l, of "cycle_start\<lparr>sendCounter_c := 120\<rparr>"
      "[[ValueEvent 1 [1, 2, 3, 4]], [ValueEvent 1 [5, 6, 7, 8]]]"]
  obtain seen S' P' c' where "run_changing ref_marte [[ValueEvent 1 [1, 2, 3, 4]], [ValueEvent 1 [5, 6, 7, 8]]]
      ex_running ?P (cycle_start\<lparr>sendCounter_c := 120\<rparr>) = Inr (seen, S', P', c')"
      "map snd seen = [[0, 1], [0, 1]]" "chunckCounter_s P' = 0"
    by (auto simp: cycle_start_def event_fits_def numeral_2_eq_2)
  moreover from this(2) have "\<exists>f g. seen = [(f, [0, 1]), (g, [0, 1])]" by auto
  ultimately show ?thesis by blast
qed

subsection \<open>A variable too large for the bandwidth limit\<close>

lemma starving_run:
  assumes "marte_lib L" "linked S P" "queue_ok P" "\<not> changed_c c" "sendOnlyChanged_s P = 0"
    and "2 \<le> window_size P"
    and "queue_size (pvDescriptor_e S) (numberOfVariables_s P) (currentIdx_s P) 0
       + queue_size (pvDescriptor_e S) (numberOfVariables_s P) (currentIdx_s P) 1 < 4294967296"
    and "maxBytesPerCycle_s P < queue_size (pvDescriptor_e S) (numberOfVariables_s P) (currentIdx_s P) 0
       + queue_size (pvDescriptor_e S) (numberOfVariables_s P) (currentIdx_s P) 1"
  shows "\<exists>r. run_cycles L k S P c = Inr (replicate k [], r)"
  using assms(2-)
proof (induction k arbitrary: S P c)
  case 0
  then show ?case by simp
next
  case (Suc k)
  obtain nv P1 where sp: "sort_phase (pvDescriptor_e S) (chunckCounter_s P) (window_size P) (synced S P)
      = (nv, P1)"
    using sort_phase_total by blast
  have cnt: "sent_count (pvDescriptor_e S) P nv = 0"
    using Suc.prems(4-7) by (simp add: sent_count_def bandwidth_loop_starves)
  have cur: "currentIdx_s P < numberOfVariables_s P" using Suc.prems(2) by (simp add: queue_ok_def)
  obtain S' P' c' where s: "cycle_body L 0 (chunckCounter_s P) (numberOfPoolThreads_s P) S P c
      = Inr (S', P', c')" "linked S' P'" "queue_ok P'" "same_setup P P'" "\<not> changed_c c'"
      "pvDescriptor_e S' = pvDescriptor_e S" "sent_now P' = map (\<lambda>k. indexList_s P1 ! queue_pos (numberOfVariables_s P) (currentIdx_s P) k) [0..<0]"
      "currentIdx_s P' = queue_pos (numberOfVariables_s P) (currentIdx_s P) 0"
    using full_cycle [OF assms(1) Suc.prems(1-3) sp, of 0] unfolding cnt by metis
  have "currentIdx_s P' = currentIdx_s P"
    using s(8) cur Suc.prems(2) by (simp add: queue_pos_eq queue_ok_def)
  then have "\<exists>r. run_cycles L k S' P' c' = Inr (replicate k [], r)"
    using Suc.prems(4-7) s(4,6) by (intro Suc.IH s) (simp_all add: same_setup_def window_size_def)
  then show ?case using s(1,7) by auto
qed

text \<open>
  (C37) When the first two variables of the queue exceed \<open>MaxBytesPerCycle\<close> together, nothing
  is ever sent again: the first one alone would fit, but the loop takes it back.
\<close>

theorem bandwidth_limit_starves:
  assumes "marte_lib L" and "linked S P" and "queue_ok P" and "\<not> changed_c c"
    and "sendOnlyChanged_s P = 0" and "2 \<le> window_size P"
    and "queue_size (pvDescriptor_e S) (numberOfVariables_s P) (currentIdx_s P) 0
       + queue_size (pvDescriptor_e S) (numberOfVariables_s P) (currentIdx_s P) 1 < 4294967296"
    and "maxBytesPerCycle_s P < queue_size (pvDescriptor_e S) (numberOfVariables_s P) (currentIdx_s P) 0
       + queue_size (pvDescriptor_e S) (numberOfVariables_s P) (currentIdx_s P) 1"
  shows "\<exists>r. run_cycles L k S P c = Inr (replicate k [], r)"
  by (rule starving_run [OF assms])

theorem bandwidth_limit_starves_witness:
  "\<exists>r. run_cycles ref_marte 50 ex_running (ex_sender\<lparr>maxBytesPerCycle_s := 7\<rparr>) cycle_start
    = Inr (replicate 50 [], r)"
proof -
  let ?P = "ex_sender\<lparr>maxBytesPerCycle_s := 7\<rparr>"
  have "linked ex_running ?P" "queue_ok ?P"
    using ex_linked ex_queue_ok by (simp_all add: linked_def queue_ok_def)
  from bandwidth_limit_starves [OF ref.marte_lib_axioms this, of cycle_start 50] show ?thesis
    by (simp add: cycle_start_def window_size_def u32_id queue_size_def queue_pos_def)
qed

subsection \<open>Connecting the data source\<close>

lemma ceiling_div:
  "0 < w \<Longrightarrow> (if n mod w > 0 then n div w + 1 else n div w) * w < n + w"
  "0 < w \<Longrightarrow> n \<le> (if n mod w > 0 then n div w + 1 else n div w) * (w :: nat)"
proof -
  assume w: "0 < w"
  have e: "n div w * w + n mod w = n" "n mod w < w" using w by simp_all
  have "(n div w + 1) * w = n div w * w + w" by simp
  with e show "(if n mod w > 0 then n div w + 1 else n div w) * w < n + w"
      "n \<le> (if n mod w > 0 then n div w + 1 else n div w) * w"
    by (simp_all only: split: if_splits) linarith+
qed

text \<open>
  (C38) \<open>SetDataSource\<close> leaves a sender that fits its data source, with the variables in the
  order of the table and the smallest number of chunks that covers them all, exactly when a
  cycle does not send more variables than there are.
\<close>

theorem data_source_connected:
  assumes "layout_ok S" and "InitialisationDone S" and "0 < window_size P"
    and "numberOfVariables_e S < 2147483648" and "currentIdx_s P = 0"
  shows "\<exists>ok P'. SetDataSource S P = Some (Inr (ok, P'))
    \<and> ok = (window_size P \<le> numberOfVariables_e S)
    \<and> (if ok then linked S P' \<and> queue_ok P' \<and> indexList_s P' = [0..<numberOfVariables_e S]
         \<and> numberOfVariables_e S \<le> numberOfChunks_s P' * window_size P'
         \<and> numberOfChunks_s P' * window_size P' < numberOfVariables_e S + window_size P'
       else indexList_s P' = indexList_s P)"
proof -
  have w: "u32 (numberOfPoolThreads_s P * numberOfSignalToBeSent_s P) = window_size P"
    by (simp add: window_size_def mult.commute)
  have n: "GetNumberOfVariables_e S = numberOfVariables_e S" by (simp add: GetNumberOfVariables_e_def)
  show ?thesis
  proof (cases "window_size P \<le> numberOfVariables_e S")
    case False
    then show ?thesis using assms(2,3) by (simp add: SetDataSource_def w n Let_def)
  next
    case True
    have pos: "0 < numberOfVariables_e S" using True assms(3) by simp
    define k where "k = (if numberOfVariables_e S mod window_size P > 0
      then numberOfVariables_e S div window_size P + 1 else numberOfVariables_e S div window_size P)"
    obtain P' where "SetDataSource S P = Some (Inr (True, P'))" "numberOfChunks_s P' = k"
        "linked S P'" "queue_ok P'" "indexList_s P' = [0..<numberOfVariables_e S]"
        "window_size P' = window_size P"
      using True assms pos
      by (simp add: SetDataSource_def w n Let_def linked_def queue_ok_def k_def)
        (simp add: window_size_def mult.commute)
    then show ?thesis
      using True ceiling_div [OF assms(3), of "numberOfVariables_e S", folded k_def] by auto
  qed
qed

theorem data_source_connected_witness:
  "\<exists>P'. SetDataSource ex_running (PrioritySender\<lparr>numberOfPoolThreads_s := 1, numberOfSignalToBeSent_s := 2\<rparr>)
      = Some (Inr (True, P')) \<and> linked ex_running P' \<and> queue_ok P'"
proof -
  let ?P = "PrioritySender\<lparr>numberOfPoolThreads_s := 1, numberOfSignalToBeSent_s := 2\<rparr>"
  have "InitialisationDone ex_running"
    by (simp add: InitialisationDone_def ex_running_def)
  moreover have "window_size ?P = 2" "currentIdx_s ?P = 0"
    by (simp_all add: window_size_def u32_id PrioritySender_def)
  ultimately show ?thesis
    using data_source_connected [OF ex_running_ok, of ?P] by auto
qed

subsection \<open>The option to send only what has changed\<close>

text \<open>
  Whatever the configuration says, the sender never sends only the changed variables:
  \<open>SendOnlyChanged\<close> is replaced by 0 when it is present, and is 0 from the constructor when
  it is not. Every other optional parameter has the configured value or its default.
\<close>

lemma send_only_changed_is_ignored:
  "sendOnlyChanged_s (snd (Initialise_s base data PrioritySender)) = 0
   \<and> (fst (Initialise_s base data PrioritySender) \<longrightarrow>
       (let P = snd (Initialise_s base data PrioritySender) in
        maxBytesPerCycle_s P = read_or data 32 ''MaxBytesPerCycle'' 0xFFFFFFFF
        \<and> resetCounter_s P = read_or data 32 ''ResetCounter'' 120
        \<and> chunkSize_s P = read_or data 32 ''ChunkSize'' 1
        \<and> Some (numberOfPoolThreads_s P) = base
        \<and> Some (numberOfSignalToBeSent_s P) = ReadUInt data 32 ''NumberOfSignalPerThread''
        \<and> Some (serverPort_s P) = ReadUInt data 32 ''ServerPort''))"
  by (simp add: Initialise_s_def read_required_def read_optional_def PrioritySender_def Let_def
      split: option.splits)

definition ex_sender_cfg :: structured_data where
  "ex_sender_cfg = \<lparr>ReadString = (\<lambda>n. Some [49]),
     ReadUInt = (\<lambda>b n. if n = ''SendOnlyChanged'' then Some 1 else Some 7)\<rparr>"

lemma send_only_changed_is_ignored_witness:
  "fst (Initialise_s (Some 3) ex_sender_cfg PrioritySender)
   \<and> ReadUInt ex_sender_cfg 8 ''SendOnlyChanged'' = Some 1
   \<and> sendOnlyChanged_s (snd (Initialise_s (Some 3) ex_sender_cfg PrioritySender)) = 0
   \<and> resetCounter_s (snd (Initialise_s (Some 3) ex_sender_cfg PrioritySender)) = 7"
proof -
  have "fst (Initialise_s (Some 3) ex_sender_cfg PrioritySender)"
    by (simp add: Initialise_s_def read_required_def ex_sender_cfg_def Let_def)
  moreover have "read_or ex_sender_cfg 32 ''ResetCounter'' 120 = 7"
      "ReadUInt ex_sender_cfg 8 ''SendOnlyChanged'' = Some 1"
    by (simp_all add: read_or_def ex_sender_cfg_def)
  ultimately show ?thesis
    using send_only_changed_is_ignored [of "Some 3" ex_sender_cfg] by (simp add: Let_def)
qed

end
