(* ===== verification/SenderWire.thy ===== *)
theory SenderWire
  imports SenderQueue
begin

section \<open>PrioritySender: sending a slice of the queue\<close>

text \<open>
  \<open>SendVariables\<close>, which every thread of the pool runs after a handover, and
  \<open>SendCloseConnectionMessage\<close>. The connection, \<open>HttpChunkedStream\<close> with \<open>HttpProtocol\<close>
  over it, is not part of the repository: its methods are the fields of \<open>http_client\<close>, over
  an arbitrary type \<open>'k\<close> of connection states, in the order of the calls. A method that
  reports success returns it with the new state. Whether the bytes go to the connection or
  first into a buffer (\<open>myBuffer\<close>, a \<open>StreamString\<close>, which always accepts them) depends on
  \<open>ChunkSize\<close>.
\<close>

datatype header_value = Lit string | HostPort bytes nat | Num nat

record 'k http_client =
  SetChunkMode :: "bool \<Rightarrow> 'k \<Rightarrow> 'k"
  SetBlocking :: "bool \<Rightarrow> 'k \<Rightarrow> 'k"
  SetKeepAlive :: "bool \<Rightarrow> 'k \<Rightarrow> 'k"
  WriteHeader :: "(string \<times> header_value) list \<Rightarrow> string \<Rightarrow> 'k \<Rightarrow> bool \<times> 'k"
  ClientWrite :: "bytes \<Rightarrow> 'k \<Rightarrow> bool \<times> 'k"
  Flush :: "'k \<Rightarrow> bool \<times> 'k"
  FinalChunk :: "'k \<Rightarrow> bool \<times> 'k"
  Peek :: "'k \<Rightarrow> bool \<times> 'k"
  ReadHeader :: "'k \<Rightarrow> bool \<times> 'k"
  CompleteReadOperation :: "'k \<Rightarrow> 'k"
  KeepAlive :: "'k \<Rightarrow> bool"

subsection \<open>The slice of a thread\<close>

definition slice_length :: "nat \<Rightarrow> sender \<Rightarrow> nat" where
  "slice_length threadId P =
     (let nVarsPerThread = numberOfChangedVariables_s P div numberOfPoolThreads_s P
      in if threadId = u32_sub (numberOfPoolThreads_s P) 1
         then nVarsPerThread + numberOfChangedVariables_s P mod numberOfPoolThreads_s P
         else nVarsPerThread)"

text \<open>The part under the lock: the first position of the slice, and the move of the index.\<close>

definition take_slice :: "nat \<Rightarrow> sender \<Rightarrow> nat \<times> sender" where
  "take_slice threadId P =
     (currentIdxThreads_s P,
      P\<lparr>currentIdxThreads_s :=
          u32 (currentIdxThreads_s P + slice_length threadId P) mod numberOfVariables_s P\<rparr>)"

subsection \<open>A variable on the wire\<close>

definition mem_read :: "bytes \<Rightarrow> nat \<Rightarrow> nat \<Rightarrow> fault + bytes" where
  "mem_read mem off n =
     (if off + n \<le> length mem then Inr (take n (drop off mem)) else Inl Out_Of_Bounds)"

text \<open>The arguments of the eight calls of \<open>Write\<close> for a piece of a variable.\<close>

definition var_fields :: "pv_desc \<Rightarrow> nat \<Rightarrow> nat \<Rightarrow> nat \<Rightarrow> bytes \<Rightarrow> (fault + bytes) list" where
  "var_fields d signalIndex varOffset actualSize mem =
     (let offset = offset_d d;
          tsIndex = value_bytes d
      in [Inr ([34] @ pvName_d d @ [34, 58, 32]),
          Inr (le32 signalIndex),
          Inr [of_nat (typeId_d d)],
          Inr (le32 actualSize),
          Inr (le32 varOffset),
          mem_read mem (offset + varOffset) actualSize,
          mem_read mem (offset + tsIndex) 8,
          Inr [10, 13]])"

text \<open>\<open>bufferT->Write\<close>, and a sequence of writes that stops writing at the first failure.\<close>

definition write_t :: "'k http_client \<Rightarrow> nat \<Rightarrow> bytes \<Rightarrow> 'k \<times> bytes \<Rightarrow> bool \<times> 'k \<times> bytes" where
  "write_t K chunkSize b s =
     (case s of (k, myBuffer) \<Rightarrow>
        if chunkSize > 0 then (case ClientWrite K b k of (ok, k) \<Rightarrow> (ok, k, myBuffer))
        else (True, k, myBuffer @ b))"

fun write_fields ::
  "'k http_client \<Rightarrow> nat \<Rightarrow> (fault + bytes) list \<Rightarrow> err \<Rightarrow> 'k \<times> bytes \<Rightarrow> fault + err \<times> 'k \<times> bytes"
where
  "write_fields K chunkSize [] err s = Inr (err, s)"
| "write_fields K chunkSize (f # fs) err s =
     (if err = NoError then
        (case f of
           Inl e \<Rightarrow> Inl e
         | Inr b \<Rightarrow>
             (case write_t K chunkSize b s of
                (ok, s1) \<Rightarrow> write_fields K chunkSize fs (err_of ok) s1))
      else write_fields K chunkSize fs err s)"

text \<open>The loop over the pieces of a variable; the result is \<open>varOffset\<close>, \<open>i\<close>, \<open>condition\<close>, \<open>err\<close>.\<close>

record piece_state =
  varOffset_w :: nat
  i_w :: nat
  condition_w :: bool
  err_w :: err

function pieces_loop ::
  "'k http_client \<Rightarrow> sender \<Rightarrow> pv_desc \<Rightarrow> nat \<Rightarrow> nat \<Rightarrow> piece_state \<Rightarrow> 'k \<times> bytes
     \<Rightarrow> fault + piece_state \<times> 'k \<times> bytes" where
  "pieces_loop K P d signalIndex nVars st s =
     (let totalSize = value_bytes d in
      if varOffset_w st < totalSize \<and> condition_w st then
        (let actualSize = (if totalSize - varOffset_w st < maxVarSize_s P
                           then totalSize - varOffset_w st else maxVarSize_s P)
         in case write_fields K (chunkSize_s P)
                   (var_fields d signalIndex (varOffset_w st) actualSize (memoryThreads_s P))
                   (err_w st) s of
              Inl e \<Rightarrow> Inl e
            | Inr (err, s1) \<Rightarrow>
                (let i = i_w st + 1;
                     condition = (i < nVars \<and> err = NoError)
                 in pieces_loop K P d signalIndex nVars
                      \<lparr>varOffset_w = (if condition then varOffset_w st + actualSize else varOffset_w st),
                       i_w = i, condition_w = condition, err_w = err\<rparr> s1))
      else Inr (st, s))"
  by pat_completeness auto
termination
  by (relation "measure (\<lambda>(K, P, d, signalIndex, nVars, st, s).
        if condition_w st then nVars - i_w st + 1 else 0)") auto

declare pieces_loop.simps [simp del]

text \<open>The loop over the variables of a packet.\<close>

function vars_loop ::
  "'k http_client \<Rightarrow> pv_desc list \<Rightarrow> sender \<Rightarrow> nat \<Rightarrow> nat \<Rightarrow> nat \<Rightarrow> piece_state \<Rightarrow> 'k \<times> bytes
     \<Rightarrow> fault + nat \<times> nat \<times> piece_state \<times> 'k \<times> bytes" where
  "vars_loop K pvDes P nVars listIndex cntVariables st s =
     (if condition_w st \<and> cntVariables < nVars then
        (let signalIndex = indexListThreads_s P ! listIndex;
             d = pvDes ! signalIndex
         in case (if numberOfElements_d d > 0 \<and> memorySize_d d > 0 then
                    (case pieces_loop K P d signalIndex nVars st s of
                       Inl e \<Rightarrow> Inl e
                     | Inr (st1, s1) \<Rightarrow>
                         Inr (if varOffset_w st1 \<ge> value_bytes d then st1\<lparr>varOffset_w := 0\<rparr> else st1, s1))
                  else
                    Inr (st\<lparr>i_w := i_w st + 1, condition_w := (i_w st + 1 < nVars)\<rparr>, s)) of
              Inl e \<Rightarrow> Inl e
            | Inr (st2, s2) \<Rightarrow>
                vars_loop K pvDes P nVars (u32 (listIndex + 1) mod numberOfVariables_s P)
                  (cntVariables + 1) st2 s2)
      else Inr (listIndex, cntVariables, st, s))"
  by pat_completeness auto
termination
  by (relation "measure (\<lambda>(K, ds, P, nVars, listIndex, cnt, st, s). nVars - cnt)") auto

declare vars_loop.simps [simp del]

subsection \<open>A packet\<close>

definition packet_headers :: "sender \<Rightarrow> (string \<times> header_value) list" where
  "packet_headers P =
     [(''Host'', HostPort (serverIpAddress_s P) (serverPort_s P)),
      (''Connection'', Lit ''keep-alive''),
      (''Content-Type'', Lit ''application/x-www-form-urlencoded; charset=UTF-8''),
      (''Accept-Encoding'', Lit ''gzip, deflate, br''),
      (''Cache-Control'', Lit ''no-cache'')]
     @ (if chunkSize_s P > 0 then [(''Transfer-Encoding'', Lit ''chunked'')] else [])
     @ [(''Content-Type'', Lit ''text/html'')]"

definition open_packet :: "'k http_client \<Rightarrow> sender \<Rightarrow> 'k \<Rightarrow> err \<times> 'k" where
  "open_packet K P k =
     (let k = SetChunkMode K False k in
      if chunkSize_s P > 0 then
        (case WriteHeader K (packet_headers P) ''/'' k of
           (ok, k) \<Rightarrow> (err_of ok, if ok then snd (Flush K k) else k))
      else (NoError, k))"

definition close_packet :: "'k http_client \<Rightarrow> sender \<Rightarrow> err \<Rightarrow> 'k \<times> bytes \<Rightarrow> err \<times> 'k" where
  "close_packet K P err s =
     (case s of (k, myBuffer) \<Rightarrow>
      (case (if chunkSize_s P = 0 then
               (case WriteHeader K (packet_headers P @ [(''Content-Length'', Num (length myBuffer))]) ''/'' k of
                  (ok, k) \<Rightarrow> (err_of ok, snd (ClientWrite K myBuffer (if ok then snd (Flush K k) else k))))
             else (err, k)) of
         (err, k) \<Rightarrow>
      (case (if err = NoError then (case Flush K k of (ok, k) \<Rightarrow> (err_of ok, k)) else (err, k)) of
         (err, k) \<Rightarrow>
           if chunkSize_s P > 0 \<and> err = NoError
           then (case FinalChunk K k of (ok, k) \<Rightarrow> (err_of ok, k))
           else (err, k))))"

text \<open>Reading the replies that have arrived.\<close>

definition count_packet :: "nat \<Rightarrow> nat \<Rightarrow> sender \<Rightarrow> sender" where
  "count_packet threadId n P =
     P\<lparr>packetsNotAck_s := (packetsNotAck_s P)[threadId := n]\<rparr>"

partial_function (option) reply_loop ::
  "'k http_client \<Rightarrow> nat \<Rightarrow> err \<Rightarrow> sender \<Rightarrow> 'k \<Rightarrow> (err \<times> sender \<times> 'k) option" where
  "reply_loop K threadId err P k =
     (case Peek K (SetBlocking K False k) of
        (keepReading, k1) \<Rightarrow>
          (let k2 = SetBlocking K True k1 in
           if keepReading then
             (case (if err = NoError then (case ReadHeader K k2 of (ok, k3) \<Rightarrow> (err_of ok, k3))
                    else (err, k2)) of
                (err1, k3) \<Rightarrow>
                  if err1 = NoError then
                    (let k4 = CompleteReadOperation K k3;
                         P1 = count_packet threadId (u32_sub (packetsNotAck_s P ! threadId) 1) P
                     in if KeepAlive K k4 then reply_loop K threadId NoError P1 k4
                        else Some (Completed, P1, k4))
                  else reply_loop K threadId err1 P k3)
           else Some (err, P, k2)))"

definition SendCloseConnectionMessage :: "'k http_client \<Rightarrow> sender \<Rightarrow> 'k \<Rightarrow> err \<times> 'k" where
  "SendCloseConnectionMessage K P k =
     (let k = SetChunkMode K False k;
          headers =
            [(''Host'', HostPort (serverIpAddress_s P) (serverPort_s P)),
             (''Connection'', Lit ''close''),
             (''Content-Type'', Lit ''application/x-www-form-urlencoded; charset=UTF-8''),
             (''Accept-Encoding'', Lit ''gzip, deflate, br''),
             (''Cache-Control'', Lit ''no-cache''),
             (''Transfer-Encoding'', Lit ''chunked''),
             (''Content-Type'', Lit ''text/html'')]
      in case WriteHeader K headers ''/'' (SetKeepAlive K False k) of
           (ok, k) \<Rightarrow>
             if ok then (case FinalChunk K (SetChunkMode K True (snd (Flush K k))) of
                           (ok, k) \<Rightarrow> (err_of ok, k))
             else (Failed, k))"

subsection \<open>SendVariables\<close>

text \<open>The loop over the packets; the cursor is \<open>listIndex\<close>, \<open>cntVariables\<close>, \<open>varOffset\<close>.\<close>

partial_function (option) packets_loop ::
  "'k http_client \<Rightarrow> pv_desc list \<Rightarrow> nat \<Rightarrow> nat \<Rightarrow> sender \<Rightarrow> nat \<times> nat \<times> nat \<Rightarrow> 'k
     \<Rightarrow> (fault + err \<times> sender \<times> 'k) option" where
  "packets_loop K pvDes threadId nVars P cursor k =
     (case cursor of (listIndex, cntVariables, varOffset) \<Rightarrow>
      if cntVariables < nVars then
        (case open_packet K P k of
           (err, k1) \<Rightarrow>
             if err = NoError then
               (case vars_loop K pvDes P nVars listIndex cntVariables
                       \<lparr>varOffset_w = varOffset, i_w = 0, condition_w = (0 < nVars), err_w = NoError\<rparr>
                       (SetChunkMode K (chunkSize_s P > 0) k1, []) of
                  Inl e \<Rightarrow> Some (Inl e)
                | Inr (listIndex1, cnt1, st, s) \<Rightarrow>
                    (case close_packet K P (err_w st) s of
                       (err, k2) \<Rightarrow>
                         (case (if err = NoError
                                then reply_loop K threadId NoError
                                       (count_packet threadId (u32 (packetsNotAck_s P ! threadId + 1)) P) k2
                                else Some (err, P, k2)) of
                            None \<Rightarrow> None
                          | Some (err, P1, k3) \<Rightarrow>
                              if err = NoError
                              then packets_loop K pvDes threadId nVars P1
                                     (listIndex1, cnt1, varOffset_w st) k3
                              else Some (Inr (err, P1,
                                     if err = Completed then snd (SendCloseConnectionMessage K P1 k3)
                                     else k3)))))
             else Some (Inr (err, P, k1)))
      else Some (Inr (NoError, P, k)))"

definition SendVariables ::
  "'k http_client \<Rightarrow> subscriber \<Rightarrow> nat \<Rightarrow> sender \<Rightarrow> 'k \<Rightarrow> (fault + err \<times> sender \<times> 'k) option" where
  "SendVariables K S threadId P k =
     (if numberOfPoolThreads_s P = 0 \<or> numberOfVariables_s P = 0 then Some (Inl Div_By_Zero)
      else
        (case take_slice threadId P of
           (listIndex, P1) \<Rightarrow>
             packets_loop K (GetPvDescriptors S) threadId (slice_length threadId P) P1
               (listIndex, 0, 0) k))"

declare reply_loop.simps [code] packets_loop.simps [code]

end
