(* ===== verification/SenderStream.thy ===== *)
theory SenderStream
  imports SenderWire SenderRounds ReceiverStream
begin

section \<open>What a sending thread puts on the wire\<close>

text \<open>
  Over a connection that accepts what it is given (\<open>reliable_client\<close>), a thread whose
  variables all fit \<open>MaxVarSize\<close> sends exactly one request, whose body is the sequence of the
  frames of its slice; the format is that of the receiver's parser (\<open>encode\<close>).
\<close>

subsection \<open>The connection\<close>

text \<open>
  What the sender relies on: the body of the open request, the bodies of the requests that
  have been completed, and the number of replies that have arrived and not been read.
\<close>

locale reliable_client =
  fixes K :: "'k http_client"
    and body :: "'k \<Rightarrow> bytes"
    and sent :: "'k \<Rightarrow> bytes list"
    and pending :: "'k \<Rightarrow> nat"
  assumes set_chunk_mode: "body (SetChunkMode K b k) = body k" "sent (SetChunkMode K b k) = sent k"
      "pending (SetChunkMode K b k) = pending k"
    and set_keep_alive: "sent (SetKeepAlive K b k) = sent k"
    and set_blocking: "sent (SetBlocking K b k) = sent k" "pending (SetBlocking K b k) = pending k"
    and write_header: "WriteHeader K h d k = (ok, k') \<Longrightarrow> ok \<and> body k' = [] \<and> sent k' = sent k \<and> pending k' = pending k"
    and client_write: "ClientWrite K x k = (ok, k') \<Longrightarrow>
      ok \<and> body k' = body k @ x \<and> sent k' = sent k \<and> pending k' = pending k"
    and flush: "Flush K k = (ok, k') \<Longrightarrow> ok \<and> body k' = body k \<and> sent k' = sent k \<and> pending k' = pending k"
    and final_chunk: "FinalChunk K k = (ok, k') \<Longrightarrow>
      ok \<and> sent k' = sent k @ [body k] \<and> pending k' = pending k"
    and peek: "Peek K k = (ok, k') \<Longrightarrow> ok = (0 < pending k) \<and> sent k' = sent k \<and> pending k' = pending k"
    and read_header: "0 < pending k \<Longrightarrow> ReadHeader K k = (ok, k') \<Longrightarrow>
      ok \<and> sent k' = sent k \<and> pending k' = pending k - 1"
    and complete_read: "sent (CompleteReadOperation K k) = sent k"
      "pending (CompleteReadOperation K k) = pending k"

text \<open>A connection that keeps everything in lists is such a client.\<close>

record ref_conn =
  rc_body :: bytes
  rc_sent :: "bytes list"
  rc_replies :: "bool list"
  rc_keep :: bool

definition ref_client :: "ref_conn http_client" where
  "ref_client = \<lparr>SetChunkMode = (\<lambda>b k. k), SetBlocking = (\<lambda>b k. k), SetKeepAlive = (\<lambda>b k. k),
     WriteHeader = (\<lambda>h d k. (True, k\<lparr>rc_body := []\<rparr>)),
     ClientWrite = (\<lambda>b k. (True, k\<lparr>rc_body := rc_body k @ b\<rparr>)),
     Flush = (\<lambda>k. (True, k)),
     FinalChunk = (\<lambda>k. (True, k\<lparr>rc_sent := rc_sent k @ [rc_body k], rc_body := []\<rparr>)),
     Peek = (\<lambda>k. (rc_replies k \<noteq> [], k)),
     ReadHeader = (\<lambda>k. (rc_replies k \<noteq> [], k\<lparr>rc_keep := hd (rc_replies k), rc_replies := tl (rc_replies k)\<rparr>)),
     CompleteReadOperation = (\<lambda>k. k), KeepAlive = rc_keep\<rparr>"

interpretation ref_conn: reliable_client ref_client rc_body rc_sent "\<lambda>k. length (rc_replies k)"
  by unfold_locales (auto simp: ref_client_def)

subsection \<open>The frames of the variables\<close>

definition var_frame :: "pv_desc list \<Rightarrow> bytes \<Rightarrow> nat \<Rightarrow> nat \<Rightarrow> nat \<Rightarrow> frame" where
  "var_frame ds mem off n i =
     \<lparr>fr_name = pvName_d (ds ! i), fr_index = i, fr_typeId = typeId_d (ds ! i), fr_offset = off,
      fr_data = take n (drop (offset_d (ds ! i) + off) mem),
      fr_ts = take 8 (drop (offset_d (ds ! i) + value_bytes (ds ! i)) mem)\<rparr>"

text \<open>The variables that are sent at all.\<close>

definition sends :: "pv_desc \<Rightarrow> bool" where
  "sends d \<longleftrightarrow> 0 < numberOfElements_d d \<and> 0 < memorySize_d d \<and> 0 < value_bytes d"

definition whole_frames :: "pv_desc list \<Rightarrow> bytes \<Rightarrow> nat list \<Rightarrow> frame list" where
  "whole_frames ds mem is = map (\<lambda>i. var_frame ds mem 0 (value_bytes (ds ! i)) i) (filter (\<lambda>i. sends (ds ! i)) is)"

lemma var_fields_encode:
  assumes "offset_d (ds ! i) + value_bytes (ds ! i) + 8 \<le> length mem" "off + n \<le> value_bytes (ds ! i)"
  obtains bs where "var_fields (ds ! i) i off n mem = map Inr bs"
    and "concat bs = encode (var_frame ds mem off n i)"
proof (rule that)
  let ?d = "ds ! i"
  let ?bs = "[[34] @ pvName_d ?d @ [34, 58, 32], le32 i, [of_nat (typeId_d ?d)], le32 n, le32 off,
      take n (drop (offset_d ?d + off) mem), take 8 (drop (offset_d ?d + value_bytes ?d) mem), [10, 13]]"
  show "var_fields ?d i off n mem = map Inr ?bs"
    using assms by (simp add: var_fields_def mem_read_def Let_def)
  have "length (take n (drop (offset_d ?d + off) mem)) = n" using assms by simp
  then show "concat ?bs = encode (var_frame ds mem off n i)"
    by (simp add: var_frame_def encode_def frame_header_def quote_char_def pattern_str_def)
qed

subsection \<open>Writing\<close>

lemma pieces_stop:
  "value_bytes d \<le> varOffset_w st \<or> \<not> condition_w st \<Longrightarrow> pieces_loop K P d x nVars st s = Inr (st, s)"
  by (subst pieces_loop.simps) (auto simp: Let_def)

context reliable_client
begin

lemma write_fields_ok:
  assumes "0 < chunkSize"
  shows "\<exists>k'. write_fields K chunkSize (map Inr bs) NoError (k, buf) = Inr (NoError, k', buf)
    \<and> body k' = body k @ concat bs \<and> sent k' = sent k \<and> pending k' = pending k"
proof (induction bs arbitrary: k)
  case Nil
  then show ?case by simp
next
  case (Cons b bs)
  obtain ok k1 where w: "ClientWrite K b k = (ok, k1)" by (cases "ClientWrite K b k")
  then show ?case
    using client_write [OF w] Cons.IH [of k1] assms by (auto simp: write_t_def err_of_def)
qed

text \<open>One piece of a variable.\<close>

lemma piece_step:
  assumes "0 < chunkSize_s P" "off < value_bytes (ds ! x)"
    and "offset_d (ds ! x) + value_bytes (ds ! x) + 8 \<le> length (memoryThreads_s P)"
    and n_def: "n = min (value_bytes (ds ! x) - off) (maxVarSize_s P)"
  shows "\<exists>k'. pieces_loop K P (ds ! x) x nVars \<lparr>varOffset_w = off, i_w = i, condition_w = True, err_w = NoError\<rparr>
      (k, buf) = pieces_loop K P (ds ! x) x nVars \<lparr>varOffset_w = (if i + 1 < nVars then off + n else off),
        i_w = i + 1, condition_w = (i + 1 < nVars), err_w = NoError\<rparr> (k', buf)
    \<and> body k' = body k @ encode (var_frame ds (memoryThreads_s P) off n x)
    \<and> sent k' = sent k \<and> pending k' = pending k"
proof -
  have le: "off + n \<le> value_bytes (ds ! x)" using assms(2) n_def by simp
  obtain bs where bs: "var_fields (ds ! x) x off n (memoryThreads_s P) = map Inr bs"
      "concat bs = encode (var_frame ds (memoryThreads_s P) off n x)"
    using var_fields_encode [OF assms(3) le] by metis
  obtain k' where k': "write_fields K (chunkSize_s P) (map Inr bs) NoError (k, buf) = Inr (NoError, k', buf)"
      "body k' = body k @ concat bs" "sent k' = sent k" "pending k' = pending k"
    using write_fields_ok [OF assms(1), of bs k buf] by metis
  define act where "act = (if value_bytes (ds ! x) - off < maxVarSize_s P then value_bytes (ds ! x) - off
      else maxVarSize_s P)"
  have act: "act = n" by (simp add: n_def act_def)
  have "pieces_loop K P (ds ! x) x nVars \<lparr>varOffset_w = off, i_w = i, condition_w = True, err_w = NoError\<rparr>
      (k, buf) = (case write_fields K (chunkSize_s P) (var_fields (ds ! x) x off act (memoryThreads_s P))
          NoError (k, buf) of
        Inl e \<Rightarrow> Inl e
      | Inr (err, s1) \<Rightarrow> pieces_loop K P (ds ! x) x nVars
          \<lparr>varOffset_w = (if i + 1 < nVars \<and> err = NoError then off + act else off), i_w = i + 1,
           condition_w = (i + 1 < nVars \<and> err = NoError), err_w = err\<rparr> s1)"
    using assms(2)
    unfolding pieces_loop.simps [of K P "ds ! x" x nVars
        "\<lparr>varOffset_w = off, i_w = i, condition_w = True, err_w = NoError\<rparr>"]
      Let_def piece_state.simps act_def [symmetric] by simp
  then have "pieces_loop K P (ds ! x) x nVars \<lparr>varOffset_w = off, i_w = i, condition_w = True, err_w = NoError\<rparr>
      (k, buf) = pieces_loop K P (ds ! x) x nVars \<lparr>varOffset_w = (if i + 1 < nVars then off + n else off),
        i_w = i + 1, condition_w = (i + 1 < nVars), err_w = NoError\<rparr> (k', buf)"
    using bs(1) k'(1) by (simp add: act)
  then show ?thesis using bs(2) k' by auto
qed

text \<open>A variable that fits is sent in one piece.\<close>

lemma pieces_one:
  assumes "0 < chunkSize_s P" "0 < value_bytes (ds ! x)" "value_bytes (ds ! x) \<le> maxVarSize_s P"
    and "offset_d (ds ! x) + value_bytes (ds ! x) + 8 \<le> length (memoryThreads_s P)"
  shows "\<exists>k'. pieces_loop K P (ds ! x) x nVars \<lparr>varOffset_w = 0, i_w = i, condition_w = True, err_w = NoError\<rparr>
      (k, buf) = Inr (\<lparr>varOffset_w = (if i + 1 < nVars then value_bytes (ds ! x) else 0), i_w = i + 1,
        condition_w = (i + 1 < nVars), err_w = NoError\<rparr>, k', buf)
    \<and> body k' = body k @ encode (var_frame ds (memoryThreads_s P) 0 (value_bytes (ds ! x)) x)
    \<and> sent k' = sent k \<and> pending k' = pending k"
  using piece_step [OF assms(1,2,4), of "value_bytes (ds ! x)" nVars i k buf] assms(3)
  by (auto simp: pieces_stop)

text \<open>The variables of a slice, from position \<open>c\<close> of it on.\<close>

lemma vars_loop_whole:
  assumes chunk: "0 < chunkSize_s P" and n: "0 < numberOfVariables_s P" "numberOfVariables_s P < 2147483648"
    and fit: "\<And>x. sends (ds ! x) \<Longrightarrow> x \<in> set (indexListThreads_s P) \<Longrightarrow> value_bytes (ds ! x) \<le> maxVarSize_s P
      \<and> offset_d (ds ! x) + value_bytes (ds ! x) + 8 \<le> length (memoryThreads_s P)"
    and il: "length (indexListThreads_s P) = numberOfVariables_s P"
    and start: "start < numberOfVariables_s P" and nVars: "nVars < 2147483648"
  shows "c \<le> nVars \<Longrightarrow> i \<le> c \<Longrightarrow> \<exists>k' st. vars_loop K ds P nVars ((start + c) mod numberOfVariables_s P) c
      \<lparr>varOffset_w = 0, i_w = i, condition_w = (i < nVars), err_w = NoError\<rparr> (k, buf)
      = Inr ((start + nVars) mod numberOfVariables_s P, nVars, st, k', buf)
    \<and> varOffset_w st = 0 \<and> err_w st = NoError
    \<and> body k' = body k @ encode_all (whole_frames ds (memoryThreads_s P)
        (map (\<lambda>j. indexListThreads_s P ! ((start + j) mod numberOfVariables_s P)) [c..<nVars]))
    \<and> sent k' = sent k \<and> pending k' = pending k"
proof (induction "nVars - c" arbitrary: c i k)
  case 0
  then have "c = nVars" by simp
  then show ?case by (subst vars_loop.simps) (simp add: whole_frames_def)
next
  case (Suc m)
  define n where "n = numberOfVariables_s P"
  define pos where "pos = (start + c) mod n"
  define x where "x = indexListThreads_s P ! pos"
  let ?st = "\<lambda>i. \<lparr>varOffset_w = 0, i_w = i, condition_w = (i < nVars), err_w = NoError\<rparr>"
  let ?next = "vars_loop K ds P nVars ((start + Suc c) mod n) (Suc c)"
  have c: "c < nVars" "i < nVars" using Suc.hyps(2) Suc.prems by auto
  have x: "x \<in> set (indexListThreads_s P)" using assms(2) il by (simp add: x_def pos_def n_def)
  have "pos < n" using assms(2) by (simp add: pos_def n_def)
  then have "u32 (pos + 1) = pos + 1" using assms(3) by (simp add: u32_id n_def)
  then have pos: "u32 (Suc pos) mod n = (start + Suc c) mod n"
    by (simp add: pos_def mod_Suc_eq)
  have upt: "[c..<nVars] = c # [Suc c..<nVars]" using c by (simp add: upt_conv_Cons)
  have wf: "whole_frames ds (memoryThreads_s P) (map (\<lambda>j. indexListThreads_s P ! ((start + j) mod n)) [c..<nVars])
    = (if sends (ds ! x) then [var_frame ds (memoryThreads_s P) 0 (value_bytes (ds ! x)) x] else [])
      @ whole_frames ds (memoryThreads_s P) (map (\<lambda>j. indexListThreads_s P ! ((start + j) mod n)) [Suc c..<nVars])"
    by (simp add: upt whole_frames_def x_def pos_def)
  have "\<exists>i' k1. i' \<le> Suc c \<and> vars_loop K ds P nVars pos c (?st i) (k, buf) = ?next (?st i') (k1, buf)
    \<and> body k1 = body k @ (if sends (ds ! x)
        then encode (var_frame ds (memoryThreads_s P) 0 (value_bytes (ds ! x)) x) else [])
    \<and> sent k1 = sent k \<and> pending k1 = pending k"
  proof (cases "0 < numberOfElements_d (ds ! x) \<and> 0 < memorySize_d (ds ! x)")
    case False
    have "vars_loop K ds P nVars pos c (?st i) (k, buf) = ?next (?st (Suc i)) (k, buf)"
      using False c pos by (subst vars_loop.simps) (auto simp: x_def n_def Let_def)
    then show ?thesis
      using False Suc.prems by (intro exI [of _ "Suc i"] exI [of _ k]) (auto simp: sends_def)
  next
    case here: True
    show ?thesis
    proof (cases "0 < value_bytes (ds ! x)")
      case False
      have "vars_loop K ds P nVars pos c (?st i) (k, buf) = ?next (?st i) (k, buf)"
        using False c pos here
        by (subst vars_loop.simps) (simp add: x_def n_def Let_def pieces_stop)
      then show ?thesis
        using False Suc.prems by (intro exI [of _ i] exI [of _ k]) (auto simp: sends_def)
    next
      case True
      have s: "sends (ds ! x)" using True here by (simp add: sends_def)
      obtain k1 where k1: "pieces_loop K P (ds ! x) x nVars
          \<lparr>varOffset_w = 0, i_w = i, condition_w = True, err_w = NoError\<rparr> (k, buf)
        = Inr (\<lparr>varOffset_w = (if i + 1 < nVars then value_bytes (ds ! x) else 0), i_w = i + 1,
            condition_w = (i + 1 < nVars), err_w = NoError\<rparr>, k1, buf)"
          "body k1 = body k @ encode (var_frame ds (memoryThreads_s P) 0 (value_bytes (ds ! x)) x)"
          "sent k1 = sent k" "pending k1 = pending k"
        using pieces_one [OF chunk True, of nVars i k buf] fit [OF s x] by metis
      have "vars_loop K ds P nVars pos c (?st i) (k, buf) = ?next (?st (Suc i)) (k1, buf)"
        using k1(1) c pos here by (subst vars_loop.simps) (simp add: x_def [symmetric] n_def Let_def)
      then show ?thesis
        using k1(2-) s Suc.prems by (intro exI [of _ "Suc i"] exI [of _ k1]) simp
    qed
  qed
  then obtain i' k1 where st: "i' \<le> Suc c"
      "vars_loop K ds P nVars pos c (?st i) (k, buf) = ?next (?st i') (k1, buf)"
      "body k1 = body k @ (if sends (ds ! x)
        then encode (var_frame ds (memoryThreads_s P) 0 (value_bytes (ds ! x)) x) else [])"
      "sent k1 = sent k" "pending k1 = pending k" by blast
  have "nVars - Suc c = m" "Suc c \<le> nVars" using Suc.hyps(2) by auto
  from Suc.hyps(1) [OF this(1) [symmetric] this(2) st(1), of k1]
  show ?case
    using st(2-) wf unfolding n_def pos_def by auto
qed

subsection \<open>A request\<close>

lemma open_packet_ok:
  assumes "0 < chunkSize_s P"
  obtains k' where "open_packet K P k = (NoError, k')" and "body k' = []" and "sent k' = sent k"
    and "pending k' = pending k"
proof -
  obtain ok k1 where w: "WriteHeader K (packet_headers P) ''/'' (SetChunkMode K False k) = (ok, k1)"
    by (cases "WriteHeader K (packet_headers P) ''/'' (SetChunkMode K False k)")
  obtain ok2 k2 where f: "Flush K k1 = (ok2, k2)" by (cases "Flush K k1")
  show thesis
    using that [of k2] write_header [OF w] flush [OF f] w f assms
    by (simp add: open_packet_def Let_def err_of_def set_chunk_mode)
qed

lemma close_packet_ok:
  assumes "0 < chunkSize_s P"
  obtains k' where "close_packet K P NoError (k, buf) = (NoError, k')" and "sent k' = sent k @ [body k]"
    and "pending k' = pending k"
proof -
  obtain ok k1 where f: "Flush K k = (ok, k1)" by (cases "Flush K k")
  obtain ok2 k2 where c: "FinalChunk K k1 = (ok2, k2)" by (cases "FinalChunk K k1")
  show thesis
    using that [of k2] flush [OF f] final_chunk [OF c] f c assms
    by (simp add: close_packet_def err_of_def)
qed

lemma close_message_ok: "sent (snd (SendCloseConnectionMessage K P k)) = sent k @ [[]]"
proof -
  define k0 where "k0 = SetChunkMode K False k"
  define hs where "hs =
            [(''Host'', HostPort (serverIpAddress_s P) (serverPort_s P)),
             (''Connection'', Lit ''close''),
             (''Content-Type'', Lit ''application/x-www-form-urlencoded; charset=UTF-8''),
             (''Accept-Encoding'', Lit ''gzip, deflate, br''),
             (''Cache-Control'', Lit ''no-cache''),
             (''Transfer-Encoding'', Lit ''chunked''),
             (''Content-Type'', Lit ''text/html'')]"
  obtain ok k1 where w: "WriteHeader K hs ''/'' (SetKeepAlive K False k0) = (ok, k1)"
    by (cases "WriteHeader K hs ''/'' (SetKeepAlive K False k0)")
  obtain ok2 k2 where f: "Flush K k1 = (ok2, k2)" by (cases "Flush K k1")
  obtain ok3 k3 where c: "FinalChunk K (SetChunkMode K True k2) = (ok3, k3)"
    by (cases "FinalChunk K (SetChunkMode K True k2)")
  have "snd (SendCloseConnectionMessage K P k) = k3"
    using w f c write_header [OF w]
    by (simp add: SendCloseConnectionMessage_def Let_def k0_def hs_def)
  then show ?thesis
    using write_header [OF w] flush [OF f] final_chunk [OF c]
    by (simp add: set_chunk_mode set_keep_alive k0_def)
qed

lemma reply_loop_ok:
  "\<exists>err P' k'. reply_loop K t NoError P k = Some (err, P', k') \<and> (err = NoError \<or> err = Completed)
    \<and> sent k' = sent k
    \<and> P' = P\<lparr>packetsNotAck_s := packetsNotAck_s P'\<rparr>"
proof (induction "pending k" arbitrary: P k rule: less_induct)
  case less
  obtain more k1 where p: "Peek K (SetBlocking K False k) = (more, k1)"
    by (cases "Peek K (SetBlocking K False k)")
  note pk = peek [OF p]
  let ?k2 = "SetBlocking K True k1"
  show ?case
  proof (cases more)
    case False
    then show ?thesis
      using p pk by (subst reply_loop.simps) (simp add: Let_def set_blocking)
  next
    case True
    then have pos: "0 < pending ?k2" using pk by (simp add: set_blocking)
    obtain ok k3 where r: "ReadHeader K ?k2 = (ok, k3)" by (cases "ReadHeader K ?k2")
    note rh = read_header [OF pos r]
    let ?k4 = "CompleteReadOperation K k3"
    let ?P1 = "count_packet t (u32_sub (packetsNotAck_s P ! t) 1) P"
    have k4: "sent ?k4 = sent k" "pending ?k4 < pending k"
      using rh pk pos by (simp_all add: set_blocking complete_read)
    show ?thesis
    proof (cases "KeepAlive K ?k4")
      case False
      then show ?thesis
        using p r rh True k4
        by (subst reply_loop.simps) (simp add: Let_def err_of_def count_packet_def)
    next
      case ka: True
      have run: "reply_loop K t NoError P k = reply_loop K t NoError ?P1 ?k4"
        using p r rh True ka
        by (subst reply_loop.simps) (simp add: Let_def err_of_def)
      obtain err P' k' where "reply_loop K t NoError ?P1 ?k4 = Some (err, P', k')"
          "err = NoError \<or> err = Completed" "sent k' = sent ?k4"
          "P' = ?P1\<lparr>packetsNotAck_s := packetsNotAck_s P'\<rparr>"
        using less [OF k4(2), of ?P1] by blast
      moreover have "?P1\<lparr>packetsNotAck_s := x\<rparr> = P\<lparr>packetsNotAck_s := x\<rparr>" for x
        by (simp add: count_packet_def)
      ultimately show ?thesis using run k4(1) by metis
    qed
  qed
qed

subsection \<open>One turn of the loop over the requests\<close>

lemma reply_loop_none:
  assumes "pending k = 0"
  obtains k' where "reply_loop K t NoError P k = Some (NoError, P, k')" and "sent k' = sent k"
    and "pending k' = 0"
proof -
  obtain more k1 where p: "Peek K (SetBlocking K False k) = (more, k1)"
    by (cases "Peek K (SetBlocking K False k)")
  have "reply_loop K t NoError P k = Some (NoError, P, SetBlocking K True k1)"
    using p peek [OF p] assms by (subst reply_loop.simps) (simp add: Let_def set_blocking)
  then show thesis
    using that peek [OF p] assms by (simp add: set_blocking)
qed

text \<open>A request whose variables have been written, on a connection without replies.\<close>

lemma packets_loop_step:
  assumes "0 < chunkSize_s P" "pending k = 0" "c < nVars"
    and vl: "\<And>k1. \<exists>k2. vars_loop K ds P nVars l c
        \<lparr>varOffset_w = off, i_w = 0, condition_w = True, err_w = NoError\<rparr> (k1, []) = Inr (l', c', st, k2, [])
      \<and> body k2 = body k1 @ bs \<and> sent k2 = sent k1 \<and> pending k2 = pending k1"
    and "err_w st = NoError"
  shows "\<exists>k' n. packets_loop K ds t nVars P (l, c, off) k
      = packets_loop K ds t nVars (count_packet t n P) (l', c', varOffset_w st) k'
    \<and> sent k' = sent k @ [bs] \<and> pending k' = 0"
proof -
  obtain k1 where op: "open_packet K P k = (NoError, k1)" "body k1 = []" "sent k1 = sent k" "pending k1 = pending k"
    using open_packet_ok [OF assms(1), of k] by metis
  obtain k2 where vl2: "vars_loop K ds P nVars l c
        \<lparr>varOffset_w = off, i_w = 0, condition_w = True, err_w = NoError\<rparr> (SetChunkMode K True k1, [])
      = Inr (l', c', st, k2, [])" "body k2 = bs" "sent k2 = sent k" "pending k2 = 0"
    using vl [of "SetChunkMode K True k1"] op assms(2) by (auto simp: set_chunk_mode)
  obtain k3 where cl: "close_packet K P NoError (k2, []) = (NoError, k3)" "sent k3 = sent k2 @ [body k2]"
      "pending k3 = pending k2"
    using close_packet_ok [OF assms(1), of k2 "[]"] by metis
  let ?P2 = "count_packet t (u32 (packetsNotAck_s P ! t + 1)) P"
  obtain k4 where rl: "reply_loop K t NoError ?P2 k3 = Some (NoError, ?P2, k4)" "sent k4 = sent k3" "pending k4 = 0"
    using reply_loop_none [of k3 t ?P2] cl(3) vl2(4) by metis
  have "packets_loop K ds t nVars P (l, c, off) k
      = packets_loop K ds t nVars ?P2 (l', c', varOffset_w st) k4"
    using op(1) vl2(1) cl(1) rl(1) assms(1,3,5) by (subst packets_loop.simps) simp
  then show ?thesis using rl(2,3) cl(2) vl2(2,3) by auto
qed

subsection \<open>A whole slice\<close>

text \<open>One request with everything in it, and the closing message when the server asked for it.\<close>

lemma SendVariables_whole:
  assumes chunk: "0 < chunkSize_s P" and n: "0 < numberOfVariables_s P" "numberOfVariables_s P < 2147483648"
    and fit: "\<And>x. sends (pvDescriptor_e S ! x) \<Longrightarrow> x \<in> set (indexListThreads_s P) \<Longrightarrow>
      value_bytes (pvDescriptor_e S ! x) \<le> maxVarSize_s P
      \<and> offset_d (pvDescriptor_e S ! x) + value_bytes (pvDescriptor_e S ! x) + 8 \<le> length (memoryThreads_s P)"
    and il: "length (indexListThreads_s P) = numberOfVariables_s P"
    and start: "currentIdxThreads_s P < numberOfVariables_s P"
    and T: "0 < numberOfPoolThreads_s P"
    and nVars: "0 < slice_length t P" "slice_length t P < 2147483648"
  defines "frs \<equiv> whole_frames (pvDescriptor_e S) (memoryThreads_s P)
      (map (\<lambda>j. indexListThreads_s P ! ((currentIdxThreads_s P + j) mod numberOfVariables_s P))
        [0..<slice_length t P])"
  shows "\<exists>err P' k'. SendVariables K S t P k = Some (Inr (err, P', k'))
    \<and> (err = NoError \<and> sent k' = sent k @ [encode_all frs]
       \<or> err = Completed \<and> sent k' = sent k @ [encode_all frs, []])
    \<and> currentIdxThreads_s P' = (currentIdxThreads_s P + slice_length t P) mod numberOfVariables_s P"
proof -
  let ?nV = "slice_length t P" and ?n = "numberOfVariables_s P" and ?ds = "pvDescriptor_e S"
  define P1 where "P1 = snd (take_slice t P)"
  have ts: "take_slice t P = (currentIdxThreads_s P, P1)" by (simp add: take_slice_def P1_def)
  have f: "chunkSize_s P1 = chunkSize_s P" "numberOfVariables_s P1 = ?n" "maxVarSize_s P1 = maxVarSize_s P"
      "memoryThreads_s P1 = memoryThreads_s P" "indexListThreads_s P1 = indexListThreads_s P"
      "currentIdxThreads_s P1 = (currentIdxThreads_s P + ?nV) mod ?n"
    using start n nVars by (simp_all add: P1_def take_slice_def u32_id)
  have "0 < chunkSize_s P1" using chunk f by simp
  then obtain k1 where op: "open_packet K P1 k = (NoError, k1)" "body k1 = []" "sent k1 = sent k"
    by (rule open_packet_ok)
  let ?st = "\<lparr>varOffset_w = 0, i_w = 0, condition_w = (0 < ?nV), err_w = NoError\<rparr>"
  let ?k1 = "SetChunkMode K True k1"
  obtain k2 st where vl: "vars_loop K ?ds P1 ?nV ((currentIdxThreads_s P + 0) mod ?n) 0 ?st (?k1, [])
      = Inr ((currentIdxThreads_s P + ?nV) mod ?n, ?nV, st, k2, [])"
      "err_w st = NoError" "body k2 = body ?k1 @ encode_all frs" "sent k2 = sent ?k1"
    using vars_loop_whole [of P1 ?ds "currentIdxThreads_s P" ?nV 0 0 ?k1 "[]"] fit assms(1-3) il start nVars(2)
    unfolding f frs_def by auto
  obtain k3 where cl: "close_packet K P1 NoError (k2, []) = (NoError, k3)" "sent k3 = sent k2 @ [body k2]"
    using close_packet_ok [of P1 k2 "[]"] chunk f by metis
  let ?P2 = "count_packet t (u32 (packetsNotAck_s P1 ! t + 1)) P1"
  obtain err P' k4 where rl: "reply_loop K t NoError ?P2 k3 = Some (err, P', k4)"
      "err = NoError \<or> err = Completed" "sent k4 = sent k3" "P' = ?P2\<lparr>packetsNotAck_s := packetsNotAck_s P'\<rparr>"
    using reply_loop_ok by metis
  have cur: "(currentIdxThreads_s P + 0) mod ?n = currentIdxThreads_s P" using start by simp
  have s4: "sent k4 = sent k @ [encode_all frs]"
    using rl(3) cl(2) vl(3,4) op(2,3) by (simp add: set_chunk_mode)
  have c': "currentIdxThreads_s P' = (currentIdxThreads_s P + ?nV) mod ?n"
    by (subst rl(4)) (simp add: count_packet_def f)
  have fin: "packets_loop K ?ds t ?nV P' (l, ?nV, vo) k4 = Some (Inr (NoError, P', k4))" for l vo
    by (subst packets_loop.simps) simp
  have run: "packets_loop K ?ds t ?nV P1 (currentIdxThreads_s P, 0, 0) k
      = Some (Inr (err, P', if err = Completed then snd (SendCloseConnectionMessage K P' k4) else k4))"
    using op(1) vl(1,2) cl(1) rl(1,2) nVars(1) chunk f(1) fin cur
    by (subst packets_loop.simps) auto
  have "SendVariables K S t P k
      = Some (Inr (err, P', if err = Completed then snd (SendCloseConnectionMessage K P' k4) else k4))"
    using run T n(1) unfolding SendVariables_def ts by (simp add: GetPvDescriptors_def)
  then show ?thesis
    using rl(2) s4 c' by (auto simp: close_message_ok)
qed

subsection \<open>Variables that have to be split\<close>

lemma packets_loop_end: "packets_loop K ds t nVars P (l, nVars, off) k = Some (Inr (NoError, P, k))"
  by (subst packets_loop.simps) simp

text \<open>A thread with a single variable writes one piece and stops.\<close>

lemma single_large:
  assumes "0 < chunkSize_s P" "pending k = 0"
    and x: "x = indexListThreads_s P ! l" "sends (ds ! x)" "maxVarSize_s P < value_bytes (ds ! x)"
    and fit: "offset_d (ds ! x) + value_bytes (ds ! x) + 8 \<le> length (memoryThreads_s P)"
  shows "\<exists>P' k'. packets_loop K ds t 1 P (l, 0, 0) k = Some (Inr (NoError, P', k'))
    \<and> sent k' = sent k @ [encode (var_frame ds (memoryThreads_s P) 0 (maxVarSize_s P) x)]"
proof -
  let ?e = "encode (var_frame ds (memoryThreads_s P) 0 (maxVarSize_s P) x)"
  let ?st = "\<lparr>varOffset_w = 0, i_w = 1, condition_w = False, err_w = NoError\<rparr>"
  let ?l = "u32 (l + 1) mod numberOfVariables_s P"
  have pos: "0 < value_bytes (ds ! x)" using x(2) by (simp add: sends_def)
  have "\<exists>k2. vars_loop K ds P 1 l 0 \<lparr>varOffset_w = 0, i_w = 0, condition_w = True, err_w = NoError\<rparr> (k1, [])
      = Inr (?l, 1, ?st, k2, []) \<and> body k2 = body k1 @ ?e \<and> sent k2 = sent k1 \<and> pending k2 = pending k1" for k1
  proof -
    obtain k2 where k2: "pieces_loop K P (ds ! x) x 1 \<lparr>varOffset_w = 0, i_w = 0, condition_w = True, err_w = NoError\<rparr>
        (k1, []) = Inr (?st, k2, [])" "body k2 = body k1 @ ?e" "sent k2 = sent k1" "pending k2 = pending k1"
      using piece_step [OF assms(1) pos fit, of "maxVarSize_s P" 1 0 k1 "[]"] x(3) by (auto simp: pieces_stop)
    have stop: "vars_loop K ds P 1 ?l 1 st s = Inr (?l, 1, st, s)" for st s
      by (subst vars_loop.simps) simp
    have "vars_loop K ds P 1 l 0 \<lparr>varOffset_w = 0, i_w = 0, condition_w = True, err_w = NoError\<rparr> (k1, [])
      = Inr (?l, 1, ?st, k2, [])"
      using k2(1) x(2) stop pos
      by (subst vars_loop.simps) (simp add: x(1) [symmetric] sends_def)
    then show ?thesis using k2(2-) by blast
  qed
  from packets_loop_step [OF assms(1,2) zero_less_one this, of t]
  obtain k' n where "packets_loop K ds t 1 P (l, 0, 0) k
      = packets_loop K ds t 1 (count_packet t n P) (?l, 1, 0) k'" "sent k' = sent k @ [?e]"
    by auto
  then show ?thesis by (simp add: packets_loop_end)
qed

text \<open>
  Two variables of at most two pieces each: the first one uses up the pieces of the first
  request, and the second one is sent from the offset that the first one has left.
\<close>

lemma split_pair:
  assumes "0 < chunkSize_s P" "pending k = 0"
    and x: "x = indexListThreads_s P ! l" "sends (ds ! x)" "m < value_bytes (ds ! x)"
      "value_bytes (ds ! x) \<le> 2 * m"
    and y: "y = indexListThreads_s P ! l'" "sends (ds ! y)" "m < value_bytes (ds ! y)"
      "value_bytes (ds ! y) \<le> 2 * m"
    and l': "l' = u32 (l + 1) mod numberOfVariables_s P" and m: "m = maxVarSize_s P" "0 < m"
    and fit: "offset_d (ds ! x) + value_bytes (ds ! x) + 8 \<le> length (memoryThreads_s P)"
      "offset_d (ds ! y) + value_bytes (ds ! y) + 8 \<le> length (memoryThreads_s P)"
  shows "\<exists>P' k'. packets_loop K ds t 2 P (l, 0, 0) k = Some (Inr (NoError, P', k'))
    \<and> sent k' = sent k @ [encode (var_frame ds (memoryThreads_s P) 0 m x)
          @ encode (var_frame ds (memoryThreads_s P) m (value_bytes (ds ! x) - m) x),
        encode (var_frame ds (memoryThreads_s P) m (value_bytes (ds ! y) - m) y)]"
proof -
  let ?mem = "memoryThreads_s P"
  let ?e1 = "encode (var_frame ds ?mem 0 m x) @ encode (var_frame ds ?mem m (value_bytes (ds ! x) - m) x)"
  let ?e2 = "encode (var_frame ds ?mem m (value_bytes (ds ! y) - m) y)"
  let ?st1 = "\<lparr>varOffset_w = m, i_w = 2, condition_w = False, err_w = NoError\<rparr>"
  let ?st2 = "\<lparr>varOffset_w = 0, i_w = 1, condition_w = True, err_w = NoError\<rparr>"
  let ?l2 = "u32 (l' + 1) mod numberOfVariables_s P"
  have px: "0 < value_bytes (ds ! x)" "m < value_bytes (ds ! y)" using x y by auto
  have one: "\<exists>k2. vars_loop K ds P 2 l 0 \<lparr>varOffset_w = 0, i_w = 0, condition_w = True, err_w = NoError\<rparr> (k1, [])
      = Inr (l', 1, ?st1, k2, []) \<and> body k2 = body k1 @ ?e1 \<and> sent k2 = sent k1 \<and> pending k2 = pending k1" for k1
  proof -
    obtain k2 where k2: "pieces_loop K P (ds ! x) x 2 \<lparr>varOffset_w = 0, i_w = 0, condition_w = True, err_w = NoError\<rparr>
        (k1, []) = pieces_loop K P (ds ! x) x 2 \<lparr>varOffset_w = m, i_w = 1, condition_w = True, err_w = NoError\<rparr> (k2, [])"
        "body k2 = body k1 @ encode (var_frame ds ?mem 0 m x)" "sent k2 = sent k1" "pending k2 = pending k1"
      using piece_step [OF assms(1) px(1) fit(1), of m 2 0 k1 "[]"] x(3) m by auto
    obtain k3 where k3: "pieces_loop K P (ds ! x) x 2 \<lparr>varOffset_w = m, i_w = 1, condition_w = True, err_w = NoError\<rparr> (k2, [])
        = Inr (?st1, k3, [])"
        "body k3 = body k2 @ encode (var_frame ds ?mem m (value_bytes (ds ! x) - m) x)" "sent k3 = sent k2" "pending k3 = pending k2"
      using piece_step [OF assms(1) x(3) fit(1), of "value_bytes (ds ! x) - m" 2 1 k2 "[]"] x(4) m
      by (auto simp: pieces_stop)
    have stop: "vars_loop K ds P 2 l' 1 ?st1 s = Inr (l', 1, ?st1, s)" for s
      by (subst vars_loop.simps) simp
    have "vars_loop K ds P 2 l 0 \<lparr>varOffset_w = 0, i_w = 0, condition_w = True, err_w = NoError\<rparr> (k1, [])
      = Inr (l', 1, ?st1, k3, [])"
      using k2(1) k3(1) x(2,3) stop px
      by (subst vars_loop.simps) (simp add: x(1) [symmetric] sends_def l')
    then show ?thesis using k2(2-) k3(2-) by simp
  qed
  have two: "\<exists>k2. vars_loop K ds Q 2 l' 1 \<lparr>varOffset_w = m, i_w = 0, condition_w = True, err_w = NoError\<rparr> (k1, [])
      = Inr (?l2, 2, ?st2, k2, []) \<and> body k2 = body k1 @ ?e2 \<and> sent k2 = sent k1 \<and> pending k2 = pending k1"
    if Q: "Q = count_packet t n P" for k1 Q n
  proof -
    have f: "chunkSize_s Q = chunkSize_s P" "memoryThreads_s Q = ?mem" "maxVarSize_s Q = m"
        "indexListThreads_s Q = indexListThreads_s P" "numberOfVariables_s Q = numberOfVariables_s P"
      using Q m by (simp_all add: count_packet_def)
    have c: "0 < chunkSize_s Q" using assms(1) f by simp
    have fq: "offset_d (ds ! y) + value_bytes (ds ! y) + 8 \<le> length (memoryThreads_s Q)" using fit(2) f by simp
    obtain k2 where k2: "pieces_loop K Q (ds ! y) y 2 \<lparr>varOffset_w = m, i_w = 0, condition_w = True, err_w = NoError\<rparr>
        (k1, []) = Inr (\<lparr>varOffset_w = value_bytes (ds ! y), i_w = 1, condition_w = True, err_w = NoError\<rparr>, k2, [])"
        "body k2 = body k1 @ ?e2" "sent k2 = sent k1" "pending k2 = pending k1"
      using piece_step [OF c px(2) fq, of "value_bytes (ds ! y) - m" 2 0 k1 "[]"] y(3,4) f
      by (auto simp: pieces_stop)
    have stop: "vars_loop K ds Q 2 ?l2 2 st s = Inr (?l2, 2, st, s)" for st s
      by (subst vars_loop.simps) simp
    have "vars_loop K ds Q 2 l' 1 \<lparr>varOffset_w = m, i_w = 0, condition_w = True, err_w = NoError\<rparr> (k1, [])
      = Inr (?l2, 2, ?st2, k2, [])"
      using k2(1) y(2) stop
      by (subst vars_loop.simps) (simp add: f y(1) [symmetric] sends_def numeral_2_eq_2 [symmetric])
    then show ?thesis using k2(2-) by simp
  qed
  obtain k1 n1 where k1: "packets_loop K ds t 2 P (l, 0, 0) k
      = packets_loop K ds t 2 (count_packet t n1 P) (l', 1, m) k1" "sent k1 = sent k @ [?e1]" "pending k1 = 0"
    using packets_loop_step [OF assms(1,2) zero_less_numeral one, of t] by auto
  have one_lt: "1 < (2 :: nat)" by simp
  have c: "0 < chunkSize_s (count_packet t n1 P)" using assms(1) by (simp add: count_packet_def)
  obtain k2 n2 where "packets_loop K ds t 2 (count_packet t n1 P) (l', 1, m) k1
      = packets_loop K ds t 2 (count_packet t n2 (count_packet t n1 P)) (?l2, 2, 0) k2" "sent k2 = sent k1 @ [?e2]"
    using packets_loop_step [OF c k1(3) one_lt two [OF refl], of t] by auto
  then show ?thesis using k1(1,2) by (simp add: packets_loop_end)
qed

end

end
