(* ===== verification/SenderWireTheorems.thy ===== *)
theory SenderWireTheorems
  imports SenderStream
begin

section \<open>What the sending threads guarantee\<close>

text \<open>
  The properties of \<open>SendVariables\<close>: the threads share the window out without gap or overlap,
  whatever the order in which they take the lock; a thread whose variables fit \<open>MaxVarSize\<close>
  sends its slice in one request, in the receiver's format; and what goes wrong when a
  variable has to be split, or when a reply cannot be read.
\<close>

subsection \<open>Sharing the window\<close>

definition slice_vars :: "nat \<Rightarrow> sender \<Rightarrow> nat list" where
  "slice_vars t P = map (\<lambda>j. indexListThreads_s P ! ((currentIdxThreads_s P + j) mod numberOfVariables_s P))
     [0..<slice_length t P]"

text \<open>The slices that the threads get when they take the lock in the given order.\<close>

fun take_slices :: "nat list \<Rightarrow> sender \<Rightarrow> nat list list" where
  "take_slices [] P = []"
| "take_slices (t # ts) P = slice_vars t P # take_slices ts (snd (take_slice t P))"

lemma slice_length_take [simp]: "slice_length t (snd (take_slice u P)) = slice_length t P"
proof -
  have "slice_length t (P\<lparr>currentIdxThreads_s := x\<rparr>) = slice_length t P" for x
    by (simp add: slice_length_def Let_def)
  then show ?thesis by (simp add: take_slice_def)
qed

lemma map_mod_append:
  assumes "x = (c + a) mod n"
  shows "map (\<lambda>j. f ((c + j) mod n)) [0..<a] @ map (\<lambda>j. f ((x + j) mod n)) [0..<b]
    = map (\<lambda>j. f ((c + j) mod n)) [0..<a + b]"
proof -
  have "map (\<lambda>j. f ((c + j) mod n)) [a..<a + b] = map (\<lambda>j. f ((c + (a + j)) mod n)) [0..<b]"
    by (intro nth_equalityI) simp_all
  also have "\<dots> = map (\<lambda>j. f ((x + j) mod n)) [0..<b]"
    unfolding assms mod_add_left_eq by (simp add: add.assoc)
  finally show ?thesis
    by (simp only: upt_add_eq_append [OF le0] map_append add_0_left)
qed

lemma take_slices_concat:
  assumes "currentIdxThreads_s P < numberOfVariables_s P" "numberOfVariables_s P < 2147483648"
    and "sum_list (map (\<lambda>t. slice_length t P) ts) < 2147483648"
  shows "concat (take_slices ts P) = map (\<lambda>j. indexListThreads_s P !
      ((currentIdxThreads_s P + j) mod numberOfVariables_s P)) [0..<sum_list (map (\<lambda>t. slice_length t P) ts)]"
  using assms
proof (induction ts arbitrary: P)
  case Nil
  then show ?case by simp
next
  case (Cons t ts)
  define P1 where "P1 = snd (take_slice t P)"
  have f: "numberOfVariables_s P1 = numberOfVariables_s P" "indexListThreads_s P1 = indexListThreads_s P"
      "currentIdxThreads_s P1 = (currentIdxThreads_s P + slice_length t P) mod numberOfVariables_s P"
      "\<And>u. slice_length u P1 = slice_length u P"
    using Cons.prems by (simp_all add: P1_def) (simp_all add: take_slice_def u32_id)
  have "concat (take_slices ts P1) = map (\<lambda>j. indexListThreads_s P !
      ((currentIdxThreads_s P1 + j) mod numberOfVariables_s P)) [0..<sum_list (map (\<lambda>t. slice_length t P) ts)]"
    using Cons.IH [of P1] Cons.prems by (simp add: f)
  then show ?case
    using map_mod_append [OF f(3), of "\<lambda>p. indexListThreads_s P ! p"]
    by (simp add: P1_def [symmetric] slice_vars_def)
qed

lemma sum_slices:
  assumes "mset ts = mset [0..<numberOfPoolThreads_s P]" "0 < numberOfPoolThreads_s P"
    and "numberOfPoolThreads_s P < 4294967296"
  shows "sum_list (map (\<lambda>t. slice_length t P) ts) = numberOfChangedVariables_s P"
proof -
  let ?T = "numberOfPoolThreads_s P" and ?N = "numberOfChangedVariables_s P"
  have u: "u32_sub ?T 1 = ?T - 1" using assms(2,3) by (simp add: u32_sub_id)
  have "sum_list (map (\<lambda>t. slice_length t P) ts) = sum_mset (image_mset (\<lambda>t. slice_length t P) (mset ts))"
    by (metis mset_map sum_mset_sum_list)
  also have "\<dots> = sum_list (map (\<lambda>t. slice_length t P) [0..<?T])"
    unfolding assms(1) by (metis mset_map sum_mset_sum_list)
  also have "[0..<?T] = [0..<?T - 1] @ [?T - 1]"
    using assms(2) by (metis Suc_pred' upt_Suc_append zero_le)
  also have "sum_list (map (\<lambda>t. slice_length t P) ([0..<?T - 1] @ [?T - 1]))
      = sum_list (map (\<lambda>t. ?N div ?T) [0..<?T - 1]) + (?N div ?T + ?N mod ?T)"
    using u by (simp add: slice_length_def Let_def) (intro arg_cong [where f = sum_list] map_cong; simp)
  also have "\<dots> = (?T - 1) * (?N div ?T) + (?N div ?T + ?N mod ?T)"
    by (simp add: map_replicate_const sum_list_replicate)
  also have "\<dots> = ?T * (?N div ?T) + ?N mod ?T"
    using assms(2) by (cases ?T) simp_all
  finally show ?thesis by simp
qed

text \<open>
  (C18) In whatever order the threads of the pool take the lock, their slices together are
  exactly the variables that the main thread handed over, in the order of the queue.
\<close>

theorem slices_are_the_window:
  assumes "mset ts = mset [0..<numberOfPoolThreads_s P]" and "0 < numberOfPoolThreads_s P"
    and "numberOfPoolThreads_s P < 4294967296"
    and "currentIdxThreads_s P < numberOfVariables_s P" and "numberOfVariables_s P < 2147483648"
    and "numberOfChangedVariables_s P < 2147483648"
  shows "concat (take_slices ts P) = sent_now P"
proof -
  have "queue_pos (numberOfVariables_s P) (currentIdxThreads_s P) k
      = (currentIdxThreads_s P + k) mod numberOfVariables_s P" if "k < numberOfChangedVariables_s P" for k
    using that assms(4-6) by (simp add: queue_pos_def u32_id)
  then show ?thesis
    using take_slices_concat [OF assms(4,5)] sum_slices [OF assms(1-3)] assms(6)
    by (simp add: sent_now_def)
qed

theorem slices_are_the_window_witness:
  "concat (take_slices [1, 0, 2] (ex_sender\<lparr>numberOfPoolThreads_s := 3, numberOfVariables_s := 7,
      indexListThreads_s := [3, 1, 0, 2, 6, 5, 4], currentIdxThreads_s := 5,
      numberOfChangedVariables_s := 4\<rparr>)) = [5, 4, 3, 1]"
  (is "concat (take_slices ?ts ?P) = _")
proof -
  have "concat (take_slices ?ts ?P) = sent_now ?P"
    by (rule slices_are_the_window) (simp_all add: upt_rec)
  also have "\<dots> = [5, 4, 3, 1]"
    by (simp add: sent_now_def queue_pos_def u32_def upt_rec)
  finally show ?thesis .
qed

subsection \<open>Sending a slice\<close>

definition sending_ok :: "subscriber \<Rightarrow> sender \<Rightarrow> bool" where
  "sending_ok S P \<longleftrightarrow> 0 < numberOfVariables_s P \<and> numberOfVariables_s P < 2147483648
     \<and> length (indexListThreads_s P) = numberOfVariables_s P
     \<and> currentIdxThreads_s P < numberOfVariables_s P
     \<and> 0 < numberOfPoolThreads_s P \<and> 0 < chunkSize_s P
     \<and> (\<forall>x \<in> set (indexListThreads_s P). sends (pvDescriptor_e S ! x) \<longrightarrow>
          offset_d (pvDescriptor_e S ! x) + value_bytes (pvDescriptor_e S ! x) + 8
            \<le> length (memoryThreads_s P))"

definition fits_whole :: "subscriber \<Rightarrow> sender \<Rightarrow> bool" where
  "fits_whole S P \<longleftrightarrow> (\<forall>x \<in> set (indexListThreads_s P).
     sends (pvDescriptor_e S ! x) \<longrightarrow> value_bytes (pvDescriptor_e S ! x) \<le> maxVarSize_s P)"

text \<open>
  (C17) When no variable is larger than \<open>MaxVarSize\<close>, a thread sends its slice in one request:
  the frames of its variables, in the order of the queue, with the values and time stamps of
  the memory that was handed over; no copy leaves that memory.
\<close>

theorem thread_sends_its_slice:
  assumes "reliable_client K body sent pending" and "sending_ok S P" and "fits_whole S P"
    and "0 < slice_length t P" and "slice_length t P < 2147483648"
  shows "\<exists>err P' k'. SendVariables K S t P k = Some (Inr (err, P', k'))
    \<and> (err = NoError \<and> sent k' = sent k
          @ [encode_all (whole_frames (pvDescriptor_e S) (memoryThreads_s P) (slice_vars t P))]
       \<or> err = Completed \<and> sent k' = sent k
          @ [encode_all (whole_frames (pvDescriptor_e S) (memoryThreads_s P) (slice_vars t P)), []])"
proof -
  have ok: "0 < chunkSize_s P" "0 < numberOfVariables_s P" "numberOfVariables_s P < 2147483648"
      "length (indexListThreads_s P) = numberOfVariables_s P"
      "currentIdxThreads_s P < numberOfVariables_s P" "0 < numberOfPoolThreads_s P"
    using assms(2) by (simp_all add: sending_ok_def)
  have fit: "value_bytes (pvDescriptor_e S ! x) \<le> maxVarSize_s P
      \<and> offset_d (pvDescriptor_e S ! x) + value_bytes (pvDescriptor_e S ! x) + 8 \<le> length (memoryThreads_s P)"
    if "sends (pvDescriptor_e S ! x)" "x \<in> set (indexListThreads_s P)" for x
    using that assms(2,3) by (simp add: sending_ok_def fits_whole_def)
  show ?thesis
    using reliable_client.SendVariables_whole [OF assms(1) ok(1-3) fit ok(4-6) assms(4,5), of k]
    unfolding slice_vars_def by blast
qed

definition ex_sending :: sender where
  "ex_sending = ex_sender\<lparr>packetsNotAck_s := [0], numberOfChangedVariables_s := 2\<rparr>"

definition ex_conn :: ref_conn where
  "ex_conn = \<lparr>rc_body = [], rc_sent = [], rc_replies = [True], rc_keep = True\<rparr>"

lemma ex_sending_ok: "sending_ok ex_running ex_sending" "fits_whole ex_running ex_sending"
  by (simp_all add: sending_ok_def fits_whole_def ex_sending_def ex_sender_def PrioritySender_def)

theorem thread_sends_its_slice_witness:
  "\<exists>err P' k' more. SendVariables ref_client ex_running 0 ex_sending ex_conn = Some (Inr (err, P', k'))
    \<and> rc_sent k' = encode_all (whole_frames [ex_placed 0, ex_placed 1] (replicate 24 0) [0, 1]) # more"
proof -
  have l: "slice_length 0 ex_sending = 2"
    by (simp add: slice_length_def ex_sending_def u32_sub_def u32_def)
  have s: "slice_vars 0 ex_sending = [0, 1]"
    unfolding slice_vars_def l
    by (simp add: ex_sending_def ex_sender_def PrioritySender_def upt_rec)
  have m: "memoryThreads_s ex_sending = replicate 24 0" "rc_sent ex_conn = []"
    by (simp_all add: ex_sending_def ex_conn_def)
  show ?thesis
    using thread_sends_its_slice [OF ref_conn.reliable_client_axioms ex_sending_ok, of 0 ex_conn]
    unfolding l s m by auto
qed

subsection \<open>Variables that have to be split\<close>

text \<open>
  A thread that has one variable to send, larger than \<open>MaxVarSize\<close>, sends its first piece
  and nothing else: the count of pieces, not of variables, ends the request.
\<close>

lemma large_variable_is_truncated:
  assumes "reliable_client K body sent pending" and "sending_ok S P" and "pending k = 0"
    and "slice_length t P = 1" and x_def: "x = indexListThreads_s P ! currentIdxThreads_s P"
    and "sends (pvDescriptor_e S ! x)" and "maxVarSize_s P < value_bytes (pvDescriptor_e S ! x)"
  shows "\<exists>P' k'. SendVariables K S t P k = Some (Inr (NoError, P', k'))
    \<and> sent k' = sent k @ [encode (var_frame (pvDescriptor_e S) (memoryThreads_s P) 0 (maxVarSize_s P) x)]"
proof -
  have ok: "0 < chunkSize_s (snd (take_slice t P))" "0 < numberOfVariables_s P" "0 < numberOfPoolThreads_s P"
    using assms(2) by (simp_all add: sending_ok_def take_slice_def)
  have "x \<in> set (indexListThreads_s P)" using assms(2) x_def by (simp add: sending_ok_def)
  then have "offset_d (pvDescriptor_e S ! x) + value_bytes (pvDescriptor_e S ! x) + 8 \<le> length (memoryThreads_s P)"
    using assms(2,6) by (simp add: sending_ok_def)
  then show ?thesis
    using reliable_client.single_large [OF assms(1) ok(1) assms(3), of x "currentIdxThreads_s P" "pvDescriptor_e S" t]
      ok(2,3) assms(4-)
    by (simp add: SendVariables_def GetPvDescriptors_def) (simp add: take_slice_def)
qed

lemma large_variable_is_truncated_witness:
  "\<exists>P' k'. SendVariables ref_client ex_running 0 (ex_sending\<lparr>numberOfChangedVariables_s := 1, maxVarSize_s := 3\<rparr>)
      (ex_conn\<lparr>rc_replies := []\<rparr>) = Some (Inr (NoError, P', k'))
    \<and> rc_sent k' = [encode (var_frame [ex_placed 0, ex_placed 1] (replicate 24 0) 0 3 0)]"
proof -
  let ?P = "ex_sending\<lparr>numberOfChangedVariables_s := 1, maxVarSize_s := 3\<rparr>"
  let ?k = "ex_conn\<lparr>rc_replies := []\<rparr>"
  have "sending_ok ex_running ?P" using ex_sending_ok(1) by (simp add: sending_ok_def)
  moreover have "slice_length 0 ?P = 1"
    by (simp add: slice_length_def ex_sending_def u32_sub_def u32_def)
  moreover have "indexListThreads_s ?P ! currentIdxThreads_s ?P = 0"
    by (simp add: ex_sending_def ex_sender_def PrioritySender_def)
  moreover have "sends (ex_placed 0)" by (simp add: sends_def) (simp add: ex_placed_def)
  ultimately show ?thesis
    using large_variable_is_truncated [OF ref_conn.reliable_client_axioms, of ex_running ?P ?k 0 0]
    by (simp add: ex_conn_def ex_sending_def)
qed

text \<open>
  (C39) A variable that has to be split costs the next one its beginning: with two variables of
  at most two pieces each, the second request starts at the offset where the first variable
  stopped, so the first \<open>MaxVarSize\<close> bytes of the second variable are never sent.
\<close>

theorem split_variable_loses_start:
  assumes "reliable_client K body sent pending" and "sending_ok S P" and "pending k = 0"
    and "slice_length t P = 2" and "slice_vars t P = [x, y]"
    and ds_def: "ds = pvDescriptor_e S" and m_def: "m = maxVarSize_s P"
    and "sends (ds ! x)" and "m < value_bytes (ds ! x)" and "value_bytes (ds ! x) \<le> 2 * m"
    and "sends (ds ! y)" and "m < value_bytes (ds ! y)" and "value_bytes (ds ! y) \<le> 2 * m"
  shows "\<exists>P' k'. SendVariables K S t P k = Some (Inr (NoError, P', k'))
    \<and> sent k' = sent k @ [encode (var_frame ds (memoryThreads_s P) 0 m x)
          @ encode (var_frame ds (memoryThreads_s P) m (value_bytes (ds ! x) - m) x),
        encode (var_frame ds (memoryThreads_s P) m (value_bytes (ds ! y) - m) y)]"
proof -
  let ?n = "numberOfVariables_s P" and ?P1 = "snd (take_slice t P)" and ?l = "currentIdxThreads_s P"
  have ok: "0 < chunkSize_s ?P1" "0 < ?n" "0 < numberOfPoolThreads_s P" "?l < ?n" "?n < 2147483648"
      "length (indexListThreads_s P) = ?n"
    using assms(2) by (simp_all add: sending_ok_def take_slice_def)
  have xy: "x = indexListThreads_s P ! ?l" "y = indexListThreads_s P ! ((?l + 1) mod ?n)"
    using assms(4,5) ok(4) by (auto simp: slice_vars_def upt_rec)
  have l': "(?l + 1) mod ?n = u32 (?l + 1) mod ?n" using ok by (simp add: u32_id)
  have "x \<in> set (indexListThreads_s P)" "y \<in> set (indexListThreads_s P)"
    using xy ok by simp_all
  then have fit: "offset_d (ds ! x) + value_bytes (ds ! x) + 8 \<le> length (memoryThreads_s P)"
      "offset_d (ds ! y) + value_bytes (ds ! y) + 8 \<le> length (memoryThreads_s P)"
    using assms(2,8,11) by (simp_all add: sending_ok_def ds_def)
  have f: "indexListThreads_s ?P1 = indexListThreads_s P" "numberOfVariables_s ?P1 = ?n"
      "maxVarSize_s ?P1 = m" "memoryThreads_s ?P1 = memoryThreads_s P"
    by (simp_all add: take_slice_def m_def)
  have "0 < m" using assms(9,10) by simp
  then have "\<exists>P' k'. packets_loop K ds t 2 ?P1 (?l, 0, 0) k = Some (Inr (NoError, P', k'))
    \<and> sent k' = sent k @ [encode (var_frame ds (memoryThreads_s P) 0 m x)
          @ encode (var_frame ds (memoryThreads_s P) m (value_bytes (ds ! x) - m) x),
        encode (var_frame ds (memoryThreads_s P) m (value_bytes (ds ! y) - m) y)]"
    using reliable_client.split_pair [OF assms(1) ok(1) assms(3), of x ?l ds m y "(?l + 1) mod ?n" t]
      xy l' fit assms(8-) unfolding f by blast
  moreover have "take_slice t P = (?l, snd (take_slice t P))" by (simp add: take_slice_def)
  ultimately show ?thesis
    using ok(2,3) assms(4) ds_def unfolding SendVariables_def
    by (metis (no_types, lifting) GetPvDescriptors_def case_prod_conv not_less_zero)
qed

theorem split_variable_loses_start_witness:
  "\<exists>P' k'. SendVariables ref_client ex_running 0 (ex_sending\<lparr>maxVarSize_s := 3\<rparr>)
      (ex_conn\<lparr>rc_replies := []\<rparr>) = Some (Inr (NoError, P', k'))
    \<and> rc_sent k' = [encode (var_frame [ex_placed 0, ex_placed 1] (replicate 24 0) 0 3 0)
          @ encode (var_frame [ex_placed 0, ex_placed 1] (replicate 24 0) 3 1 0),
        encode (var_frame [ex_placed 0, ex_placed 1] (replicate 24 0) 3 1 1)]"
proof -
  let ?P = "ex_sending\<lparr>maxVarSize_s := 3\<rparr>"
  let ?k = "ex_conn\<lparr>rc_replies := []\<rparr>"
  have "sending_ok ex_running ?P" using ex_sending_ok(1) by (simp add: sending_ok_def)
  moreover have l: "slice_length 0 ?P = 2"
    by (simp add: slice_length_def ex_sending_def u32_sub_def u32_def)
  moreover have "slice_vars 0 ?P = [0, 1]"
    unfolding slice_vars_def l by (simp add: ex_sending_def ex_sender_def PrioritySender_def upt_rec)
  moreover have "sends (ex_placed i)" for i by (simp add: sends_def) (simp add: ex_placed_def)
  ultimately show ?thesis
    using split_variable_loses_start [OF ref_conn.reliable_client_axioms, of ex_running ?P ?k 0 0 1
        "pvDescriptor_e ex_running" 3]
    by (simp add: ex_conn_def) (simp add: ex_sending_def)
qed

end
