(* ===== verification/SenderThreads.thy ===== *)
theory SenderThreads
  imports SenderWireTheorems
begin

section \<open>PrioritySender: the handshake of the main thread with the pool\<close>

text \<open>
  \<open>PrioritySender::ThreadCycle\<close>, which \<open>MultiThreadService\<close> runs in every thread of the pool,
  \<open>PrioritySender::Stop\<close> and the loop of \<open>PrioritySenderCycleLoop\<close>, as a step relation over
  the threads. A step is what a thread does between two points at which another thread can
  be noticed: the lock, the event semaphore and the test of \<open>quit\<close>.

  \<open>EventSem\<close> is a condition variable with a flag: \<open>Wait\<close> goes on when the flag is set and
  blocks otherwise, \<open>Post\<close> sets the flag and wakes every blocked thread, \<open>Reset\<close> clears the
  flag. \<open>MultiThreadService\<close> runs the start-up stage, then the main stage until it returns an
  error or the service is stopped, then the last stage, and perhaps the start-up stage again.

  Preparing a cycle and sending a slice are single steps. That the threads read what the main
  thread copies only while it does not copy is what the first property shows. A step that
  faults, or that does not return, is not a step of the relation.
\<close>

datatype thread_pc =
    Starting      \<comment> \<open>before the \<open>Wait\<close> of the start-up stage\<close>
  | Start_Wait    \<comment> \<open>blocked in it\<close>
  | Connecting    \<comment> \<open>after it\<close>
  | Entering      \<comment> \<open>before the main stage\<close>
  | Checked_In    \<comment> \<open>after the lock of the main stage\<close>
  | To_Wait       \<comment> \<open>after the test of \<open>quit\<close>\<close>
  | Cycle_Wait    \<comment> \<open>blocked in the \<open>Wait\<close> of the main stage\<close>
  | Sending       \<comment> \<open>after it\<close>
  | Ending        \<comment> \<open>in the last stage\<close>
  | Ended

datatype main_pc =
    M_Begin | M_Read | M_Lock | M_Prepare nat nat | M_Decide nat | M_Copy | M_Post | M_Last | M_Done

text \<open>
  A thread: its number (at first \<open>0xFFFF\<close>), the connection of its context, and whether it has
  been counted in \<open>nThreadsFinished\<close> since the last handover (an observation, not a field of
  the program).
\<close>

record 'k pool_thread =
  pc_p :: thread_pc
  number_p :: nat
  client_p :: "'k option"
  checked_p :: bool

record 'k pool =
  sender_p :: sender
  source_p :: subscriber
  locals_p :: cycle_locals
  main_p :: main_pc
  threads_p :: "'k pool_thread list"

subsection \<open>What a thread does\<close>

text \<open>The part of the main and of the last stage under the lock.\<close>

definition check_in :: "sender \<Rightarrow> sender" where
  "check_in P = P\<lparr>eventSem_s := False, nThreadsFinished_s := u32 (nThreadsFinished_s P + 1)\<rparr>"

text \<open>The start-up stage after \<open>Connect\<close>; without a connection (\<open>quit\<close>) nothing is done.\<close>

definition startup_stage :: "'k option \<Rightarrow> sender \<Rightarrow> 'k pool_thread \<Rightarrow> sender \<times> 'k pool_thread" where
  "startup_stage connection P t =
     (case connection of
        None \<Rightarrow> (P, t\<lparr>pc_p := Entering\<rparr>)
      | Some k \<Rightarrow>
          (if number_p t = 0xFFFF
           then (P\<lparr>threadIndex_s := u32 (threadIndex_s P + 1), chunckCounter_s := 0\<rparr>,
                 t\<lparr>pc_p := Entering, client_p := Some k, number_p := threadIndex_s P\<rparr>)
           else (P\<lparr>chunckCounter_s := 0\<rparr>, t\<lparr>pc_p := Entering, client_p := Some k\<rparr>)))"

text \<open>The main stage after the \<open>Wait\<close>; the error decides on the next stage.\<close>

definition main_stage ::
  "'k http_client \<Rightarrow> subscriber \<Rightarrow> sender \<Rightarrow> 'k pool_thread \<Rightarrow> (fault + sender \<times> 'k pool_thread) option"
where
  "main_stage K S P t =
     (case client_p t of
        None \<Rightarrow> Some (Inr (P, t\<lparr>pc_p := Entering\<rparr>))
      | Some k \<Rightarrow>
          (case SendVariables K S (number_p t) P k of
             None \<Rightarrow> None
           | Some (Inl e) \<Rightarrow> Some (Inl e)
           | Some (Inr (err, P, k)) \<Rightarrow>
               Some (Inr (P, t\<lparr>pc_p := (if err = NoError then Entering else Ending),
                               client_p := Some k\<rparr>))))"

text \<open>The last stage: the message, the end of the connection, and the check-in.\<close>

definition last_stage :: "'k http_client \<Rightarrow> sender \<Rightarrow> 'k pool_thread \<Rightarrow> 'k option \<times> sender \<times> 'k pool_thread" where
  "last_stage K P t =
     (map_option (\<lambda>k. snd (SendCloseConnectionMessage K P k)) (client_p t),
      check_in P, t\<lparr>client_p := None, checked_p := True\<rparr>)"

inductive thread_step ::
  "'k http_client \<Rightarrow> subscriber \<Rightarrow> sender \<Rightarrow> 'k pool_thread \<Rightarrow> sender \<Rightarrow> 'k pool_thread \<Rightarrow> bool"
  for K :: "'k http_client" and S :: subscriber
where
  start_pass: "pc_p t = Starting \<Longrightarrow> eventSem_s P \<Longrightarrow> thread_step K S P t P (t\<lparr>pc_p := Connecting\<rparr>)"
| start_block: "pc_p t = Starting \<Longrightarrow> \<not> eventSem_s P \<Longrightarrow> thread_step K S P t P (t\<lparr>pc_p := Start_Wait\<rparr>)"
| connect: "pc_p t = Connecting \<Longrightarrow> connection = None \<longleftrightarrow> quit_s P \<noteq> 0
    \<Longrightarrow> startup_stage connection P t = (P', t') \<Longrightarrow> thread_step K S P t P' t'"
| enter: "pc_p t = Entering
    \<Longrightarrow> thread_step K S P t (check_in P) (t\<lparr>pc_p := Checked_In, checked_p := True\<rparr>)"
| leave: "pc_p t = Entering \<Longrightarrow> thread_step K S P t P (t\<lparr>pc_p := Ending\<rparr>)"
| test_run: "pc_p t = Checked_In \<Longrightarrow> quit_s P = 0 \<Longrightarrow> thread_step K S P t P (t\<lparr>pc_p := To_Wait\<rparr>)"
| test_quit: "pc_p t = Checked_In \<Longrightarrow> quit_s P \<noteq> 0 \<Longrightarrow> thread_step K S P t P (t\<lparr>pc_p := Entering\<rparr>)"
| wait_pass: "pc_p t = To_Wait \<Longrightarrow> eventSem_s P \<Longrightarrow> thread_step K S P t P (t\<lparr>pc_p := Sending\<rparr>)"
| wait_block: "pc_p t = To_Wait \<Longrightarrow> \<not> eventSem_s P \<Longrightarrow> thread_step K S P t P (t\<lparr>pc_p := Cycle_Wait\<rparr>)"
| send: "pc_p t = Sending \<Longrightarrow> main_stage K S P t = Some (Inr (P', t')) \<Longrightarrow> thread_step K S P t P' t'"
| finish: "pc_p t = Ending \<Longrightarrow> last_stage K P t = (k, P', t') \<Longrightarrow> pc \<in> {Starting, Ended}
    \<Longrightarrow> thread_step K S P t P' (t'\<lparr>pc_p := pc\<rparr>)"

inductive_cases thread_stepE: "thread_step K S P t P' t'"

subsection \<open>What the main thread does\<close>

definition wake :: "'k pool_thread \<Rightarrow> 'k pool_thread" where
  "wake t = (case pc_p t of
       Start_Wait \<Rightarrow> t\<lparr>pc_p := Connecting\<rparr>
     | Cycle_Wait \<Rightarrow> t\<lparr>pc_p := Sending\<rparr>
     | _ \<Rightarrow> t)"

text \<open>\<open>eventSem.Post()\<close>.\<close>

definition post :: "'k pool \<Rightarrow> 'k pool" where
  "post s = s\<lparr>sender_p := (sender_p s)\<lparr>eventSem_s := True\<rparr>, threads_p := map wake (threads_p s)\<rparr>"

text \<open>The handover up to \<open>Post\<close>, and the rest of the turn from \<open>Post\<close> on.\<close>

definition copy_step :: "sender \<Rightarrow> cycle_locals \<Rightarrow> fault + sender \<times> cycle_locals" where
  "copy_step P c =
     (case hand_over P c of Inl e \<Rightarrow> Inl e | Inr (P', c') \<Rightarrow> Inr (P'\<lparr>eventSem_s := eventSem_s P\<rparr>, c'))"

definition end_turn :: "nat \<Rightarrow> 'k pool \<Rightarrow> 'k pool" where
  "end_turn now s =
     (post s)\<lparr>sender_p := (sender_p s)\<lparr>eventSem_s := True, lastTickCounter_s := now\<rparr>,
              locals_p := (locals_p s)\<lparr>sendCounter_c := u32 (sendCounter_c (locals_p s) + 1)\<rparr>,
              main_p := M_Read, threads_p := map (\<lambda>t. (wake t)\<lparr>checked_p := False\<rparr>) (threads_p s)\<rparr>"

inductive pool_step :: "marte \<Rightarrow> 'k http_client \<Rightarrow> 'k pool \<Rightarrow> 'k pool \<Rightarrow> bool"
  for L :: marte and K :: "'k http_client"
where
  main_begin: "main_p s = M_Begin \<Longrightarrow> pool_step L K s ((post s)\<lparr>main_p := M_Read\<rparr>)"
| main_go: "main_p s = M_Read \<Longrightarrow> quit_s (sender_p s) = 0 \<Longrightarrow> pool_step L K s (s\<lparr>main_p := M_Lock\<rparr>)"
| main_quit: "main_p s = M_Read \<Longrightarrow> quit_s (sender_p s) \<noteq> 0 \<Longrightarrow> pool_step L K s (s\<lparr>main_p := M_Last\<rparr>)"
| main_lock: "main_p s = M_Lock \<Longrightarrow> pool_step L K s
    (s\<lparr>main_p := M_Prepare (nThreadsFinished_s (sender_p s)) (chunckCounter_s (sender_p s))\<rparr>)"
| main_prepare: "main_p s = M_Prepare tmp ck \<Longrightarrow>
    (if changed_c (locals_p s) then Inr (source_p s, sender_p s, locals_p s)
     else prepare_cycle L ck (source_p s) (sender_p s) (locals_p s)) = Inr (S, P, c) \<Longrightarrow>
    pool_step L K s (s\<lparr>source_p := S, sender_p := P, locals_p := c, main_p := M_Decide tmp\<rparr>)"
| main_decide: "main_p s = M_Decide tmp \<Longrightarrow> pool_step L K s
    (s\<lparr>main_p := (if tmp = numberOfPoolThreads_s (sender_p s) then M_Copy else M_Read)\<rparr>)"
| main_copy: "main_p s = M_Copy \<Longrightarrow> copy_step (sender_p s) (locals_p s) = Inr (P, c) \<Longrightarrow>
    pool_step L K s (s\<lparr>sender_p := P, locals_p := c, main_p := M_Post\<rparr>)"
| main_post: "main_p s = M_Post \<Longrightarrow> pool_step L K s (end_turn now s)"
| main_last: "main_p s = M_Last \<Longrightarrow>
    nThreadsFinished_s (sender_p s) \<ge> numberOfPoolThreads_s (sender_p s) \<Longrightarrow>
    pool_step L K s ((post s)\<lparr>main_p := M_Done\<rparr>)"
| stop: "pool_step L K s (s\<lparr>sender_p := Stop_s (sender_p s)\<rparr>)"
| thread: "i < length (threads_p s) \<Longrightarrow>
    thread_step K (source_p s) (sender_p s) (threads_p s ! i) P t \<Longrightarrow>
    pool_step L K s (s\<lparr>sender_p := P, threads_p := (threads_p s)[i := t]\<rparr>)"

inductive pool_steps :: "marte \<Rightarrow> 'k http_client \<Rightarrow> 'k pool \<Rightarrow> 'k pool \<Rightarrow> bool"
  for L :: marte and K :: "'k http_client"
where
  refl: "pool_steps L K s s"
| step: "pool_steps L K s s1 \<Longrightarrow> pool_step L K s1 s2 \<Longrightarrow> pool_steps L K s s2"

text \<open>The pool after \<open>PrioritySender::Start\<close>.\<close>

definition started_pool :: "subscriber \<Rightarrow> sender \<Rightarrow> 'k pool" where
  "started_pool S P =
     \<lparr>sender_p = P\<lparr>eventSem_s := False, nThreadsFinished_s := 0, quit_s := 0\<rparr>, source_p = S,
      locals_p = cycle_start, main_p = M_Begin,
      threads_p = replicate (numberOfPoolThreads_s P)
        \<lparr>pc_p = Starting, number_p = 0xFFFF, client_p = None, checked_p = False\<rparr>\<rparr>"

end
