(* ===== verification/SenderPool.thy ===== *)
theory SenderPool
  imports SenderThreads
begin

section \<open>What the handshake guarantees\<close>

text \<open>
  The handover of the main thread and the sending of the pool exclude each other while the
  sender is not being stopped; and a schedule in which the handshake never goes on.
\<close>

subsection \<open>What a step leaves as it is\<close>

text \<open>The fields of the sender that the handshake uses.\<close>

definition hs :: "sender \<Rightarrow> bool \<times> nat \<times> nat \<times> nat" where
  "hs P = (eventSem_s P, nThreadsFinished_s P, quit_s P, numberOfPoolThreads_s P)"

lemma hs_iff: "hs P' = hs P \<longleftrightarrow> eventSem_s P' = eventSem_s P \<and> nThreadsFinished_s P' = nThreadsFinished_s P
    \<and> quit_s P' = quit_s P \<and> numberOfPoolThreads_s P' = numberOfPoolThreads_s P"
  by (simp add: hs_def)

lemma hs_count_packet [simp]: "hs (count_packet t n P) = hs P"
  by (simp add: hs_def count_packet_def)

lemma hs_reply_loop:
  assumes "reply_loop K t err P k = Some (e, P', k')"
  shows "hs P' = hs P"
proof -
  have "(\<lambda>((((K, t), err), P), k) (e, P', k'). hs P' = hs P) ((((K, t), err), P), k) (e, P', k')"
  proof (rule reply_loop.raw_induct [OF _ assms], goal_cases)
    case (1 reply_loop K t err P k r)
    obtain e P' k' where r: "r = (e, P', k')" by (cases r)
    have step: "\<And>err P k. reply_loop K t err P k = Some r \<Longrightarrow> hs P' = hs P"
      using 1(1) r by fastforce
    show ?case
      using 1(2) unfolding r
      by (auto simp: Let_def r split: prod.splits if_splits dest!: step [unfolded r])
  qed
  then show ?thesis by simp
qed

lemma hs_packets_loop:
  assumes "packets_loop K ds t n P cur k = Some r"
  shows "\<forall>e P' k'. r = Inr (e, P', k') \<longrightarrow> hs P' = hs P"
proof -
  have "(\<lambda>((((((K, ds), t), n), P), cur), k) r. \<forall>e P' k'. r = Inr (e, P', k') \<longrightarrow> hs P' = hs P)
      ((((((K, ds), t), n), P), cur), k) r"
  proof (rule packets_loop.raw_induct [OF _ assms], goal_cases)
    case (1 packets_loop K ds t n P cur k r)
    show ?case
    proof (unfold prod.case, intro allI impI)
      fix e P' k' assume r: "r = Inr (e, P', k')"
      have step: "\<And>P cur k. packets_loop K ds t n P cur k = Some (Inr (e, P', k')) \<Longrightarrow> hs P' = hs P"
        using 1(1) r by fastforce
      show "hs P' = hs P"
        using 1(2) unfolding r
        by (auto simp: Let_def split: prod.splits if_splits sum.splits option.splits
            dest!: step hs_reply_loop)
    qed
  qed
  then show ?thesis by simp
qed

lemma hs_SendVariables:
  assumes "SendVariables K S t P k = Some (Inr (e, P', k'))"
  shows "hs P' = hs P"
proof -
  have "hs (snd (take_slice t P)) = hs P" by (simp add: hs_def take_slice_def)
  then show ?thesis
    using assms hs_packets_loop
    by (fastforce simp: SendVariables_def split: if_splits prod.splits)
qed

lemma hs_sort_phase: "sort_phase ds ck m P = (nv, P') \<Longrightarrow> hs P' = hs P"
  by (auto simp: sort_phase_def hs_def Let_def split: if_splits prod.splits)

lemma hs_limit_phase: "limit_phase ds m c nv P = Inr (P', c') \<Longrightarrow> hs P' = hs P"
  by (auto simp: limit_phase_def hs_def Let_def split: if_splits prod.splits sum.splits)

lemma hs_prepare: "prepare_cycle L ck S P c = Inr (S', P', c') \<Longrightarrow> hs P' = hs P"
  by (fastforce simp: prepare_cycle_def Let_def hs_def [of "P\<lparr>memory_s := a, changeFlag_s := b\<rparr>" for a b]
      hs_def [of P] split: sum.splits prod.splits dest: hs_sort_phase hs_limit_phase)

lemma copy_step_fields:
  assumes "copy_step P c = Inr (P', c')"
  shows "eventSem_s P' = eventSem_s P" "nThreadsFinished_s P' = 0" "quit_s P' = quit_s P"
    "numberOfPoolThreads_s P' = numberOfPoolThreads_s P"
  using assms by (auto simp: copy_step_def hand_over_def split: if_splits)

subsection \<open>The invariant\<close>

definition n_checked :: "'k pool_thread list \<Rightarrow> nat" where
  "n_checked ts = length (filter checked_p ts)"

lemma n_checked_le: "n_checked ts \<le> length ts"
  by (simp add: n_checked_def)

lemma n_checked_all: "n_checked ts = length ts \<longleftrightarrow> (\<forall>t\<in>set ts. checked_p t)"
proof (induction ts)
  case (Cons t ts)
  then show ?case using length_filter_le [of checked_p ts] by (auto simp: n_checked_def simp del: length_filter_le)
qed (simp add: n_checked_def)

lemma n_checked_update:
  assumes "i < length ts"
  shows "n_checked (ts[i := t]) + (if checked_p (ts ! i) then 1 else 0)
    = n_checked ts + (if checked_p t then 1 else 0)"
proof -
  have "ts = take i ts @ ts ! i # drop (Suc i) ts"
    using assms by (simp add: id_take_nth_drop)
  then have "n_checked ts = n_checked (take i ts @ ts ! i # drop (Suc i) ts)" by simp
  then show ?thesis
    using assms by (simp add: upd_conv_take_nth_drop n_checked_def)
qed

lemma n_checked_wake: "n_checked (map (\<lambda>t. (wake t)\<lparr>checked_p := False\<rparr>) ts) = 0"
  by (simp add: n_checked_def)

text \<open>Where a thread is that has been counted.\<close>

definition resting :: "thread_pc \<Rightarrow> bool" where
  "resting pc \<longleftrightarrow> pc \<in> {Checked_In, To_Wait, Cycle_Wait, Starting, Start_Wait, Ended}"

definition thread_ok :: "sender \<Rightarrow> 'k pool_thread \<Rightarrow> bool" where
  "thread_ok P t \<longleftrightarrow> checked_p t \<longrightarrow> resting (pc_p t) \<and> \<not> eventSem_s P"

text \<open>What the main thread knows at each of its points.\<close>

fun main_ok :: "main_pc \<Rightarrow> sender \<Rightarrow> 'k pool_thread list \<Rightarrow> bool" where
  "main_ok M_Begin P ts \<longleftrightarrow> \<not> eventSem_s P
     \<and> (\<forall>t\<in>set ts. \<not> checked_p t \<and> (pc_p t = Starting \<or> pc_p t = Start_Wait))"
| "main_ok (M_Prepare tmp ck) P ts \<longleftrightarrow> tmp \<le> n_checked ts"
| "main_ok (M_Decide tmp) P ts \<longleftrightarrow> tmp \<le> n_checked ts"
| "main_ok M_Copy P ts \<longleftrightarrow> (\<forall>t\<in>set ts. checked_p t)"
| "main_ok M_Post P ts \<longleftrightarrow> (\<forall>t\<in>set ts. checked_p t)"
| "main_ok M_Last P ts \<longleftrightarrow> False"
| "main_ok M_Done P ts \<longleftrightarrow> False"
| "main_ok pc P ts \<longleftrightarrow> True"

definition pool_ok :: "'k pool \<Rightarrow> bool" where
  "pool_ok s \<longleftrightarrow> length (threads_p s) = numberOfPoolThreads_s (sender_p s)
     \<and> length (threads_p s) < 4294967296
     \<and> (quit_s (sender_p s) = 0 \<longrightarrow>
          (\<forall>t\<in>set (threads_p s). thread_ok (sender_p s) t)
          \<and> nThreadsFinished_s (sender_p s)
            = (if main_p s = M_Post then 0 else n_checked (threads_p s))
          \<and> main_ok (main_p s) (sender_p s) (threads_p s))"

lemma started_pool_ok:
  "numberOfPoolThreads_s P < 4294967296 \<Longrightarrow> pool_ok (started_pool S P)"
  by (simp add: pool_ok_def started_pool_def thread_ok_def n_checked_def)

subsection \<open>The steps of a thread\<close>

text \<open>
  A step leaves the counter, the semaphore and the mark of the thread as they are, or it is a
  check-in: then the thread was not resting.
\<close>

lemma thread_step_kinds:
  assumes "thread_step K S P t P' t'"
  shows "hs P' = hs P \<and> checked_p t' = checked_p t
      \<and> (quit_s P = 0 \<longrightarrow> resting (pc_p t) \<longrightarrow> \<not> eventSem_s P \<longrightarrow> resting (pc_p t'))
      \<and> (pc_p t = Starting \<or> pc_p t = Start_Wait \<longrightarrow> \<not> eventSem_s P \<longrightarrow> pc_p t' = Start_Wait)
    \<or> hs P' = hs (check_in P) \<and> \<not> resting (pc_p t) \<and> checked_p t' \<and> resting (pc_p t')"
  using assms
proof cases
  case connect
  then show ?thesis
    by (auto simp: startup_stage_def hs_def resting_def split: option.splits if_splits)
next
  case send
  then show ?thesis
    by (auto simp: main_stage_def resting_def split: option.splits sum.splits prod.splits
        dest: hs_SendVariables)
qed (auto simp: hs_def resting_def last_stage_def check_in_def)

subsection \<open>The invariant holds\<close>

lemma checked_wake [simp]: "checked_p (wake t) = checked_p t"
  by (simp add: wake_def split: thread_pc.splits)

lemma n_checked_map_wake [simp]: "n_checked (map wake ts) = n_checked ts"
  by (simp add: n_checked_def filter_map comp_def)

text \<open>A check-in and every other step of a thread keep the invariant.\<close>

lemma thread_keeps_ok:
  assumes ok: "pool_ok s" and i: "i < length (threads_p s)"
    and st: "thread_step K (source_p s) (sender_p s) (threads_p s ! i) P t"
  shows "pool_ok (s\<lparr>sender_p := P, threads_p := (threads_p s)[i := t]\<rparr>)"
proof -
  let ?ts = "threads_p s" and ?P = "sender_p s"
  have mem: "?ts ! i \<in> set ?ts" using i by simp
  have sub: "u \<in> set (?ts[i := t]) \<Longrightarrow> u = t \<or> u \<in> set ?ts" for u
    using set_update_subset_insert [of ?ts i t] by blast
  note n = n_checked_update [OF i, of t]
  from thread_step_kinds [OF st] show ?thesis
  proof (elim disjE)
    assume k: "hs P = hs ?P \<and> checked_p t = checked_p (?ts ! i)
      \<and> (quit_s ?P = 0 \<longrightarrow> resting (pc_p (?ts ! i)) \<longrightarrow> \<not> eventSem_s ?P \<longrightarrow> resting (pc_p t))
      \<and> (pc_p (?ts ! i) = Starting \<or> pc_p (?ts ! i) = Start_Wait \<longrightarrow> \<not> eventSem_s ?P \<longrightarrow> pc_p t = Start_Wait)"
    then have h: "eventSem_s P = eventSem_s ?P" "nThreadsFinished_s P = nThreadsFinished_s ?P"
        "quit_s P = quit_s ?P" "numberOfPoolThreads_s P = numberOfPoolThreads_s ?P"
      by (simp_all add: hs_iff)
    have m: "main_ok pc P (?ts[i := t])" if "main_ok pc ?P ?ts" for pc
      using that k h n mem by (cases pc) (auto dest!: sub split: if_splits)
    show ?thesis
      using ok k h n mem m by (auto simp: pool_ok_def thread_ok_def dest!: sub split: if_splits)
  next
    assume k: "hs P = hs (check_in ?P) \<and> \<not> resting (pc_p (?ts ! i)) \<and> checked_p t \<and> resting (pc_p t)"
    then have h: "\<not> eventSem_s P" "nThreadsFinished_s P = u32 (nThreadsFinished_s ?P + 1)"
        "quit_s P = quit_s ?P" "numberOfPoolThreads_s P = numberOfPoolThreads_s ?P"
      by (simp_all add: hs_iff check_in_def)
    show ?thesis
    proof (cases "quit_s ?P = 0")
      case True
      then have un: "\<not> checked_p (?ts ! i)" and M: "main_ok (main_p s) ?P ?ts"
        and oks: "\<forall>u\<in>set ?ts. thread_ok ?P u"
        using ok k mem by (auto simp: pool_ok_def thread_ok_def)
      have n': "n_checked (?ts[i := t]) = Suc (n_checked ?ts)" using n un k by simp
      have main: "main_p s \<noteq> M_Begin \<and> main_p s \<noteq> M_Copy \<and> main_p s \<noteq> M_Post"
        using M un k mem by (auto simp: resting_def)
      have m: "main_ok (main_p s) P (?ts[i := t])"
        using M main n' by (cases "main_p s") auto
      have "Suc (n_checked ?ts) \<le> length ?ts" using n' n_checked_le [of "?ts[i := t]"] by simp
      then have u: "nThreadsFinished_s P = Suc (n_checked ?ts)"
        using ok True main h by (simp add: pool_ok_def u32_def)
      have "\<forall>u\<in>set (?ts[i := t]). thread_ok P u"
        using oks k h by (auto simp: thread_ok_def dest!: sub)
      then show ?thesis
        using ok main m u n' h by (simp add: pool_ok_def)
    next
      case False
      then show ?thesis using ok h by (simp add: pool_ok_def)
    qed
  qed
qed

lemma prepare_fields:
  assumes "(if changed_c c then Inr (S, P, c) else prepare_cycle L ck S P c) = Inr (S', P', c')"
  shows "eventSem_s P' = eventSem_s P" "nThreadsFinished_s P' = nThreadsFinished_s P"
    "quit_s P' = quit_s P" "numberOfPoolThreads_s P' = numberOfPoolThreads_s P"
  using assms hs_prepare [of L ck S P c S' P' c'] by (auto simp: hs_iff split: if_splits)

lemma pool_step_ok:
  assumes "pool_step L K s s'" and ok: "pool_ok s"
  shows "pool_ok s'"
  using assms(1)
proof cases
  case main_begin
  then show ?thesis
    using ok by (auto simp: pool_ok_def post_def thread_ok_def)
next
  case (main_prepare tmp ck S P c)
  then show ?thesis
    using ok prepare_fields [OF main_prepare(3)] by (simp add: pool_ok_def thread_ok_def)
next
  case (main_decide tmp)
  have "tmp = length (threads_p s) \<Longrightarrow> tmp \<le> n_checked (threads_p s) \<Longrightarrow> \<forall>t\<in>set (threads_p s). checked_p t"
    using n_checked_le [of "threads_p s"] n_checked_all [of "threads_p s"] by simp
  then show ?thesis
    using ok main_decide by (auto simp: pool_ok_def)
next
  case (main_copy P c)
  then show ?thesis
    using ok copy_step_fields [OF main_copy(3)] by (simp add: pool_ok_def thread_ok_def)
next
  case (main_post now)
  then show ?thesis
    using ok by (auto simp: pool_ok_def end_turn_def post_def thread_ok_def n_checked_wake)
next
  case main_last
  then show ?thesis using ok by (auto simp: pool_ok_def post_def)
next
  case (thread i P t)
  then show ?thesis using thread_keeps_ok [OF ok] by blast
qed (use ok in \<open>auto simp: pool_ok_def Stop_s_def\<close>)

lemma pool_steps_ok:
  "pool_steps L K s s' \<Longrightarrow> pool_ok s \<Longrightarrow> pool_ok s'"
  by (induction rule: pool_steps.induct) (auto intro: pool_step_ok)

text \<open>
  (C5) While the sender is not being stopped, a handover happens only when every thread of the
  pool has been counted since the last one, and no thread is sending: the memory and the
  queue the main thread copies are not in use.
\<close>

theorem handover_is_exclusive:
  assumes "numberOfPoolThreads_s P < 4294967296"
    and "pool_steps L K (started_pool S P) s"
    and "main_p s = M_Copy \<or> main_p s = M_Post" and "quit_s (sender_p s) = 0"
  shows "\<forall>t\<in>set (threads_p s). checked_p t \<and> pc_p t \<noteq> Sending \<and> pc_p t \<noteq> Connecting"
proof -
  have "pool_ok s"
    using pool_steps_ok [OF assms(2) started_pool_ok [OF assms(1)]] .
  then show ?thesis
    using assms(3,4) by (auto simp: pool_ok_def thread_ok_def resting_def)
qed

subsection \<open>A schedule of the first cycle\<close>

text \<open>One step at the end of a run, for the first thread and for the main thread.\<close>

lemma first_thread:
  assumes "pool_steps L K s0 s" and "threads_p s = t # ts"
    and "thread_step K (source_p s) (sender_p s) t P t'"
  shows "pool_steps L K s0 (s\<lparr>sender_p := P, threads_p := t' # ts\<rparr>)"
  using pool_steps.step [OF assms(1) pool_step.thread [of 0 s K P t']] assms(2,3) by simp

text \<open>
  The first thread starts, connects and is counted, before any other thread has come to the
  \<open>Wait\<close> of its start-up stage; \<open>n\<close> is the number of the other threads.
\<close>

definition early_thread :: "nat \<Rightarrow> 'k \<Rightarrow> 'k pool_thread" where
  "early_thread i k = \<lparr>pc_p = Checked_In, number_p = i, client_p = Some k, checked_p = True\<rparr>"

definition late_thread :: "'k pool_thread" where
  "late_thread = \<lparr>pc_p = Starting, number_p = 0xFFFF, client_p = None, checked_p = False\<rparr>"

definition early_pool :: "nat \<Rightarrow> 'k \<Rightarrow> subscriber \<Rightarrow> sender \<Rightarrow> 'k pool" where
  "early_pool n k S P =
     \<lparr>sender_p = P\<lparr>eventSem_s := False, nThreadsFinished_s := 1, quit_s := 0,
        threadIndex_s := u32 (threadIndex_s P + 1), chunckCounter_s := 0\<rparr>, source_p = S,
      locals_p = cycle_start, main_p = M_Read,
      threads_p = early_thread (threadIndex_s P) k # replicate n late_thread\<rparr>"

lemma early_pool_reached:
  assumes "numberOfPoolThreads_s P = Suc n"
  shows "pool_steps L K (started_pool S P) (early_pool n k S P)"
proof -
  let ?P0 = "P\<lparr>nThreadsFinished_s := 0, quit_s := 0, eventSem_s := True\<rparr>"
  let ?s = "\<lambda>P t. \<lparr>sender_p = P, source_p = S, locals_p = cycle_start, main_p = M_Read,
      threads_p = t # replicate n late_thread\<rparr>"
  let ?P1 = "?P0\<lparr>threadIndex_s := u32 (threadIndex_s P + 1), chunckCounter_s := 0\<rparr>"
  let ?t1 = "\<lparr>pc_p = Entering, number_p = threadIndex_s P, client_p = Some k, checked_p = False\<rparr>"
  have late: "wake late_thread = (late_thread :: 'a pool_thread)"
    by (simp add: wake_def late_thread_def)
  have "pool_steps L K (started_pool S P) (?s ?P0 late_thread)"
    using pool_steps.step [OF pool_steps.refl pool_step.main_begin, of "started_pool S P" L K] assms late
    by (simp add: started_pool_def post_def late_thread_def [symmetric])
  moreover have "thread_step K S ?P0 late_thread ?P0 (late_thread\<lparr>pc_p := Connecting\<rparr>)"
    by (rule thread_step.start_pass) (simp_all add: late_thread_def)
  ultimately have "pool_steps L K (started_pool S P) (?s ?P0 (late_thread\<lparr>pc_p := Connecting\<rparr>))"
    by (auto dest: first_thread)
  moreover have "thread_step K S ?P0 (late_thread\<lparr>pc_p := Connecting\<rparr>) ?P1 ?t1"
    by (rule thread_step.connect [of _ "Some k"]) (simp_all add: startup_stage_def late_thread_def)
  ultimately have "pool_steps L K (started_pool S P) (?s ?P1 ?t1)"
    by (auto dest: first_thread)
  moreover have "thread_step K S ?P1 ?t1 (check_in ?P1) (?t1\<lparr>pc_p := Checked_In, checked_p := True\<rparr>)"
    by (rule thread_step.enter) simp
  ultimately have "pool_steps L K (started_pool S P)
      (?s (check_in ?P1) (?t1\<lparr>pc_p := Checked_In, checked_p := True\<rparr>))"
    by (auto dest: first_thread)
  moreover have "early_pool n k S P = ?s (check_in ?P1) (?t1\<lparr>pc_p := Checked_In, checked_p := True\<rparr>)"
    by (cases P) (simp add: check_in_def early_pool_def early_thread_def u32_def)
  ultimately show ?thesis by simp
qed

theorem handover_is_exclusive_witness:
  "\<exists>s. pool_steps ref_marte ref_client (started_pool ex_running ex_sender) s \<and> main_p s = M_Copy
    \<and> map checked_p (threads_p s) = [True] \<and> map pc_p (threads_p s) \<noteq> [Sending]"
proof -
  let ?s = "early_pool 0 ex_conn ex_running ex_sender :: ref_conn pool"
  let ?init = "started_pool ex_running ex_sender :: ref_conn pool"
  let ?P = "sender_p ?s"
  have e: "nThreadsFinished_s ?P = 1" "quit_s ?P = 0" "main_p ?s = M_Read" "locals_p ?s = cycle_start"
      "source_p ?s = ex_running" "numberOfPoolThreads_s ?P = 1" "chunckCounter_s ?P = 0"
      "threads_p ?s = [early_thread (threadIndex_s ex_sender) ex_conn]" "changed_c cycle_start = False"
    by (simp_all add: early_pool_def cycle_start_def)
  have l: "linked ex_running ?P" "queue_ok ?P"
    using ex_linked ex_queue_ok by (simp_all add: early_pool_def linked_def queue_ok_def)
  obtain S P c where pr: "prepare_cycle ref_marte 0 ex_running ?P cycle_start = Inr (S, P, c)"
    using cycle_total [OF ref.marte_lib_axioms l, of 0 0 1 cycle_start] e
    by (auto simp: cycle_body_def split: sum.splits)
  note pf = hs_prepare [OF pr, unfolded hs_iff]
  have r: "pool_steps ref_marte ref_client ?init ?s"
    by (rule early_pool_reached) simp
  note r = pool_steps.step [OF r pool_step.main_go]
  note r = pool_steps.step [OF r pool_step.main_lock]
  note r = pool_steps.step [OF r pool_step.main_prepare [of _ 1 0 ref_marte S P c]]
  note r = pool_steps.step [OF r pool_step.main_decide [of _ 1]]
  let ?s' = "?s\<lparr>source_p := S, sender_p := P, locals_p := c, main_p := M_Copy\<rparr>"
  have run: "pool_steps ref_marte ref_client ?init ?s'"
    using r e pr pf by simp
  have "numberOfPoolThreads_s ex_sender < 4294967296" "main_p ?s' = M_Copy \<or> main_p ?s' = M_Post"
      "quit_s (sender_p ?s') = 0"
    using pf e by simp_all
  from handover_is_exclusive [OF this(1) run this(2,3)] show ?thesis
    using run e by (intro exI [of _ ?s']) simp
qed

subsection \<open>A schedule that never goes on\<close>

text \<open>No later state sends anything, hands over a cycle or ends the main thread.\<close>

definition never_again :: "marte \<Rightarrow> 'k http_client \<Rightarrow> 'k pool \<Rightarrow> bool" where
  "never_again L K s \<longleftrightarrow> (\<forall>s'. pool_steps L K s s' \<longrightarrow>
     main_p s' \<noteq> M_Copy \<and> main_p s' \<noteq> M_Post \<and> main_p s' \<noteq> M_Done
     \<and> (\<forall>t\<in>set (threads_p s'). pc_p t \<noteq> Sending))"

fun main_waits :: "main_pc \<Rightarrow> nat \<Rightarrow> bool" where
  "main_waits M_Read n \<longleftrightarrow> True"
| "main_waits M_Lock n \<longleftrightarrow> True"
| "main_waits M_Last n \<longleftrightarrow> True"
| "main_waits (M_Prepare tmp ck) n \<longleftrightarrow> tmp < n"
| "main_waits (M_Decide tmp) n \<longleftrightarrow> tmp < n"
| "main_waits pc n \<longleftrightarrow> False"

definition stuck :: "'k pool \<Rightarrow> bool" where
  "stuck s \<longleftrightarrow> \<not> eventSem_s (sender_p s)
     \<and> nThreadsFinished_s (sender_p s) < numberOfPoolThreads_s (sender_p s)
     \<and> main_waits (main_p s) (numberOfPoolThreads_s (sender_p s))
     \<and> (\<forall>t\<in>set (threads_p s). pc_p t \<in> {Starting, Start_Wait, To_Wait, Cycle_Wait})"

lemma thread_step_stuck:
  assumes "thread_step K S P t P' t'" and "\<not> eventSem_s P"
    and "pc_p t \<in> {Starting, Start_Wait, To_Wait, Cycle_Wait}"
  shows "P' = P \<and> pc_p t' \<in> {Starting, Start_Wait, To_Wait, Cycle_Wait}"
  using assms by cases auto

lemma pool_step_stuck:
  assumes "pool_step L K s s'" and "stuck s"
  shows "stuck s'"
  using assms(1)
proof cases
  case (main_prepare tmp ck S P c)
  then show ?thesis using assms(2) prepare_fields [OF main_prepare(3)] by (simp add: stuck_def)
next
  case (thread i P t)
  have "P = sender_p s \<and> pc_p t \<in> {Starting, Start_Wait, To_Wait, Cycle_Wait}"
    using assms(2) thread by (intro thread_step_stuck) (auto simp: stuck_def)
  then show ?thesis
    using assms(2) thread set_update_subset_insert [of "threads_p s" i t] by (auto simp: stuck_def)
qed (use assms(2) in \<open>auto simp: stuck_def Stop_s_def\<close>)

lemma stuck_never_again:
  assumes "stuck s"
  shows "never_again L K s"
proof -
  have "stuck s'" if "pool_steps L K s s'" for s'
    using that assms by (induction rule: pool_steps.induct) (auto intro: pool_step_stuck)
  moreover have "main_p s' \<noteq> M_Copy \<and> main_p s' \<noteq> M_Post \<and> main_p s' \<noteq> M_Done
     \<and> (\<forall>t\<in>set (threads_p s'). pc_p t \<noteq> Sending)" if "stuck s'" for s' :: "'a pool"
    using that by (cases "main_p s'") (auto simp: stuck_def)
  ultimately show ?thesis unfolding never_again_def by blast
qed

text \<open>
  (C29) With two or more threads the handshake can stop for good: when a thread is counted, and
  clears the semaphore, before another one has come to its \<open>Wait\<close>, the other one waits for a
  \<open>Post\<close> that the main thread does only when all threads have been counted. From then on
  nothing is sent, and stopping the sender does not end the main thread either.
\<close>

theorem handshake_can_stop:
  fixes K :: "'a http_client"
  assumes "2 \<le> numberOfPoolThreads_s P"
  shows "\<exists>s. pool_steps L K (started_pool S P) s \<and> quit_s (sender_p s) = 0 \<and> never_again L K s"
proof -
  obtain n where n: "numberOfPoolThreads_s P = Suc (Suc n)"
    using assms by (metis add_2_eq_Suc le_Suc_ex)
  let ?e = "early_pool (Suc n) undefined S P :: 'a pool" and ?i = "threadIndex_s P"
  let ?t = "early_thread ?i undefined :: 'a pool_thread"
  have r: "pool_steps L K (started_pool S P) ?e"
    by (rule early_pool_reached [OF n])
  have "thread_step K (source_p ?e) (sender_p ?e) ?t (sender_p ?e) (?t\<lparr>pc_p := To_Wait\<rparr>)"
    by (rule thread_step.test_run) (simp_all add: early_thread_def early_pool_def)
  then have "pool_steps L K (started_pool S P)
      (?e\<lparr>sender_p := sender_p ?e, threads_p := ?t\<lparr>pc_p := To_Wait\<rparr> # replicate (Suc n) late_thread\<rparr>)"
    by (intro first_thread [OF r, where t = ?t]) (simp_all add: early_pool_def)
  moreover have "stuck (?e\<lparr>sender_p := sender_p ?e, threads_p := ?t\<lparr>pc_p := To_Wait\<rparr> # replicate (Suc n) late_thread\<rparr>)"
    using n by (simp add: stuck_def early_pool_def late_thread_def)
  ultimately show ?thesis
    using stuck_never_again
    by (intro exI [of _ "?e\<lparr>sender_p := sender_p ?e, threads_p := ?t\<lparr>pc_p := To_Wait\<rparr> # replicate (Suc n) late_thread\<rparr>"])
      (auto simp: early_pool_def)
qed

theorem handshake_can_stop_witness:
  "\<exists>s. pool_steps ref_marte ref_client (started_pool ex_running (ex_sender\<lparr>numberOfPoolThreads_s := 2\<rparr>)) s
    \<and> quit_s (sender_p s) = 0 \<and> never_again ref_marte ref_client s"
  by (rule handshake_can_stop) simp

end
