(* ===== verification/ReceiverStart.thy ===== *)
theory ReceiverStart
  imports Config Chunks ReceiverParser
begin

section \<open>DiodeReceiver: construction, start-up and the writing threads\<close>

text \<open>
  The life of the receiver outside its service threads: the constructor, \<open>Initialise\<close>,
  \<open>Start\<close> with the start-up part of \<open>DiodeReceiverCycleLoop\<close>, \<open>Stop\<close>, \<open>Synchronise\<close>, the
  getters, and a turn of the threads that write the changed variables to the EPICS channels.

  The EPICS library is the parameter \<open>ca_server\<close>: the channel that is created for a name
  (\<open>None\<close> when \<open>ca_create_channel\<close> fails), whether a thread gets a context, and the number
  of a field type. Fresh memory that the code does not set is the argument \<open>junk\<close>, or 0.
\<close>

record ca_server =
  cs_channel :: "bytes \<Rightarrow> ca_channel option"
  cs_context :: "nat \<Rightarrow> bool"
  cs_code :: "dbf_type \<Rightarrow> nat"

subsection \<open>Construction and configuration\<close>

definition DiodeReceiver :: receiver where
  "DiodeReceiver =
     \<lparr>serverPort_r = 0, acceptTimeout_r = 0xFFFFFFFF, pvs = [], numberOfVariables_r = 0,
      numberOfCpus_r = 4, memory_r = [], memory2_r = [], memoryPrec_r = [], pvMapping = [],
      threadSetContext = 0, changeFlag_r = [], changeFlag2_r = [], lastCounter_r = 0, quit_r = 0,
      totalMemorySize_r = 0, eventSem_r = False, numberOfInitThreads_r = 0, threadCnt_r = 0,
      maxNumberOfVariables_r = 0xFFFFFFFF, lastTickCounter_r = [], msecPeriod_r = 0,
      currentCpuMask_r = 1, readTimeout_r = 0, maxArraySize_r = MAX_ARR_LEN, threadIndex_r = 0,
      numberOfReceivedPVs = [], debug_r = 0, maxNumberOfThreads_r = 0\<rparr>"

text \<open>The optional parameters that are read before the file.\<close>

definition read_options :: "structured_data \<Rightarrow> receiver \<Rightarrow> receiver" where
  "read_options data R =
     R\<lparr>debug_r := read_or data 8 ''Debug'' 0,
       numberOfInitThreads_r := read_or data 32 ''NumberOfInitThreads'' 1,
       maxNumberOfVariables_r := read_or data 32 ''MaxNumberOfVariables'' 0xFFFFFFFF,
       msecPeriod_r := read_or data 32 ''MsecPeriod'' 1000,
       readTimeout_r := read_or data 32 ''ReadTimeout'' 10000\<rparr>"

text \<open>
  \<open>Initialise\<close>. The first argument is the outcome of \<open>MultiClientService::Initialise\<close>, which
  reads the maximum number of threads; \<open>open_file\<close> is \<open>File::Open\<close>.
\<close>

definition Initialise_r ::
  "marte \<Rightarrow> 'f xml_file \<Rightarrow> (bytes \<Rightarrow> 'f option) \<Rightarrow> pv_rec \<Rightarrow> nat option \<Rightarrow> structured_data
     \<Rightarrow> receiver \<Rightarrow> (fault + bool \<times> receiver) option" where
  "Initialise_r L X open_file junk base data R =
     (case base of None \<Rightarrow> Some (Inr (False, R)) | Some maxThreads \<Rightarrow>
      (let R = R\<lparr>maxNumberOfThreads_r := maxThreads\<rparr> in
       case ReadUInt data 32 ''ServerPort'' of None \<Rightarrow> Some (Inr (False, R)) | Some port \<Rightarrow>
      (let R = R\<lparr>serverPort_r := port\<rparr> in
       case ReadString data ''InputFilePath'' of None \<Rightarrow> Some (Inr (False, R)) | Some xmlFilePath \<Rightarrow>
       case ReadString data ''FirstVariableName'' of None \<Rightarrow> Some (Inr (False, R)) | Some first \<Rightarrow>
       case ReadUInt data 32 ''NumberOfCpus'' of None \<Rightarrow> Some (Inr (False, R)) | Some cpus \<Rightarrow>
      (let R = read_options data (R\<lparr>numberOfCpus_r := cpus\<rparr>) in
       case open_file xmlFilePath of None \<Rightarrow> Some (Inr (False, R)) | Some f \<Rightarrow>
       case load_pvs L X junk first (maxNumberOfVariables_r R) f of
         None \<Rightarrow> None
       | Some (Inl e) \<Rightarrow> Some (Inl e)
       | Some (Inr ps) \<Rightarrow>
           Some (Inr (True, R\<lparr>numberOfVariables_r := length ps, pvs := ps,
             acceptTimeout_r := read_or data 32 ''AcceptTimeout'' (acceptTimeout_r R),
             maxArraySize_r := read_or data 32 ''MaxArraySize'' MAX_ARR_LEN\<rparr>))))))"

subsection \<open>The start-up of the writing threads\<close>

text \<open>The variables of a thread; without a context it keeps the range of all of them.\<close>

definition init_range :: "ca_server \<Rightarrow> nat \<Rightarrow> receiver \<Rightarrow> fault + nat \<times> nat" where
  "init_range C threadId R =
     (if cs_context C threadId then
        (if numberOfInitThreads_r R = 0 then Inl Div_By_Zero
         else Inr (chunk_bounds (numberOfVariables_r R) (numberOfInitThreads_r R)
                (numberOfVariables_r R div numberOfInitThreads_r R) threadId))
      else Inr (0, numberOfVariables_r R))"

text \<open>One pass of the loop over the variables.\<close>

definition init_pv :: "ca_server \<Rightarrow> nat \<Rightarrow> pv_rec \<Rightarrow> pv_rec" where
  "init_pv C maxArraySize pv =
     (case cs_channel C (pvName_r pv) of
        None \<Rightarrow> pv
      | Some ch \<Rightarrow>
          (let (pvType, nElems) = cainfo_rec ch;
               nElems = (if nElems > maxArraySize then 0 else nElems);
               pv = pv\<lparr>pvChid_r := Some ch, pvType_r := pvType, numberOfElements_r := nElems,
                       totalSize_r := 0, at_r := voidAnyType\<rparr>
           in if nElems > 0 then
                (let (size, td, pvType) = rec_type_info pvType;
                     at = (if nElems > 1 then (mk_any td)\<lparr>at_dims := 1, at_elements := nElems\<rparr>
                           else mk_any td)
                 in pv\<lparr>totalSize_r := u32 (size * nElems), at_r := at, pvType_r := pvType\<rparr>)
              else pv))"

definition init_thread_rec :: "ca_server \<Rightarrow> nat \<Rightarrow> receiver \<Rightarrow> fault + receiver" where
  "init_thread_rec C threadId R =
     (case init_range C threadId R of
        Inl e \<Rightarrow> Inl e
      | Inr (beg, end') \<Rightarrow>
          Inr (R\<lparr>pvs := (if cs_context C threadId
                  then map (\<lambda>n. if beg \<le> n \<and> n < end' then init_pv C (maxArraySize_r R) (pvs R ! n)
                              else pvs R ! n) [0..<length (pvs R)]
                  else pvs R),
                totalMemorySize_r := (if cs_context C threadId then 0 else totalMemorySize_r R),
                threadCnt_r := threadCnt_r R + 1, eventSem_r := False,
                threadSetContext := threadSetContext R + 1\<rparr>))"

text \<open>All of them, in the order in which they get the lock.\<close>

fun init_threads_rec :: "ca_server \<Rightarrow> nat \<Rightarrow> receiver \<Rightarrow> fault + receiver" where
  "init_threads_rec C 0 R = Inr R"
| "init_threads_rec C (Suc k) R =
     (case init_thread_rec C (threadCnt_r R) R of
        Inl e \<Rightarrow> Inl e
      | Inr R \<Rightarrow> init_threads_rec C k R)"

subsection \<open>Start and Stop\<close>

text \<open>The loop that gives every variable its place, and the size of the memory.\<close>

fun offset_loop :: "nat \<Rightarrow> pv_rec list \<Rightarrow> pv_rec list \<times> nat" where
  "offset_loop totalMemorySize [] = ([], totalMemorySize)"
| "offset_loop totalMemorySize (pv # ps) =
     (case offset_loop (u32 (totalMemorySize + (totalSize_r pv + 8))) ps of
        (ps', size') \<Rightarrow> (pv\<lparr>offset_r := totalMemorySize\<rparr> # ps', size'))"

text \<open>
  \<open>Start\<close>: \<open>listening\<close> and \<open>started\<close> are the outcomes of \<open>Listen\<close> and of
  \<open>MultiClientService::Start\<close>, \<open>now\<close> is the clock.
\<close>

definition start_memory :: "receiver \<Rightarrow> receiver" where
  "start_memory R =
     (case offset_loop 0 (pvs R) of
        (ps, size') \<Rightarrow>
          R\<lparr>pvs := ps, totalMemorySize_r := size', memory_r := replicate size' 0,
            memory2_r := replicate size' 0, memoryPrec_r := replicate size' 0,
            changeFlag_r := replicate (numberOfVariables_r R) 0,
            changeFlag2_r := replicate (numberOfVariables_r R) 0,
            pvMapping := replicate (u32 (2 * numberOfVariables_r R)) INDEX_INIT_ID\<rparr>)"

definition Start_r :: "ca_server \<Rightarrow> nat \<Rightarrow> bool \<Rightarrow> err \<Rightarrow> receiver \<Rightarrow> fault + err \<times> receiver" where
  "Start_r C now listening started R =
     (case shl1 (numberOfCpus_r R) of
        Inl e \<Rightarrow> Inl e
      | Inr _ \<Rightarrow>
          (case init_threads_rec C (numberOfInitThreads_r R)
                  (R\<lparr>numberOfReceivedPVs := replicate (maxNumberOfThreads_r R) 0\<rparr>) of
             Inl e \<Rightarrow> Inl e
           | Inr R \<Rightarrow>
               (let R = start_memory R;
                    err = (if listening then started else Failed)
                in Inr (err, if err = NoError
                     then R\<lparr>lastTickCounter_r := replicate (numberOfInitThreads_r R) now, eventSem_r := True\<rparr>
                     else R))))"

definition Stop_r :: "receiver \<Rightarrow> receiver" where
  "Stop_r R = R\<lparr>quit_r := quit_r R + 1, eventSem_r := True\<rparr>"

subsection \<open>The thread pool\<close>

text \<open>
  \<open>AddThread\<close>: \<open>poolSize\<close> is the size of the pool; whether the thread is created, how its
  start ends and whether the pool takes it are arguments. The result has the processor mask
  of the new thread.
\<close>

definition AddThread ::
  "nat \<Rightarrow> bool \<Rightarrow> err \<Rightarrow> bool \<Rightarrow> receiver \<Rightarrow> fault + err \<times> nat option \<times> receiver" where
  "AddThread poolSize valid started inserted R =
     (if poolSize \<ge> maxNumberOfThreads_r R then Inr (IllegalOperation, None, R)
      else if \<not> valid then Inr (Failed, None, R)
      else
        (let mask = currentCpuMask_r R;
             next_mask = u32 (2 * mask)
         in case shl1 (numberOfCpus_r R) of
              Inl e \<Rightarrow> Inl e
            | Inr lim \<Rightarrow>
                Inr (if started = NoError then err_of inserted else started, Some mask,
                  R\<lparr>currentCpuMask_r := (if next_mask \<ge> lim then 1 else next_mask)\<rparr>)))"

subsection \<open>Handing out the memory\<close>

definition Synchronise_r ::
  "marte \<Rightarrow> bytes \<Rightarrow> bytes \<Rightarrow> receiver \<Rightarrow> fault + bytes \<times> bytes \<times> receiver" where
  "Synchronise_r L memoryOut changedFlags R =
     (case mem_copy_checked L memoryOut 0 (memory_r R) 0 (totalMemorySize_r R) of
        Inl e \<Rightarrow> Inl e
      | Inr out \<Rightarrow>
          (case mem_copy_checked L changedFlags 0 (changeFlag_r R) 0 (numberOfVariables_r R) of
             Inl e \<Rightarrow> Inl e
           | Inr fl \<Rightarrow>
               Inr (out, fl, R\<lparr>changeFlag_r := replicate (numberOfVariables_r R) 0
                                 @ drop (numberOfVariables_r R) (changeFlag_r R),
                   numberOfReceivedPVs := (if debug_r R > 0
                     then replicate (maxNumberOfThreads_r R) 0
                          @ drop (maxNumberOfThreads_r R) (numberOfReceivedPVs R)
                     else numberOfReceivedPVs R)\<rparr>)))"

definition GetNumberOfVariables_r :: "receiver \<Rightarrow> nat" where
  "GetNumberOfVariables_r R = numberOfVariables_r R"

definition GetPvDescriptors_r :: "receiver \<Rightarrow> pv_rec list" where
  "GetPvDescriptors_r R = pvs R"

definition GetTotalMemorySize_r :: "receiver \<Rightarrow> nat" where
  "GetTotalMemorySize_r R = totalMemorySize_r R"

definition InitialisationDone_r :: "receiver \<Rightarrow> bool" where
  "InitialisationDone_r R \<longleftrightarrow> threadSetContext R \<ge> numberOfInitThreads_r R"

subsection \<open>Writing the changed variables\<close>

text \<open>
  A call of \<open>ca_array_put\<close>: the type number with the flag \<open>0x8000\<close>, which tells the library
  of this repository that a time stamp follows the value, the number of elements, and the
  position in \<open>memory2\<close> the value is read from.
\<close>

record put_call =
  put_index :: nat
  put_type :: nat
  put_count :: nat
  put_data :: bytes

unbundle bit_operations_syntax

definition put_pv :: "ca_server \<Rightarrow> receiver \<Rightarrow> nat \<Rightarrow> put_call" where
  "put_pv C R index =
     (let pv = pvs R ! index
      in \<lparr>put_index = index, put_type = cs_code C (pvType_r pv) OR 0x8000,
          put_count = numberOfElements_r pv, put_data = drop (offset_r pv) (memory2_r R)\<rparr>)"


definition put_loop :: "ca_server \<Rightarrow> receiver \<Rightarrow> nat list \<Rightarrow> put_call list" where
  "put_loop C R is = map (put_pv C R) (filter (\<lambda>index. changeFlag2_r R ! index = 1) is)"

text \<open>A turn of the loop of thread \<open>threadId\<close> over its variables.\<close>

definition put_cycle ::
  "marte \<Rightarrow> ca_server \<Rightarrow> nat \<Rightarrow> nat \<Rightarrow> receiver \<Rightarrow> fault + put_call list \<times> receiver" where
  "put_cycle L C now threadId R =
     (case init_range C threadId R of
        Inl e \<Rightarrow> Inl e
      | Inr (beg, end') \<Rightarrow>
          (case (if threadId = 0 then
                   (case Synchronise_r L (memory2_r R) (changeFlag2_r R) R of
                      Inl e \<Rightarrow> Inl e
                    | Inr (m, fl, R) \<Rightarrow> Inr (R\<lparr>memory2_r := m, changeFlag2_r := fl\<rparr>))
                 else Inr R) of
             Inl e \<Rightarrow> Inl e
           | Inr R \<Rightarrow>
               Inr (put_loop C R [beg..<end'],
                 R\<lparr>lastTickCounter_r := (lastTickCounter_r R)[threadId := now]\<rparr>)))"

subsection \<open>The end\<close>

text \<open>
  When the receiver is stopped, a writing thread clears the channels of its variables (also those
  that could not be created, here \<open>None\<close>). The destructor: what it frees.
\<close>

definition end_thread_rec :: "ca_server \<Rightarrow> nat \<Rightarrow> receiver \<Rightarrow> fault + ca_channel option list" where
  "end_thread_rec C threadId R =
     (case init_range C threadId R of
        Inl e \<Rightarrow> Inl e
      | Inr (beg, end') \<Rightarrow> Inr (map (\<lambda>n. pvChid_r (pvs R ! n)) [beg..<end']))"

definition destroy_r :: "receiver \<Rightarrow> receiver" where
  "destroy_r R = R\<lparr>pvs := [], memory_r := [], memory2_r := [], memoryPrec_r := [], changeFlag_r := [],
     changeFlag2_r := [], pvMapping := [], lastTickCounter_r := [], numberOfReceivedPVs := []\<rparr>"

end
