(* ===== verification/ReceiverService.thy ===== *)
theory ReceiverService
  imports ReceiverStart
begin

section \<open>DiodeReceiver: the service threads\<close>

text \<open>
  \<open>ClientService\<close> with \<open>ReadNewChunk\<close> and the replies, and \<open>ServerCycle\<close>, which a service
  thread runs in the stages of \<open>MultiClientService\<close>. The connection, a \<open>TCPSocket\<close> with an
  \<open>HttpProtocol\<close> over it, is not part of the repository: its methods are the fields of
  \<open>server_conn\<close>, over a type \<open>'k\<close> of states.

  \<^item> \<open>CharAt s i\<close> is \<open>line[i]\<close>, also out of range.
  \<^item> \<open>HexConvert s\<close> is \<open>TypeConvert\<close> from the text to a 32-bit number; \<open>None\<close> leaves the
    number as it was.
  \<^item> \<open>GetLine\<close> and \<open>SockRead n\<close> give the bytes they have read; \<open>SockRead\<close> may read fewer than
    \<open>n\<close>.
  \<^item> \<open>WriteHeader_p\<close> sends a reply: status, \<open>Content-Length\<close>, \<open>Content-Type\<close> and body.
  \<^item> \<open>InputLength\<close> is the entry \<open>Content-Length\<close> of \<open>InputOptions\<close>, if there is one.
\<close>

record 'k server_conn =
  CharAt :: "bytes \<Rightarrow> nat \<Rightarrow> byte"
  HexConvert :: "bytes \<Rightarrow> nat option"
  GetLine :: "'k \<Rightarrow> bool \<times> bytes \<times> 'k"
  SockRead :: "nat \<Rightarrow> 'k \<Rightarrow> bool \<times> bytes \<times> 'k"
  SockClose :: "'k \<Rightarrow> bool \<times> 'k"
  ReadHeader_p :: "'k \<Rightarrow> bool \<times> 'k"
  InputLength :: "'k \<Rightarrow> nat option"
  CompleteReadOperation_p :: "'k \<Rightarrow> 'k"
  WriteHeader_p :: "nat \<Rightarrow> nat \<Rightarrow> string \<Rightarrow> string \<Rightarrow> 'k \<Rightarrow> 'k"
  SetKeepAlive_p :: "bool \<Rightarrow> 'k \<Rightarrow> 'k"
  KeepAlive_p :: "'k \<Rightarrow> bool"
  Purge :: "'k \<Rightarrow> 'k"
  WaitConnection :: "nat \<Rightarrow> 'k option"

subsection \<open>Reading a chunk\<close>

text \<open>
  The loop that removes the line end. Before the first test the line is not empty; when only
  line ends are left, the character before the beginning is asked for.
\<close>

function trim_loop :: "'k server_conn \<Rightarrow> bytes \<Rightarrow> fault + bytes" where
  "trim_loop K line =
     (let lastChar = CharAt K line (u32_sub (length line) 1) in
      if lastChar = 13 \<or> lastChar = 10 then
        (if line = [] then Inl Out_Of_Bounds else trim_loop K (butlast line))
      else Inr line)"
  by pat_completeness auto
termination
  by (relation "measure (\<lambda>(K, line). length line)") auto

declare trim_loop.simps [simp del]

text \<open>The loop that appends the data to the payload, at most 1023 bytes at a time.\<close>

partial_function (option) read_loop ::
  "'k server_conn \<Rightarrow> nat \<Rightarrow> nat \<Rightarrow> bytes \<Rightarrow> 'k \<Rightarrow> (err \<times> bytes \<times> 'k) option" where
  "read_loop K chunkSize sizeRead payload k =
     (if sizeRead < chunkSize then
        (let sizeToRead = (if chunkSize - sizeRead > 1023 then 1023 else chunkSize - sizeRead)
         in case SockRead K sizeToRead k of
              (ok, buff, k1) \<Rightarrow>
                if ok then read_loop K chunkSize (u32 (sizeRead + length buff)) (payload @ buff) k1
                else Some (Failed, payload, k1))
      else Some (NoError, payload, k))"

text \<open>The size of the next chunk; the result is the error, \<open>chunkSize\<close> and \<open>contentLength\<close>.\<close>

definition chunk_size_step ::
  "'k server_conn \<Rightarrow> bool \<Rightarrow> nat \<Rightarrow> nat \<Rightarrow> 'k \<Rightarrow> fault + err \<times> nat \<times> nat \<times> 'k" where
  "chunk_size_step K isChunked chunkSize contentLength k =
     (if isChunked then
        (if contentLength = 0 then
           (case GetLine K k of
              (ok, line, k1) \<Rightarrow>
                if ok then
                  (case (if length line > 0 then trim_loop K line else Inr line) of
                     Inl e \<Rightarrow> Inl e
                   | Inr line \<Rightarrow>
                       (let chunkSize = (case HexConvert K ([48, 120] @ line) of
                              Some n \<Rightarrow> n | None \<Rightarrow> chunkSize);
                            contentLength = chunkSize
                        in Inr (NoError, chunkSize, u32_sub contentLength chunkSize, k1)))
                else Inr (Failed, chunkSize, u32_sub contentLength chunkSize, k1))
         else
           (let chunkSize = contentLength
            in Inr (NoError, chunkSize, u32_sub contentLength chunkSize, k)))
      else
        (let chunkSize = (if contentLength < chunkSize then contentLength else chunkSize)
         in Inr (NoError, chunkSize, u32_sub contentLength chunkSize, k)))"

definition ReadNewChunk ::
  "'k server_conn \<Rightarrow> bytes \<Rightarrow> bool \<Rightarrow> nat \<Rightarrow> nat \<Rightarrow> 'k
     \<Rightarrow> (fault + err \<times> bytes \<times> nat \<times> nat \<times> 'k) option" where
  "ReadNewChunk K payload isChunked chunkSize contentLength k =
     (case chunk_size_step K isChunked chunkSize contentLength k of
        Inl e \<Rightarrow> Some (Inl e)
      | Inr (err, chunkSize, contentLength, k1) \<Rightarrow>
          if err = NoError then
            (case read_loop K chunkSize 0 payload k1 of
               None \<Rightarrow> None
             | Some (err, payload, k2) \<Rightarrow> Some (Inr (err, payload, chunkSize, contentLength, k2)))
          else Some (Inr (err, payload, chunkSize, contentLength, k1)))"

subsection \<open>The replies\<close>

text \<open>
  The socket is deleted when the connection is not kept alive; the flag of the result says so.
\<close>

definition SendOkReplyMessage :: "'k server_conn \<Rightarrow> 'k \<Rightarrow> err \<times> bool \<times> 'k" where
  "SendOkReplyMessage K k =
     (let hstream = ''<html><body><h1>OK!</h1></body></html>'';
          k = WriteHeader_p K 200 (length hstream) ''text/html'' hstream
                (CompleteReadOperation_p K k)
      in if KeepAlive_p K k then (NoError, False, k)
         else (case SockClose K k of
                 (ok, k) \<Rightarrow> (if ok then Completed else Failed, True, k)))"

definition SendErrorReplyMessage :: "'k server_conn \<Rightarrow> 'k \<Rightarrow> bool \<times> 'k" where
  "SendErrorReplyMessage K k =
     (let hstream = ''<html><body><h1>ERROR!</h1></body></html>'';
          k = WriteHeader_p K 400 (length hstream) ''text/html'' hstream
                (SetKeepAlive_p K False (CompleteReadOperation_p K k))
      in (True, snd (SockClose K k)))"

subsection \<open>ClientService\<close>

text \<open>The loop over the chunks.\<close>

partial_function (option) chunks_loop ::
  "'k server_conn \<Rightarrow> marte \<Rightarrow> nat \<Rightarrow> bool \<Rightarrow> receiver \<Rightarrow> bytes \<Rightarrow> nat \<Rightarrow> nat \<Rightarrow> 'k
     \<Rightarrow> (fault + err \<times> receiver \<times> bytes \<times> 'k) option" where
  "chunks_loop K L threadId isChunked R payload chunkSize contentLength k =
     (case ReadNewChunk K payload isChunked chunkSize contentLength k of
        None \<Rightarrow> None
      | Some (Inl e) \<Rightarrow> Some (Inl e)
      | Some (Inr (err, payload, chunkSize, contentLength, k)) \<Rightarrow>
          if err = NoError \<and> chunkSize > 0 then
            (case (if isChunked then (case GetLine K k of (ok, line, k) \<Rightarrow> (err_of ok, k))
                   else (err, k)) of
               (err, k) \<Rightarrow>
                 (case (if err = NoError then consume_vars L threadId R payload
                        else Some (Inr (R, payload))) of
                    None \<Rightarrow> None
                  | Some (Inl e) \<Rightarrow> Some (Inl e)
                  | Some (Inr (R, payload)) \<Rightarrow>
                      if err = NoError
                      then chunks_loop K L threadId isChunked R payload chunkSize contentLength k
                      else Some (Inr (err, R, payload, k))))
          else Some (Inr (err, R, payload, k)))"

text \<open>The header and the payload of a request.\<close>

definition serve_request ::
  "'k server_conn \<Rightarrow> marte \<Rightarrow> nat \<Rightarrow> receiver \<Rightarrow> 'k \<Rightarrow> (fault + err \<times> receiver \<times> 'k) option" where
  "serve_request K L threadId R k =
     (case ReadHeader_p K k of
        (ok, k) \<Rightarrow>
          if ok then
            (case (case InputLength K k of
                     Some n \<Rightarrow> (False, n, if n = 0 then SetKeepAlive_p K False k else k)
                   | None \<Rightarrow> (True, 0, k)) of
               (isChunked, contentLength, k) \<Rightarrow>
                 (case chunks_loop K L threadId isChunked R [] (if isChunked then 0 else 32)
                         contentLength k of
                    None \<Rightarrow> None
                  | Some (Inl e) \<Rightarrow> Some (Inl e)
                  | Some (Inr (err, R, payload, k)) \<Rightarrow>
                      Some (Inr
                        (if err = NoError \<and> isChunked
                         then (case GetLine K k of (ok, line, k) \<Rightarrow> (err_of ok, R, k))
                         else (err, R, k)))))
          else Some (Inr (Failed, R, k)))"

text \<open>The result has the error, whether the socket has been deleted, and the new states.\<close>

definition ClientService ::
  "'k server_conn \<Rightarrow> marte \<Rightarrow> nat \<Rightarrow> receiver \<Rightarrow> 'k
     \<Rightarrow> (fault + err \<times> bool \<times> receiver \<times> 'k) option" where
  "ClientService K L threadId R k =
     (if quit_r R = 0 then
        (case serve_request K L threadId R k of
           None \<Rightarrow> None
         | Some (Inl e) \<Rightarrow> Some (Inl e)
         | Some (Inr (err, R, k)) \<Rightarrow>
             (case (if err = NoError then SendOkReplyMessage K k
                    else (case SendErrorReplyMessage K k of (deleted, k) \<Rightarrow> (err, deleted, k))) of
                (err, deleted, k) \<Rightarrow> Some (Inr (err, deleted, R, Purge K k))))
      else Some (Inr (NoError, False, R, k)))"

subsection \<open>ServerCycle\<close>

datatype exec_stage = Startup_Stage | Wait_Request | Service_Request | Other_Stage

text \<open>
  A service thread: its identifier, its number (at first the identifier), the socket
  of its context, and the number of sockets it has created and not deleted.
\<close>

record 'k service_thread =
  ident_t :: nat
  number_t :: nat
  context_t :: "'k option"
  sockets_t :: nat

text \<open>The last reply and the removal of the context; without a context nothing is sent.\<close>

definition close_context :: "'k server_conn \<Rightarrow> 'k service_thread \<Rightarrow> 'k service_thread" where
  "close_context K T =
     (case context_t T of
        None \<Rightarrow> T
      | Some k \<Rightarrow>
          (case SendOkReplyMessage K (SetKeepAlive_p K False k) of
             (err, deleted, k) \<Rightarrow>
               T\<lparr>context_t := None,
                 sockets_t := (if deleted then sockets_t T - 1 else sockets_t T)\<rparr>))"

definition ServerCycle ::
  "'k server_conn \<Rightarrow> marte \<Rightarrow> exec_stage \<Rightarrow> receiver \<Rightarrow> 'k service_thread
     \<Rightarrow> (fault + err \<times> receiver \<times> 'k service_thread) option" where
  "ServerCycle K L st R T =
     (case st of
        Startup_Stage \<Rightarrow>
          Some (Inr (if number_t T = ident_t T
            then (NoError, R\<lparr>threadIndex_r := u32 (threadIndex_r R + 1)\<rparr>,
                  T\<lparr>number_t := threadIndex_r R\<rparr>)
            else (NoError, R, T)))
      | Other_Stage \<Rightarrow> Some (Inr (Completed, R, close_context K T))
      | _ \<Rightarrow>
          if quit_r R = 0 then
            (if st = Wait_Request then
               (case WaitConnection K (acceptTimeout_r R) of
                  None \<Rightarrow> Some (Inr (Timeout, R, T))
                | Some k \<Rightarrow> Some (Inr (NoError, R, T\<lparr>context_t := Some k, sockets_t := sockets_t T + 1\<rparr>)))
             else
               (case context_t T of
                  None \<Rightarrow> Some (Inl Null_Pointer)
                | Some k \<Rightarrow>
                    (case ClientService K L (number_t T) R k of
                       None \<Rightarrow> None
                     | Some (Inl e) \<Rightarrow> Some (Inl e)
                     | Some (Inr (err, deleted, R, k)) \<Rightarrow>
                         Some (Inr (err, R,
                           T\<lparr>context_t := (if err \<noteq> NoError then None else Some k),
                             sockets_t := (if deleted then sockets_t T - 1 else sockets_t T)\<rparr>)))))
          else Some (Inr (Completed, R, close_context K T)))"

end
