(* ===== verification/ReceiverRequests.thy ===== *)
theory ReceiverRequests
  imports ReceiverService ReceiverTheorems
begin

section \<open>What the service threads guarantee\<close>

text \<open>
  A request over a reliable connection delivers its variables, in whichever of the two forms
  of HTTP its body comes; and every socket a service thread creates is deleted exactly once.
\<close>

subsection \<open>The input of a connection\<close>

text \<open>
  What is still to be read: lines, and data between them. \<open>put_data\<close> leaves no empty data.
\<close>

datatype input_item = Line bytes | Data bytes

definition with_data :: "bytes \<Rightarrow> input_item list \<Rightarrow> input_item list" where
  "with_data d xs = (if d = [] then xs else Data d # xs)"

locale reliable_server =
  fixes K :: "'k server_conn"
    and todo :: "'k \<Rightarrow> input_item list"
    and declared :: "'k \<Rightarrow> nat option"
  assumes char_at: "i < length s \<Longrightarrow> CharAt K s i = s ! i"
    and get_line: "todo k = Line l # xs \<Longrightarrow> GetLine K k = (ok, b, k') \<Longrightarrow> ok \<and> b = l \<and> todo k' = xs"
    and sock_read: "todo k = Data d # xs \<Longrightarrow> d \<noteq> [] \<Longrightarrow> 0 < n \<Longrightarrow> SockRead K n k = (ok, b, k') \<Longrightarrow>
      ok \<and> (\<exists>m. 0 < m \<and> m \<le> n \<and> m \<le> length d \<and> b = take m d \<and> todo k' = with_data (drop m d) xs)"
    and read_header_p: "ReadHeader_p K k = (ok, k') \<Longrightarrow>
      ok \<and> todo k' = todo k \<and> InputLength K k' = declared k"
    and set_keep_alive_p: "todo (SetKeepAlive_p K keep k) = todo k"

text \<open>A line with a size: the number in hexadecimal, and a line end.\<close>

definition size_line :: "'k server_conn \<Rightarrow> nat \<Rightarrow> bytes \<Rightarrow> bool" where
  "size_line K n l \<longleftrightarrow> length l < 4294967296 \<and> (\<exists>h e. l = h @ e \<and> h \<noteq> [] \<and> last h \<notin> {13, 10}
     \<and> set e \<subseteq> {13, 10} \<and> HexConvert K ([48, 120] @ h) = Some n)"

lemma size_lineI:
  "h \<noteq> [] \<Longrightarrow> last h \<notin> {13, 10} \<Longrightarrow> set e \<subseteq> {13, 10} \<Longrightarrow> length (h @ e) < 4294967296 \<Longrightarrow>
    HexConvert K ([48, 120] @ h) = Some n \<Longrightarrow> size_line K n (h @ e)"
  unfolding size_line_def by blast

fun chunked :: "'k server_conn \<Rightarrow> bytes list \<Rightarrow> input_item list \<Rightarrow> bool" where
  "chunked K [] xs \<longleftrightarrow> (\<exists>z e. xs = [Line z, Line e] \<and> size_line K 0 z)"
| "chunked K (c # cs) xs \<longleftrightarrow> (\<exists>l e xs'. xs = Line l # Data c # Line e # xs' \<and> c \<noteq> []
     \<and> length c < 4294967296 \<and> size_line K (length c) l \<and> chunked K cs xs')"

text \<open>A request with a body: its length is declared, or it comes in chunks.\<close>

definition is_request :: "'k server_conn \<Rightarrow> nat option \<Rightarrow> input_item list \<Rightarrow> bytes \<Rightarrow> bool" where
  "is_request K len xs body \<longleftrightarrow>
     (case len of
        Some n \<Rightarrow> n = length body \<and> n < 4294967296 \<and> xs = with_data body []
      | None \<Rightarrow> \<exists>cs. concat cs = body \<and> chunked K cs xs)"

context reliable_server
begin

lemma trim_line:
  assumes "h \<noteq> []" "last h \<notin> {13, 10}" "set e \<subseteq> {13, 10}" "length (h @ e) < 4294967296"
  shows "trim_loop K (h @ e) = Inr h"
  using assms(3,4)
proof (induction e rule: rev_induct)
  case Nil
  then have "CharAt K h (u32_sub (length h) 1) = last h"
    using assms(1) by (simp add: u32_sub_id Suc_le_eq char_at last_conv_nth)
  then show ?case using assms(1,2) by (subst trim_loop.simps) simp
next
  case (snoc x e)
  then have "CharAt K (h @ e @ [x]) (u32_sub (length (h @ e @ [x])) 1) = x"
    by (simp add: u32_sub_id char_at nth_append)
  then have "trim_loop K (h @ e @ [x]) = trim_loop K (h @ e)"
    using snoc.prems by (subst trim_loop.simps) (auto simp: butlast_append)
  then show ?case using snoc by simp
qed

lemma read_all:
  assumes "todo k = with_data d xs" and "chunkSize - sizeRead \<le> length d"
    and "sizeRead \<le> chunkSize" and "chunkSize < 4294967296"
  shows "\<exists>k'. read_loop K chunkSize sizeRead p k = Some (NoError, p @ take (chunkSize - sizeRead) d, k')
    \<and> todo k' = with_data (drop (chunkSize - sizeRead) d) xs"
  using assms
proof (induction "chunkSize - sizeRead" arbitrary: sizeRead p k d rule: less_induct)
  case less
  show ?case
  proof (cases "sizeRead < chunkSize")
    case False
    then show ?thesis using less.prems by (subst read_loop.simps) simp
  next
    case True
    let ?n = "if chunkSize - sizeRead > 1023 then 1023 else chunkSize - sizeRead"
    have d: "d \<noteq> []" "todo k = Data d # xs" "0 < ?n"
      using True less.prems by (auto simp: with_data_def)
    obtain ok b k1 where r: "SockRead K ?n k = (ok, b, k1)" by (cases "SockRead K ?n k")
    from sock_read [OF d(2,1,3) r] obtain m where
      m: "ok" "0 < m" "m \<le> ?n" "m \<le> length d" "b = take m d" "todo k1 = with_data (drop m d) xs"
      by blast
    have le: "m \<le> chunkSize - sizeRead" using m(3) by (simp split: if_splits)
    have u: "u32 (sizeRead + length b) = sizeRead + m"
      using m le less.prems by (simp add: u32_id)
    have side: "chunkSize - (sizeRead + m) < chunkSize - sizeRead"
        "chunkSize - (sizeRead + m) \<le> length (drop m d)" "sizeRead + m \<le> chunkSize"
      using le m(2) less.prems True by auto
    obtain k' where k': "read_loop K chunkSize (sizeRead + m) (p @ b) k1
        = Some (NoError, (p @ b) @ take (chunkSize - (sizeRead + m)) (drop m d), k')"
        "todo k' = with_data (drop (chunkSize - (sizeRead + m)) (drop m d)) xs"
      using less.hyps [OF side(1) m(6) side(2,3) less.prems(4), of "p @ b"] by blast
    have "take m d @ take (chunkSize - (sizeRead + m)) (drop m d) = take (chunkSize - sizeRead) d"
      using le by (metis diff_diff_left le_add_diff_inverse take_add)
    moreover have "chunkSize - (sizeRead + m) + m = chunkSize - sizeRead" using side(3) by linarith
    then have "drop (chunkSize - (sizeRead + m)) (drop m d) = drop (chunkSize - sizeRead) d" by simp
    moreover have "read_loop K chunkSize sizeRead p k = read_loop K chunkSize (sizeRead + m) (p @ b) k1"
      using True m(1) u r by (subst read_loop.simps) (simp add: Let_def)
    ultimately show ?thesis using k' m(5) by simp
  qed
qed

subsection \<open>The loop over the chunks\<close>

text \<open>A chunk of a chunked body, and the end of such a body.\<close>

lemma size_step:
  assumes "size_line K n l" and "todo k = Line l # xs"
  shows "\<exists>k'. chunk_size_step K True cs 0 k = Inr (NoError, n, 0, k') \<and> todo k' = xs"
proof -
  obtain h e where l: "l = h @ e" "h \<noteq> []" "last h \<notin> {13, 10}" "set e \<subseteq> {13, 10}"
      "length (h @ e) < 4294967296" "HexConvert K ([48, 120] @ h) = Some n"
    using assms(1) by (auto simp: size_line_def)
  obtain ok b k' where g: "GetLine K k = (ok, b, k')" by (cases "GetLine K k")
  show ?thesis
    using get_line [OF assms(2) g] g trim_line [OF l(2-5)] l(1,2,6)
    by (simp add: chunk_size_step_def u32_sub_def u32_def)
qed

lemma take_chunk:
  assumes "size_line K (length c) l" and "todo k = Line l # with_data c xs" and "length c < 4294967296"
  shows "\<exists>k'. ReadNewChunk K p True cs 0 k = Some (Inr (NoError, p @ c, length c, 0, k')) \<and> todo k' = xs"
proof -
  obtain k1 where k1: "chunk_size_step K True cs 0 k = Inr (NoError, length c, 0, k1)" "todo k1 = with_data c xs"
    using size_step [OF assms(1,2)] by blast
  then obtain k' where "read_loop K (length c) 0 p k1 = Some (NoError, p @ c, k')" "todo k' = with_data [] xs"
    using read_all [OF k1(2), of "length c" 0 p] assms(3) by auto
  then show ?thesis using k1(1) by (simp add: ReadNewChunk_def with_data_def)
qed

lemma chunks_deliver:
  assumes "chunked K cs xs" and "todo k = xs" and "feed L t R p cs = Some (Inr (R', p'))"
  shows "\<exists>k' e. chunks_loop K L t True R p sz 0 k = Some (Inr (NoError, R', p', k')) \<and> todo k' = [Line e]"
  using assms
proof (induction cs arbitrary: xs k R p sz)
  case Nil
  then obtain z e where z: "todo k = Line z # with_data ([] :: bytes) [Line e]" "size_line K (length ([] :: bytes)) z"
    by (auto simp: with_data_def)
  obtain k' where "ReadNewChunk K p True sz 0 k = Some (Inr (NoError, p, 0, 0, k'))" "todo k' = [Line e]"
    using take_chunk [OF z(2,1), of p sz] by auto
  then show ?case using Nil.prems(3) by (subst chunks_loop.simps) simp
next
  case (Cons c cs)
  then obtain l e xs' where l: "todo k = Line l # with_data c (Line e # xs')" "c \<noteq> []"
      "length c < 4294967296" "size_line K (length c) l" "chunked K cs xs'"
    by (auto simp: with_data_def)
  obtain k1 where k1: "ReadNewChunk K p True sz 0 k = Some (Inr (NoError, p @ c, length c, 0, k1))"
      "todo k1 = Line e # xs'"
    using take_chunk [OF l(4,1,3), of p sz] by auto
  obtain ok b k2 where g: "GetLine K k1 = (ok, b, k2)" by (cases "GetLine K k1")
  have g': "ok" "todo k2 = xs'" using get_line [OF k1(2) g] by simp_all
  obtain R1 p1 where c: "consume_vars L t R (p @ c) = Some (Inr (R1, p1))" "feed L t R1 p1 cs = Some (Inr (R', p'))"
    using Cons.prems(3) by (auto split: option.splits sum.splits)
  have "chunks_loop K L t True R p sz 0 k = chunks_loop K L t True R1 p1 (length c) 0 k2"
    using k1(1) g g'(1) c(1) l(2) by (subst chunks_loop.simps) (simp add: err_of_def)
  then show ?case using Cons.IH [OF l(5) g'(2) c(2), of "length c"] by simp
qed

end

text \<open>A body of a declared length is read in pieces of at most 32 bytes.\<close>

function cut_body :: "nat \<Rightarrow> bytes \<Rightarrow> bytes list" where
  "cut_body n d = (if d = [] \<or> n = 0 then [] else take n d # cut_body n (drop n d))"
  by pat_completeness auto
termination by (relation "measure (\<lambda>(n, d). length d)") auto

declare cut_body.simps [simp del]

lemma concat_cut: "0 < n \<Longrightarrow> concat (cut_body n d) = d"
proof (induction n d rule: cut_body.induct)
  case (1 n d)
  then show ?case by (subst cut_body.simps) simp
qed

context reliable_server
begin

lemma take_piece:
  assumes "todo k = with_data d []" and "length d < 4294967296" and "0 < sz"
  shows "\<exists>k'. ReadNewChunk K p False sz (length d) k
      = Some (Inr (NoError, p @ take sz d, min sz (length d), length d - sz, k'))
    \<and> todo k' = with_data (drop sz d) []"
proof -
  let ?n = "min sz (length d)"
  have "?n < 4294967296" using assms(2) by linarith
  then obtain k' where k': "read_loop K ?n 0 p k = Some (NoError, p @ take ?n d, k')"
      "todo k' = with_data (drop ?n d) []"
    using read_all [OF assms(1), of ?n 0 p] by auto
  have "(if length d < sz then length d else sz) = ?n" "u32_sub (length d) ?n = length d - sz"
    using assms(2) by (auto simp: u32_sub_id)
  then have "chunk_size_step K False sz (length d) k = Inr (NoError, ?n, length d - sz, k)"
    by (simp add: chunk_size_step_def Let_def)
  moreover have "take ?n d = take sz d" "drop ?n d = drop sz d" by (simp_all add: min_def)
  ultimately show ?thesis using k' by (simp add: ReadNewChunk_def)
qed

lemma body_deliver:
  assumes "todo k = with_data d []" and "length d < 4294967296" and "0 < sz \<or> d = []"
    and "feed L t R p (cut_body sz d) = Some (Inr (R', p'))"
  shows "\<exists>k'. chunks_loop K L t False R p sz (length d) k = Some (Inr (NoError, R', p', k'))"
  using assms
proof (induction sz d arbitrary: k R p rule: cut_body.induct)
  case (1 sz d)
  show ?case
  proof (cases "d = []")
    case True
    have "\<exists>k'. ReadNewChunk K p False sz 0 k = Some (Inr (NoError, p, 0, 0, k'))"
      using read_all [of k "[]" "[]" 0 0 p] 1(2) True
      by (auto simp: ReadNewChunk_def chunk_size_step_def Let_def u32_sub_def u32_def)
    moreover have "cut_body sz d = []" using True by (subst cut_body.simps) simp
    ultimately show ?thesis
      using 1(5) True by (subst chunks_loop.simps) auto
  next
    case False
    then have sz: "0 < sz" using 1 by auto
    obtain k1 where k1: "ReadNewChunk K p False sz (length d) k
        = Some (Inr (NoError, p @ take sz d, min sz (length d), length d - sz, k1))"
        "todo k1 = with_data (drop sz d) []"
      using take_piece [OF 1(2,3) sz] by blast
    have "cut_body sz d = take sz d # cut_body sz (drop sz d)" using False sz by (subst cut_body.simps) simp
    then obtain R1 p1 where c: "consume_vars L t R (p @ take sz d) = Some (Inr (R1, p1))"
        "feed L t R1 p1 (cut_body sz (drop sz d)) = Some (Inr (R', p'))"
      using 1(5) by (auto split: option.splits sum.splits)
    have "chunks_loop K L t False R p sz (length d) k
        = chunks_loop K L t False R1 p1 (min sz (length d)) (length (drop sz d)) k1"
      using k1(1) c(1) False sz by (subst chunks_loop.simps) simp
    moreover have "\<exists>k'. chunks_loop K L t False R1 p1 (min sz (length d)) (length (drop sz d)) k1
        = Some (Inr (NoError, R', p', k'))"
    proof (cases "sz < length d")
      case True
      then have "min sz (length d) = sz" by simp
      then show ?thesis
        using 1(1) [OF _ k1(2) _ _ c(2)] False sz 1(3) by simp
    next
      case fin: False
      have "\<exists>k'. ReadNewChunk K p1 False (length d) 0 k1 = Some (Inr (NoError, p1, 0, 0, k'))"
        using read_all [of k1 "[]" "[]" 0 0 p1] k1(2) fin
        by (auto simp: ReadNewChunk_def chunk_size_step_def Let_def u32_sub_def u32_def)
      moreover have "cut_body sz (drop sz d) = []" using fin by (subst cut_body.simps) simp
      ultimately show ?thesis
        using c(2) fin by (subst chunks_loop.simps) (auto simp: min_absorb2)
    qed
    ultimately show ?thesis by simp
  qed
qed

text \<open>The whole request.\<close>

lemma request_delivers:
  assumes "quit_r R = 0" and "is_request K (declared k) (todo k) body"
    and "\<And>cs. concat cs = body \<Longrightarrow> feed L t R [] cs = Some (Inr (R', []))"
  shows "\<exists>err deleted k'. ClientService K L t R k = Some (Inr (err, deleted, R', k'))
    \<and> deleted = (err \<noteq> NoError)"
proof -
  obtain ok k1 where h: "ReadHeader_p K k = (ok, k1)" by (cases "ReadHeader_p K k")
  have k1: "ok" "todo k1 = todo k" "InputLength K k1 = declared k" using read_header_p [OF h] by simp_all
  have "\<exists>k'. serve_request K L t R k = Some (Inr (NoError, R', k'))"
  proof (cases "declared k")
    case (Some n)
    then have n: "n = length body" "n < 4294967296" "todo k = with_data body []"
      using assms(2) by (simp_all add: is_request_def)
    let ?k2 = "if n = 0 then SetKeepAlive_p K False k1 else k1"
    have "feed L t R [] (cut_body 32 body) = Some (Inr (R', []))"
      by (rule assms(3)) (simp add: concat_cut)
    moreover have "todo ?k2 = with_data body []" using n k1(2) by (simp add: set_keep_alive_p)
    ultimately obtain k3 where "chunks_loop K L t False R [] 32 (length body) ?k2 = Some (Inr (NoError, R', [], k3))"
      using body_deliver [of ?k2 body 32 L t R "[]" R' "[]"] n(1,2) by auto
    then show ?thesis
      using h k1 Some n(1) by (auto simp: serve_request_def)
  next
    case None
    then obtain cs where cs: "concat cs = body" "chunked K cs (todo k1)"
      using assms(2) k1(2) by (auto simp: is_request_def)
    obtain k2 e where l: "chunks_loop K L t True R [] 0 0 k1 = Some (Inr (NoError, R', [], k2))" "todo k2 = [Line e]"
      using chunks_deliver [OF cs(2) refl assms(3) [OF cs(1)]] by blast
    obtain ok2 b k3 where g: "GetLine K k2 = (ok2, b, k3)" by (cases "GetLine K k2")
    then have "ok2" using get_line [OF l(2) g] by simp
    then show ?thesis using h k1 None l(1) g by (simp add: serve_request_def err_of_def)
  qed
  then obtain k2 where "serve_request K L t R k = Some (Inr (NoError, R', k2))" ..
  then show ?thesis
    using assms(1) by (auto simp: ClientService_def SendOkReplyMessage_def Let_def split: prod.splits if_splits)
qed

end

subsection \<open>A request delivers its variables\<close>

text \<open>
  (C8) A request whose body is a sequence of variables delivers exactly these, in order, whether
  its length is declared or it comes in chunks, wherever the chunks are cut and however many
  bytes a read returns; the thread answers, and gives the socket up only with an error.
\<close>

theorem request_form_is_irrelevant:
  assumes "reliable_server K todo declared" and "marte_lib L" and "stream_inv L dir R"
    and "\<forall>fr \<in> set frs. frame_for L dir R fr" and "quit_r R = 0"
    and "is_request K (declared k) (todo k) (encode_all frs)"
  shows "\<exists>err deleted k'. ClientService K L t R k = Some (Inr (err, deleted, deliver_all L t R frs, k'))
    \<and> deleted = (err \<noteq> NoError)"
  using reliable_server.request_delivers [OF assms(1,5,6)] marte_lib.feed_all [OF assms(2-4), of "[]"]
  by simp

text \<open>A connection that keeps its input in a list, and reads at most five bytes at a time.\<close>

record ref_input =
  ri_todo :: "input_item list"
  ri_length :: "nat option"
  ri_keep :: bool

fun ref_line :: "ref_input \<Rightarrow> bool \<times> bytes \<times> ref_input" where
  "ref_line k = (case ri_todo k of
     Line l # xs \<Rightarrow> (True, l, k\<lparr>ri_todo := xs\<rparr>)
   | _ \<Rightarrow> (False, [], k))"

fun ref_read :: "nat \<Rightarrow> ref_input \<Rightarrow> bool \<times> bytes \<times> ref_input" where
  "ref_read n k = (case ri_todo k of
     Data d # xs \<Rightarrow> (True, take (min n 5) d, k\<lparr>ri_todo := with_data (drop (min n 5) d) xs\<rparr>)
   | _ \<Rightarrow> (False, [], k))"

definition hex_digit :: "byte \<Rightarrow> nat option" where
  "hex_digit b = (if 48 \<le> b \<and> b \<le> 57 then Some (unat b - 48)
     else if 97 \<le> b \<and> b \<le> 102 then Some (unat b - 87) else None)"

fun hex_value :: "nat \<Rightarrow> bytes \<Rightarrow> nat option" where
  "hex_value n [] = Some n"
| "hex_value n (b # bs) = (case hex_digit b of None \<Rightarrow> None | Some x \<Rightarrow> hex_value (16 * n + x) bs)"

definition ref_server :: "ref_input server_conn" where
  "ref_server = \<lparr>CharAt = (\<lambda>s i. if i < length s then s ! i else 0), HexConvert = (\<lambda>s. hex_value 0 (drop 2 s)),
     GetLine = ref_line, SockRead = ref_read, SockClose = (\<lambda>k. (True, k)),
     ReadHeader_p = (\<lambda>k. (True, k)), InputLength = ri_length, CompleteReadOperation_p = (\<lambda>k. k),
     WriteHeader_p = (\<lambda>s n t b k. k), SetKeepAlive_p = (\<lambda>b k. k\<lparr>ri_keep := b\<rparr>),
     KeepAlive_p = ri_keep, Purge = (\<lambda>k. k), WaitConnection = (\<lambda>t. None)\<rparr>"

interpretation ref_input: reliable_server ref_server ri_todo ri_length
proof
  fix k d xs n ok b k'
  assume "ri_todo k = Data d # xs" "d \<noteq> []" "0 < n" "SockRead ref_server n k = (ok, b, k')"
  then show "ok \<and> (\<exists>m. 0 < m \<and> m \<le> n \<and> m \<le> length d \<and> b = take m d \<and> ri_todo k' = with_data (drop m d) xs)"
    by (intro conjI exI [of _ "min (min n 5) (length d)"])
      (auto simp: ref_server_def min_def)
qed (auto simp: ref_server_def)

definition ex_request :: ref_input where
  "ex_request = \<lparr>ri_todo = [Line [50, 50, 13, 10], Data (encode (ex_frame 0 [1, 2, 3, 4])), Line [13, 10],
     Line [48, 13, 10], Line [13, 10]], ri_length = None, ri_keep = True\<rparr>"

lemma ex_size_lines: "size_line ref_server 34 [50, 50, 13, 10]" "size_line ref_server 0 [48, 13, 10]"
proof -
  have "HexConvert ref_server ([48, 120] @ [50, 50]) = Some 34" "HexConvert ref_server ([48, 120] @ [48]) = Some 0"
    by (simp_all add: ref_server_def hex_digit_def)
  then show "size_line ref_server 34 [50, 50, 13, 10]" "size_line ref_server 0 [48, 13, 10]"
    using size_lineI [of "[50, 50]" "[13, 10]" ref_server 34] size_lineI [of "[48]" "[13, 10]" ref_server 0]
    by simp_all
qed

theorem request_form_is_irrelevant_witness:
  "\<exists>err deleted k'. ClientService ref_server ref_marte 0 ex_receiver ex_request
    = Some (Inr (err, deleted, deliver_all ref_marte 0 ex_receiver [ex_frame 0 [1, 2, 3, 4]], k'))"
proof -
  have fr: "\<forall>fr \<in> set [ex_frame 0 [1, 2, 3, 4]]. frame_for ref_marte ex_dir ex_receiver fr"
    by (simp add: ex_frame_for)
  have len: "length (encode (ex_frame 0 [1, 2, 3, 4])) = 34"
    by (simp add: encode_def ex_frame_def ex_dir_def)
  then have "encode (ex_frame 0 [1, 2, 3, 4]) \<noteq> []" by auto
  then have "chunked ref_server [encode (ex_frame 0 [1, 2, 3, 4])] (ri_todo ex_request)"
    using ex_size_lines len by (simp add: ex_request_def)
  then have "is_request ref_server (ri_length ex_request) (ri_todo ex_request) (encode_all [ex_frame 0 [1, 2, 3, 4]])"
    by (auto simp: is_request_def ex_request_def intro!: exI [of _ "[encode (ex_frame 0 [1, 2, 3, 4])]"])
  moreover have "quit_r ex_receiver = 0" by (simp add: ex_receiver_def)
  ultimately show ?thesis
    using request_form_is_irrelevant [OF ref_input.reliable_server_axioms ref.marte_lib_axioms ex_stream_inv fr]
    by blast
qed

subsection \<open>The sockets\<close>

text \<open>A deleted socket and an error go together.\<close>

lemma client_deletes:
  "ClientService K L t R k = Some (Inr (err, deleted, R', k')) \<Longrightarrow> deleted = (err \<noteq> NoError)"
  by (auto simp: ClientService_def SendOkReplyMessage_def SendErrorReplyMessage_def Let_def
      split: if_splits option.splits sum.splits prod.splits)

definition one_socket :: "'k service_thread \<Rightarrow> bool" where
  "one_socket T \<longleftrightarrow> sockets_t T = (if context_t T = None then 0 else 1)"

lemma close_context_socket:
  assumes "\<And>s n ty b k. \<not> KeepAlive_p K (WriteHeader_p K s n ty b (CompleteReadOperation_p K (SetKeepAlive_p K False k)))"
    and "one_socket T"
  shows "one_socket (close_context K T) \<and> context_t (close_context K T) = None"
  using assms by (auto simp: one_socket_def close_context_def SendOkReplyMessage_def Let_def
      split: option.splits prod.splits)

text \<open>
  (C24) A service thread owns a socket exactly while its context holds one, in every stage and on
  every error: no socket is lost, none is deleted twice, and none is left at the end. It takes for
  granted that a connection told not to be kept alive is not kept alive, and that the service
  accepts a new connection only in a thread without one.
\<close>

theorem sockets_are_owned:
  assumes "\<forall>s n ty b k. \<not> KeepAlive_p K (WriteHeader_p K s n ty b (CompleteReadOperation_p K (SetKeepAlive_p K False k)))"
    and "sockets_t T = (if context_t T = None then 0 else 1)"
    and "st = Wait_Request \<longrightarrow> context_t T = None"
    and "ServerCycle K L st R T = Some (Inr (err, R', T'))"
  shows "sockets_t T' = (if context_t T' = None then 0 else 1)
    \<and> (st = Other_Stage \<or> quit_r R \<noteq> 0 \<and> st \<noteq> Startup_Stage \<longrightarrow> context_t T' = None)
    \<and> (st = Service_Request \<and> err \<noteq> NoError \<longrightarrow> context_t T' = None)"
proof -
  have T: "one_socket T" using assms(2) by (simp add: one_socket_def)
  note close = close_context_socket [OF _ T, of K]
  show ?thesis
  proof (cases "st = Other_Stage \<or> quit_r R \<noteq> 0 \<and> st \<noteq> Startup_Stage")
    case True
    then have "T' = close_context K T"
      using assms(4) by (auto simp: ServerCycle_def split: exec_stage.splits)
    then show ?thesis using close assms(1) by (simp add: one_socket_def)
  next
    case False
    then show ?thesis
      using assms(2-4)
      by (cases st) (auto simp: ServerCycle_def split: if_splits option.splits sum.splits prod.splits
          dest!: client_deletes)
  qed
qed

theorem sockets_are_owned_witness:
  "\<exists>R' T'. ServerCycle ref_server ref_marte Other_Stage ex_receiver
      \<lparr>ident_t = 7, number_t = 0, context_t = Some ex_request, sockets_t = 1\<rparr> = Some (Inr (Completed, R', T'))
    \<and> sockets_t T' = 0"
proof -
  let ?T = "\<lparr>ident_t = 7, number_t = 0, context_t = Some ex_request, sockets_t = 1\<rparr>"
  have k: "\<forall>s n ty b k. \<not> KeepAlive_p ref_server (WriteHeader_p ref_server s n ty b
      (CompleteReadOperation_p ref_server (SetKeepAlive_p ref_server False k)))"
    by (simp add: ref_server_def)
  have "ServerCycle ref_server ref_marte Other_Stage ex_receiver ?T
      = Some (Inr (Completed, ex_receiver, close_context ref_server ?T))"
    by (simp add: ServerCycle_def)
  then show ?thesis
    using sockets_are_owned [OF k, of ?T Other_Stage] by fastforce
qed

end
