(* ===== verification/ReceiverLife.thy ===== *)
theory ReceiverLife
  imports ReceiverService ReceiverTheorems
begin

section \<open>What start-up and the writing threads guarantee\<close>

text \<open>
  \<open>Start\<close> makes the receiver well formed, a turn of a writing thread puts exactly the changed
  variables when there is one such thread, and loses some when there are more; the sockets
  of the service threads.
\<close>

subsection \<open>The start-up establishes the invariant of the stream\<close>

abbreviation need :: "pv_rec \<Rightarrow> nat" where
  "need pv \<equiv> totalSize_r pv + 8"

text \<open>The places when the sum does not wrap around.\<close>

lemma offset_loop_eq:
  assumes "offset_loop m ps = (ps', e)" and "m + sum_list (map need ps) < 4294967296"
  shows "e = m + sum_list (map need ps) \<and> length ps' = length ps
    \<and> (\<forall>i < length ps. ps' ! i = (ps ! i)\<lparr>offset_r := m + sum_list (map need (take i ps))\<rparr>)"
  using assms
proof (induction ps arbitrary: m ps' e)
  case (Cons pv ps)
  obtain qs where q: "offset_loop (m + need pv) ps = (qs, e)" "ps' = pv\<lparr>offset_r := m\<rparr> # qs"
    using Cons.prems by (simp add: u32_id split: prod.splits)
  show ?case
    using Cons.IH [OF q(1)] Cons.prems(2) q(2) by (simp add: All_less_Suc2 ac_simps)
qed simp

lemma sum_need_mono:
  "i < j \<Longrightarrow> j \<le> length ps \<Longrightarrow>
    sum_list (map need (take i ps)) + need (ps ! i) \<le> sum_list (map need (take j ps))"
proof -
  assume "i < j" "j \<le> length ps"
  then have "take j ps = take (Suc i) ps @ take (j - Suc i) (drop (Suc i) ps)"
    by (metis Suc_leI le_add_diff_inverse take_add)
  then show ?thesis
    using \<open>i < j\<close> \<open>j \<le> length ps\<close> by (simp add: take_Suc_conv_app_nth)
qed

lemma offset_loop_slots:
  assumes "offset_loop 0 ps = (ps', e)" and "sum_list (map need ps) < 4294967296"
  shows "slots_ok ps' e" and "e = sum_list (map need ps)"
    and "map pvName_r ps' = map pvName_r ps" and "map totalSize_r ps' = map totalSize_r ps"
proof -
  note o = offset_loop_eq [OF assms(1)] assms(2)
  then show "e = sum_list (map need ps)" by simp
  show "map pvName_r ps' = map pvName_r ps" "map totalSize_r ps' = map totalSize_r ps"
    using o by (auto intro!: nth_equalityI)
  have at: "ps' ! i = (ps ! i)\<lparr>offset_r := sum_list (map need (take i ps))\<rparr>" if "i < length ps" for i
    using o that by simp
  show "slots_ok ps' e"
    unfolding slots_ok_def
  proof (intro conjI allI impI)
    fix i assume "i < length ps'"
    then show "offset_r (ps' ! i) + totalSize_r (ps' ! i) + 8 \<le> e"
      using o at [of i] sum_need_mono [of i "length ps" ps] by simp
  next
    fix i j assume "i < j" "j < length ps'"
    then show "offset_r (ps' ! i) + totalSize_r (ps' ! i) + 8 \<le> offset_r (ps' ! j)"
      using o at [of i] at [of j] sum_need_mono [of i j ps] by simp
  qed
qed

lemma init_pv_name [simp]: "pvName_r (init_pv C m pv) = pvName_r pv"
  by (auto simp: init_pv_def Let_def split: option.splits prod.splits)

lemma init_threads_keep:
  assumes "init_threads_rec C k R = Inr R'"
  shows "map pvName_r (pvs R') = map pvName_r (pvs R)
    \<and> numberOfVariables_r R' = numberOfVariables_r R \<and> maxArraySize_r R' = maxArraySize_r R
    \<and> maxNumberOfThreads_r R' = maxNumberOfThreads_r R \<and> numberOfReceivedPVs R' = numberOfReceivedPVs R"
  using assms
proof (induction k arbitrary: R)
  case (Suc k)
  then obtain R1 where r: "init_thread_rec C (threadCnt_r R) R = Inr R1" "init_threads_rec C k R1 = Inr R'"
    by (auto split: sum.splits)
  have "map pvName_r (pvs R1) = map pvName_r (pvs R) \<and> numberOfVariables_r R1 = numberOfVariables_r R
      \<and> maxArraySize_r R1 = maxArraySize_r R \<and> maxNumberOfThreads_r R1 = maxNumberOfThreads_r R
      \<and> numberOfReceivedPVs R1 = numberOfReceivedPVs R"
    using r(1) by (auto simp: init_thread_rec_def split: sum.splits intro!: nth_equalityI)
  then show ?case using Suc.IH [OF r(2)] by simp
qed simp

text \<open>What \<open>Initialise\<close> leaves, by the theorem on the table of names.\<close>

definition configured :: "marte \<Rightarrow> receiver \<Rightarrow> bool" where
  "configured L R \<longleftrightarrow> numberOfVariables_r R = length (pvs R) \<and> length (pvs R) < 2147483648
     \<and> sorted_wrt (name_order.name_le (StrCompare L)) (names_of (pvs R))
     \<and> 8 * maxArraySize_r R + 256 < 4294967296"

text \<open>
  (C10) When \<open>Start\<close> succeeds and the values fit 32-bit offsets, the receiver is ready for any
  sender: every variable has its own slot for value and time stamp within the memory; the values,
  the values the next ones are compared with, the copy for the writing threads and both arrays of
  flags are 0; and no index of a sender is resolved.
\<close>

theorem start_establishes_invariant:
  assumes "configured L R" and "Start_r C now listening started R = Inr (NoError, R')"
    and "sum_list (map (\<lambda>pv. totalSize_r pv + 8) (pvs R')) < 4294967296"
  shows "stream_inv L dir R' \<and> names_of (pvs R') = names_of (pvs R)
    \<and> totalMemorySize_r R' = sum_list (map (\<lambda>pv. totalSize_r pv + 8) (pvs R'))
    \<and> memory_r R' = replicate (totalMemorySize_r R') 0
    \<and> memoryPrec_r R' = replicate (totalMemorySize_r R') 0
    \<and> memory2_r R' = replicate (totalMemorySize_r R') 0
    \<and> changeFlag_r R' = replicate (length (pvs R')) 0
    \<and> changeFlag2_r R' = replicate (length (pvs R')) 0
    \<and> (\<forall>m \<in> set (pvMapping R'). m = INDEX_INIT_ID)"
proof -
  let ?R0 = "R\<lparr>numberOfReceivedPVs := replicate (maxNumberOfThreads_r R) 0\<rparr>"
  obtain R1 where i: "init_threads_rec C (numberOfInitThreads_r R) ?R0 = Inr R1"
    and R': "R' = (start_memory R1)\<lparr>lastTickCounter_r := lastTickCounter_r R', eventSem_r := True\<rparr>"
    using assms(2) by (auto simp: Start_r_def Let_def split: sum.splits)
  obtain ps e where o: "offset_loop 0 (pvs R1) = (ps, e)" by fastforce
  note keep = init_threads_keep [OF i, simplified]
  have sizes: "map totalSize_r ps = map totalSize_r (pvs R1)"
  proof -
    have "map totalSize_r (fst (offset_loop m qs)) = map totalSize_r qs" for m qs
      by (induction m qs rule: offset_loop.induct) (auto split: prod.splits)
    from this [of 0 "pvs R1"] show ?thesis using o by simp
  qed
  have pR': "pvs R' = ps" by (subst R') (simp add: start_memory_def o)
  have need: "map need ps = map need (pvs R1)"
    using arg_cong [OF sizes, of "map (\<lambda>n. n + 8)"] by (simp add: comp_def)
  have s: "sum_list (map need (pvs R1)) < 4294967296" using assms(3) need pR' by simp
  note os = offset_loop_slots [OF o s]
  have len: "length ps = length (pvs R)"
    using os(3) keep by (metis length_map)
  have names: "names_of ps = names_of (pvs R)" using os(3) keep by simp
  have fields: "numberOfVariables_r R' = numberOfVariables_r R1" "totalMemorySize_r R' = e"
      "memory_r R' = replicate e 0" "memoryPrec_r R' = replicate e 0" "memory2_r R' = replicate e 0"
      "changeFlag2_r R' = replicate (numberOfVariables_r R1) 0"
      "changeFlag_r R' = replicate (numberOfVariables_r R1) 0"
      "pvMapping R' = replicate (u32 (2 * numberOfVariables_r R1)) INDEX_INIT_ID"
      "maxArraySize_r R' = maxArraySize_r R1" "maxNumberOfThreads_r R' = maxNumberOfThreads_r R1"
      "numberOfReceivedPVs R' = numberOfReceivedPVs R1"
    by (subst R'; simp add: start_memory_def o)+
  have wf: "receiver_wf L R'"
    using assms(1) keep os fields pR' len names s
    by (simp add: receiver_wf_def configured_def u32_id INDEX_NOT_FOUND_ID_def)
  have "mapping_ok dir R'" using fields by (simp add: mapping_ok_def)
  then show ?thesis
    using wf names fields pR' os need keep assms(1) len
    by (simp add: stream_inv_def configured_def)
qed

definition ex_server :: ca_server where
  "ex_server = \<lparr>cs_channel = (\<lambda>name. Some \<lparr>ca_state = Cs_conn, ca_element_count = 1, ca_field_type = DBF_LONG\<rparr>),
     cs_context = (\<lambda>t. True), cs_code = (\<lambda>t. 5)\<rparr>"

definition ex_fresh :: receiver where
  "ex_fresh = ex_receiver\<lparr>pvs := [ex_pv [65] 7, ex_pv [66] 7], threadCnt_r := 0\<rparr>"

lemma ex_fresh_fields [simp]:
  "pvs ex_fresh = [ex_pv [65] 7, ex_pv [66] 7]" "threadCnt_r ex_fresh = 0"
  "numberOfVariables_r ex_fresh = 2" "numberOfInitThreads_r ex_fresh = 1" "numberOfCpus_r ex_fresh = 1"
  "maxArraySize_r ex_fresh = 100" "maxNumberOfThreads_r ex_fresh = 1"
  by (simp_all add: ex_fresh_def ex_receiver_def)

lemma ex_init_pv: "init_pv ex_server 100 (ex_pv n k) = (ex_pv n k)\<lparr>pvChid_r :=
    Some \<lparr>ca_state = Cs_conn, ca_element_count = 1, ca_field_type = DBF_LONG\<rparr>\<rparr>"
  by (simp add: init_pv_def ex_server_def cainfo_rec_def rec_type_info_def ex_pv_def u32_def)

lemma ex_init_range:
  "numberOfVariables_r R = 2 \<Longrightarrow> numberOfInitThreads_r R = 1 \<Longrightarrow> init_range ex_server 0 R = Inr (0, 2)"
  by (simp add: init_range_def ex_server_def chunk_bounds_def u32_sub_def u32_def)

lemma ex_start:
  "\<exists>R'. Start_r ex_server 0 True NoError ex_fresh = Inr (NoError, R') \<and> map totalSize_r (pvs R') = [4, 4]"
proof -
  have c: "cs_context ex_server 0" by (simp add: ex_server_def)
  let ?R0 = "ex_fresh\<lparr>numberOfReceivedPVs := [0]\<rparr>"
  have i: "init_range ex_server 0 ?R0 = Inr (0, 2)" by (rule ex_init_range) simp_all
  obtain R1 where r: "init_threads_rec ex_server (Suc 0) ?R0 = Inr R1"
    and p: "pvs R1 = map (init_pv ex_server 100) (pvs ex_fresh)"
    by (simp add: init_thread_rec_def i c upt_rec)
  have "map totalSize_r (pvs (start_memory R1)) = [4, 4]"
    by (simp add: start_memory_def p ex_init_pv u32_def) (simp add: ex_pv_def)
  then show ?thesis
    using r by (simp add: Start_r_def shl1_def Let_def)
qed

theorem start_establishes_invariant_witness:
  "\<exists>R'. Start_r ex_server 0 True NoError ex_fresh = Inr (NoError, R')
    \<and> stream_inv ref_marte ex_dir R' \<and> totalMemorySize_r R' = 24"
proof -
  obtain R' where r: "Start_r ex_server 0 True NoError ex_fresh = Inr (NoError, R')"
      "map totalSize_r (pvs R') = [4, 4]"
    using ex_start by (elim exE conjE)
  have n: "sum_list (map (\<lambda>pv. totalSize_r pv + 8) (pvs R')) = 24"
    using arg_cong [OF r(2), of "\<lambda>xs. sum_list (map (\<lambda>n. n + 8) xs)"] by (simp add: comp_def)
  have "names_of (pvs ex_fresh) = names_of ex_pvs" by (simp add: ex_pv_def)
  then have "sorted_wrt (name_order.name_le (StrCompare ref_marte)) (names_of (pvs ex_fresh))"
    using ex_stream_inv by (simp add: stream_inv_def receiver_wf_def ex_receiver_def)
  then have "configured ref_marte ex_fresh" by (simp add: configured_def)
  from start_establishes_invariant [OF this r(1), of ex_dir] show ?thesis
    using r n by simp
qed

subsection \<open>Putting the changed variables\<close>

definition put_ready :: "marte \<Rightarrow> receiver \<Rightarrow> bool" where
  "put_ready L R \<longleftrightarrow> receiver_wf L R \<and> length (memory2_r R) = totalMemorySize_r R
     \<and> length (changeFlag2_r R) = length (pvs R)"

text \<open>The state after the first thread has taken over the memory and the flags.\<close>

definition taken_over :: "receiver \<Rightarrow> receiver" where
  "taken_over R = R\<lparr>memory2_r := memory_r R, changeFlag2_r := changeFlag_r R,
     changeFlag_r := replicate (length (pvs R)) 0,
     numberOfReceivedPVs := (if debug_r R > 0 then replicate (maxNumberOfThreads_r R) 0
       else numberOfReceivedPVs R)\<rparr>"

lemma taken_over_ready: "put_ready L R \<Longrightarrow> put_ready L (taken_over R)"
  by (simp add: put_ready_def taken_over_def receiver_wf_def)

context marte_lib
begin

lemma put_cycle_first:
  assumes "put_ready L R" and "init_range C 0 R = Inr (b, e)"
  shows "put_cycle L C now 0 R = Inr (put_loop C (taken_over R) [b..<e],
      (taken_over R)\<lparr>lastTickCounter_r := (lastTickCounter_r R)[0 := now]\<rparr>)"
proof -
  have len: "length (memory_r R) = totalMemorySize_r R" "length (changeFlag_r R) = numberOfVariables_r R"
      "length (memory2_r R) = totalMemorySize_r R" "length (changeFlag2_r R) = numberOfVariables_r R"
      "numberOfVariables_r R = length (pvs R)" "length (numberOfReceivedPVs R) = maxNumberOfThreads_r R"
    using assms(1) by (simp_all add: put_ready_def receiver_wf_def)
  have "Synchronise_r L (memory2_r R) (changeFlag2_r R) R = Inr (memory_r R, changeFlag_r R,
      (taken_over R)\<lparr>memory2_r := memory2_r R, changeFlag2_r := changeFlag2_r R\<rparr>)"
    using len by (simp add: Synchronise_r_def mem_copy_checked_Inr taken_over_def)
  then show ?thesis
    by (simp add: put_cycle_def assms(2)) (cases R; simp add: taken_over_def)
qed

lemma put_cycle_other:
  assumes "0 < t" and "init_range C t R = Inr (b, e)"
  shows "put_cycle L C now t R
    = Inr (put_loop C R [b..<e], R\<lparr>lastTickCounter_r := (lastTickCounter_r R)[t := now]\<rparr>)"
  using assms by (simp add: put_cycle_def)

end

lemma init_range_tick [simp]:
  "init_range C t (R\<lparr>lastTickCounter_r := x\<rparr>) = init_range C t R"
  "init_range C t (taken_over R) = init_range C t R"
  "put_ready L (R\<lparr>lastTickCounter_r := x\<rparr>) = put_ready L R"
  by (simp_all add: init_range_def taken_over_def put_ready_def receiver_wf_def)

lemma put_cycle_alone:
  assumes "marte_lib L" and "put_ready L R" and "numberOfInitThreads_r R = 1" and "cs_context C 0"
  shows "\<exists>calls R'. put_cycle L C now 0 R = Inr (calls, R')
    \<and> map put_index calls = filter (\<lambda>i. changeFlag_r R ! i = 1) [0..<length (pvs R)]
    \<and> (\<forall>c \<in> set calls. put_count c = numberOfElements_r (pvs R ! put_index c)
         \<and> take (totalSize_r (pvs R ! put_index c)) (put_data c) = slot R (put_index c) (memory_r R)
         \<and> take 8 (drop (totalSize_r (pvs R ! put_index c)) (put_data c))
           = take 8 (drop (offset_r (pvs R ! put_index c) + totalSize_r (pvs R ! put_index c)) (memory_r R)))
    \<and> changeFlag_r R' = replicate (length (pvs R)) 0 \<and> put_ready L R'"
proof -
  have n: "numberOfVariables_r R = length (pvs R)" "length (pvs R) < 4294967296"
    using assms(2) by (simp_all add: put_ready_def receiver_wf_def INDEX_NOT_FOUND_ID_def)
  have "init_range C 0 R = Inr (0, length (pvs R))"
    using n assms(3,4) by (simp add: init_range_def chunk_bounds_def u32_id u32_sub_def u32_def)
  note eq = marte_lib.put_cycle_first [OF assms(1,2) this, of now]
  show ?thesis
    using taken_over_ready [OF assms(2)]
    unfolding eq by (auto simp: put_loop_def put_pv_def taken_over_def comp_def slot_def
        Let_def add.commute)
qed

text \<open>
  (C19) With one writing thread, a turn puts every variable whose flag is set and no other, once
  and in order, with its number of elements and, from the memory at the moment the flags are
  taken, its value followed by its time stamp; all flags are cleared.
\<close>

theorem one_thread_puts_the_changes:
  assumes "marte_lib L" and "put_ready L R" and "numberOfInitThreads_r R = 1" and "cs_context C 0"
  shows "\<exists>calls R'. put_cycle L C now 0 R = Inr (calls, R')
    \<and> map put_index calls = filter (\<lambda>i. changeFlag_r R ! i = 1) [0..<length (pvs R)]
    \<and> (\<forall>c \<in> set calls. put_count c = numberOfElements_r (pvs R ! put_index c)
         \<and> take (totalSize_r (pvs R ! put_index c)) (put_data c) = slot R (put_index c) (memory_r R)
         \<and> take 8 (drop (totalSize_r (pvs R ! put_index c)) (put_data c))
           = take 8 (drop (offset_r (pvs R ! put_index c) + totalSize_r (pvs R ! put_index c)) (memory_r R)))
    \<and> changeFlag_r R' = replicate (length (pvs R)) 0 \<and> put_ready L R'"
  by (rule put_cycle_alone [OF assms])

theorem one_thread_puts_the_changes_witness:
  "\<exists>call R'. put_cycle ref_marte ex_server 9 0 (ex_receiver\<lparr>changeFlag_r := [0, 1]\<rparr>) = Inr ([call], R')
    \<and> put_index call = 1 \<and> changeFlag_r R' = [0, 0]"
proof -
  let ?R = "ex_receiver\<lparr>changeFlag_r := [0, 1]\<rparr>"
  have f: "changeFlag_r ?R = [0, 1]" "pvs ?R = ex_pvs" "numberOfInitThreads_r ?R = 1" "cs_context ex_server 0"
    by (simp_all add: ex_receiver_def ex_server_def)
  have "put_ready ref_marte ?R"
    using ex_stream_inv by (simp add: stream_inv_def receiver_wf_def put_ready_def ex_receiver_def)
  from one_thread_puts_the_changes [OF ref.marte_lib_axioms this f(3,4), of 9] show ?thesis
    unfolding f by (auto simp: upt_rec map_eq_Cons_conv)
qed

text \<open>
  (C31) With more than one writing thread, a thread that is behind the first one by two turns puts
  nothing, whatever had changed: each turn of the first thread replaces the flags it shares with
  the others, and by the second turn they are clear.
\<close>

theorem late_thread_loses_changes:
  assumes "marte_lib L" and "put_ready L R" and "0 < t"
    and "t < numberOfInitThreads_r R" and "numberOfInitThreads_r R < 4294967296"
  shows "\<exists>calls1 calls2 R1 R2 R3. put_cycle L C now 0 R = Inr (calls1, R1)
    \<and> put_cycle L C now' 0 R1 = Inr (calls2, R2) \<and> put_cycle L C now'' t R2 = Inr ([], R3)
    \<and> changeFlag_r R3 = replicate (length (pvs R)) 0"
proof -
  obtain b e where r0: "init_range C 0 R = Inr (b, e)"
    using assms(4) by (cases "init_range C 0 R") (auto simp: init_range_def split: if_splits)
  obtain b' e' where rt: "init_range C t R = Inr (b', e')"
    using assms(4) by (cases "init_range C t R") (auto simp: init_range_def split: if_splits)
  have "numberOfVariables_r R < 4294967296"
    using assms(2) by (simp add: put_ready_def receiver_wf_def INDEX_NOT_FOUND_ID_def)
  then have "e' \<le> numberOfVariables_r R"
    using rt chunk_bounds_eq [OF _ assms(4,5)] chunk_mult_le [OF assms(4), of "numberOfVariables_r R"]
    by (auto simp: init_range_def split: if_splits)
  define R1 where "R1 = (taken_over R)\<lparr>lastTickCounter_r := (lastTickCounter_r R)[0 := now]\<rparr>"
  define R2 where "R2 = (taken_over R1)\<lparr>lastTickCounter_r := (lastTickCounter_r R1)[0 := now']\<rparr>"
  have "put_ready L R1" unfolding R1_def using taken_over_ready [OF assms(2)] by simp
  have 1: "put_cycle L C now 0 R = Inr (put_loop C (taken_over R) [b..<e], R1)"
    unfolding R1_def by (rule marte_lib.put_cycle_first [OF assms(1,2) r0])
  have 2: "put_cycle L C now' 0 R1 = Inr (put_loop C (taken_over R1) [b..<e], R2)"
    unfolding R2_def by (rule marte_lib.put_cycle_first [OF assms(1) \<open>put_ready L R1\<close>])
      (simp add: R1_def r0)
  have "init_range C t R2 = Inr (b', e')" by (simp add: R1_def R2_def rt)
  note 3 = marte_lib.put_cycle_other [OF assms(1,3) this, of now'']
  have f: "changeFlag2_r R2 = replicate (length (pvs R)) 0" "changeFlag_r R2 = replicate (length (pvs R)) 0"
    by (simp_all add: R2_def R1_def taken_over_def)
  have "put_loop C R2 [b'..<e'] = []"
    using f(1) \<open>e' \<le> _\<close> assms(2)
    by (auto simp: put_loop_def filter_empty_conv put_ready_def receiver_wf_def)
  then show ?thesis using 1 2 3 f(2) by auto
qed

theorem late_thread_loses_changes_witness:
  "\<exists>calls1 calls2 R1 R2 R3.
    put_cycle ref_marte ex_server 7 0 (ex_receiver\<lparr>numberOfInitThreads_r := 2, changeFlag_r := [0, 1]\<rparr>) = Inr (calls1, R1)
    \<and> put_cycle ref_marte ex_server 8 0 R1 = Inr (calls2, R2)
    \<and> put_cycle ref_marte ex_server 9 1 R2 = Inr ([], R3) \<and> changeFlag_r R3 = [0, 0]"
proof -
  let ?R = "ex_receiver\<lparr>numberOfInitThreads_r := 2, changeFlag_r := [0, 1]\<rparr>"
  have "put_ready ref_marte ?R"
    using ex_stream_inv by (simp add: stream_inv_def receiver_wf_def put_ready_def ex_receiver_def)
  moreover have "pvs ?R = ex_pvs" by (simp add: ex_receiver_def)
  ultimately show ?thesis
    using late_thread_loses_changes [OF ref.marte_lib_axioms, of ?R 1 ex_server 7 8 9] by simp
qed

end
