(* ===== verification/Diode.thy ===== *)
theory Diode
  imports SenderWireTheorems ReceiverLife
begin

section \<open>From the sender to the receiver\<close>

text \<open>
  The composition of the two sides: what a sending thread writes on the wire is what the
  receiver's parser takes apart, so that values and time stamps of the sender's memory arrive
  in the slots of the same variables of the receiver.
\<close>

subsection \<open>Delivering several variables\<close>

text \<open>A complete value for the variable it is for.\<close>

definition whole_for :: "(nat \<Rightarrow> bytes) \<Rightarrow> receiver \<Rightarrow> frame \<Rightarrow> bool" where
  "whole_for dir R fr \<longleftrightarrow> fr_offset fr = 0 \<and>
     (\<forall>i < length (pvs R). pvName_r (pvs R ! i) = dir (fr_index fr) \<longrightarrow>
        length (fr_data fr) = totalSize_r (pvs R ! i))"

text \<open>What the receiver knows about a variable.\<close>

definition known :: "receiver \<Rightarrow> receiver \<Rightarrow> nat \<Rightarrow> bytes \<times> bytes \<times> bytes \<times> byte" where
  "known R R' j = (slot R j (memory_r R'), stamp R j (memory_r R'), slot R j (memoryPrec_r R'),
     changeFlag_r R' ! j)"

lemma deliver_pvs:
  assumes "marte_lib L" "stream_inv L dir R" "frame_for L dir R fr"
  shows "pvs (deliver L t R fr) = pvs R"
proof -
  obtain R1 i mp where "resolve_index L R (fr_index fr) (strip_field L (fr_name fr)) = Some (Inr (R1, i))"
      "R1 = R\<lparr>pvMapping := mp\<rparr>"
    by (rule marte_lib.resolve_frame [OF assms])
  then show ?thesis by (simp add: deliver_def store_frame_def Let_def)
qed

lemma deliver_keeps:
  assumes "marte_lib L" and inv: "stream_inv L dir R" and fr: "frame_for L dir R fr"
    and "distinct (names_of (pvs R))" and "whole_for dir R fr"
    and j: "j < length (pvs R)" "pvName_r (pvs R ! j) \<noteq> dir (fr_index fr)"
  shows "known R (deliver L t R fr) j = known R R j"
proof (cases "dir (fr_index fr) \<in> set (names_of (pvs R))")
  case True
  then obtain i where i: "i < length (pvs R)" "pvName_r (pvs R ! i) = dir (fr_index fr)"
    by (auto simp: in_set_conv_nth)
  then have ij: "i \<noteq> j" using j by auto
  have w: "fr_offset fr = 0" "length (fr_data fr) = totalSize_r (pvs R ! i)"
    using assms(5) i by (auto simp: whole_for_def)
  note d = deliver_effect [OF assms(1-4) i w refl, of t]
  have wf: "receiver_wf L R" using inv by (simp add: stream_inv_def)
  then have len: "length (memory_r R) = totalMemorySize_r R" "length (memoryPrec_r R) = totalMemorySize_r R"
    by (simp_all add: receiver_wf_def)
  show ?thesis
    using same_outside_slot [OF wf d(4) len(1) i(1) j(1) ij] same_outside_slot [OF wf d(5) len(2) i(1) j(1) ij]
      same_outside_stamp [OF wf d(4) len(1) i(1) j(1) ij] d(3) ij
    by (simp add: known_def)
next
  case False
  obtain R1 i mp where res: "resolve_index L R (fr_index fr) (strip_field L (fr_name fr)) = Some (Inr (R1, i))"
      "R1 = R\<lparr>pvMapping := mp\<rparr>"
      "if dir (fr_index fr) \<in> set (names_of (pvs R1))
      then i < length (pvs R1) \<and> pvName_r (pvs R1 ! i) = dir (fr_index fr) else i = INDEX_NOT_FOUND_ID"
    by (rule marte_lib.resolve_frame [OF assms(1) inv fr])
  then have "i = INDEX_NOT_FOUND_ID" using False by simp
  moreover have "numberOfVariables_r R < INDEX_NOT_FOUND_ID"
    using inv by (simp add: stream_inv_def receiver_wf_def)
  ultimately show ?thesis using res(1,2) by (simp add: deliver_def known_def)
qed

lemma known_cong: "pvs R = pvs R1 \<Longrightarrow> known R R' j = known R1 R' j"
  by (simp add: known_def slot_def stamp_def)

lemma deliver_step:
  assumes "marte_lib L" "stream_inv L dir R" "frame_for L dir R f"
  shows "stream_inv L dir (deliver L t R f)" and "pvs (deliver L t R f) = pvs R"
    and "\<forall>fr \<in> A. frame_for L dir R fr \<and> whole_for dir R fr \<Longrightarrow>
      \<forall>fr \<in> A. frame_for L dir (deliver L t R f) fr \<and> whole_for dir (deliver L t R f) fr"
  using marte_lib.deliver_inv [OF assms] deliver_pvs [OF assms] by (simp_all add: whole_for_def)

text \<open>Each variable of a sequence with different names ends up with its own value.\<close>

lemma deliver_all_values:
  assumes "marte_lib L" and "stream_inv L dir R" and "distinct (names_of (pvs R))"
    and "\<forall>fr \<in> set frs. frame_for L dir R fr \<and> whole_for dir R fr"
    and "distinct (map (\<lambda>fr. dir (fr_index fr)) frs)" and "j < length (pvs R)"
  shows "pvs (deliver_all L t R frs) = pvs R"
    and "pvName_r (pvs R ! j) \<notin> dir ` fr_index ` set frs \<Longrightarrow>
      known R (deliver_all L t R frs) j = known R R j"
    and "fr \<in> set frs \<Longrightarrow> pvName_r (pvs R ! j) = dir (fr_index fr) \<Longrightarrow>
      \<exists>prec. known R (deliver_all L t R frs) j = (fr_data fr, fr_ts fr, prec,
        if slot R j (memoryPrec_r R) = fr_data fr then changeFlag_r R ! j else 1)"
  using assms
proof (induction frs arbitrary: R)
  case Nil
  { case 1 then show ?case by simp }
  { case 2 then show ?case by simp }
  { case 3 then show ?case by simp }
next
  case (Cons f frs)
  {
    case 1
    let ?R1 = "deliver L t R f"
    from 1 have "frame_for L dir R f" by simp
    note s = deliver_step [OF 1(1,2) this, where t = t]
    have "\<forall>fr\<in>set frs. frame_for L dir ?R1 fr \<and> whole_for dir ?R1 fr" using 1 by (intro s(3)) simp
    then have "pvs (deliver_all L t ?R1 frs) = pvs ?R1"
      using 1 by (intro Cons.IH(1) [OF _ s(1)]) (simp_all add: s(2) image_image)
    then show ?case using s by simp
  next
    case 2
    let ?R1 = "deliver L t R f"
    from 2 have "frame_for L dir R f" by simp
    note s = deliver_step [OF 2(2,3) this, where t = t]
    have "\<forall>fr\<in>set frs. frame_for L dir ?R1 fr \<and> whole_for dir ?R1 fr" using 2 by (intro s(3)) simp
    then have "known ?R1 (deliver_all L t ?R1 frs) j = known ?R1 ?R1 j"
      using 2 by (intro Cons.IH(2) [OF _ _ s(1)]) (simp_all add: s(2) image_image)
    then show ?case
      using 2 deliver_keeps [OF 2(2,3), of f j t] by (simp add: known_cong [OF s(2)])
  next
    case 3
    let ?R1 = "deliver L t R f"
    from 3 have "frame_for L dir R f" by simp
    note s = deliver_step [OF 3(3,4) this, where t = t]
    have all: "\<forall>fr\<in>set frs. frame_for L dir ?R1 fr \<and> whole_for dir ?R1 fr" using 3 by (intro s(3)) simp
    show ?case
    proof (cases "fr = f")
      case True
      then have kn: "known ?R1 (deliver_all L t ?R1 frs) j = known ?R1 ?R1 j"
        using 3 all by (intro Cons.IH(2) [OF _ _ s(1)]) (simp_all add: s(2) image_image)
      have w: "fr_offset f = 0" "length (fr_data f) = totalSize_r (pvs R ! j)"
        using 3 True by (auto simp: whole_for_def)
      note d = deliver_effect [OF 3(3,4) _ 3(5,8) _ w refl, of t]
      moreover have "slot R j (memory_r ?R1) = fr_data f" "stamp R j (memory_r ?R1) = fr_ts f"
          "changeFlag_r ?R1 = (if slot R j (memoryPrec_r R) = fr_data f then changeFlag_r R
                         else (changeFlag_r R)[j := 1])"
        using d(1-3) 3 True by auto
      moreover have "length (changeFlag_r R) = length (pvs R)"
        using 3 by (simp add: stream_inv_def receiver_wf_def)
      ultimately show ?thesis
        using True 3(8) kn by (simp add: known_cong [OF s(2)]) (simp add: known_def)
    next
      case False
      then have m: "fr \<in> set frs" using 3 by simp
      then have n: "pvName_r (pvs R ! j) \<noteq> dir (fr_index f)"
        using 3 by (auto simp: image_iff)
      obtain prec where "known ?R1 (deliver_all L t ?R1 frs) j = (fr_data fr, fr_ts fr, prec,
          if slot ?R1 j (memoryPrec_r ?R1) = fr_data fr then changeFlag_r ?R1 ! j else 1)"
        using 3 all Cons.IH(3) [OF m _ 3(3) s(1)] by (auto simp: s(2))
      moreover have "known R ?R1 j = known R R j"
        using 3 n by (intro deliver_keeps) auto
      ultimately show ?thesis
        by (auto simp: known_cong [OF s(2)]) (auto simp: known_def slot_def s(2))
    qed
  }
qed

subsection \<open>From memory to memory\<close>

text \<open>The frame of a variable, its value and its time stamp in the memory of the sender.\<close>

abbreviation frame_of :: "subscriber \<Rightarrow> sender \<Rightarrow> nat \<Rightarrow> frame" where
  "frame_of S P x \<equiv> var_frame (pvDescriptor_e S) (memoryThreads_s P) 0 (value_bytes (pvDescriptor_e S ! x)) x"

definition sent_value :: "subscriber \<Rightarrow> sender \<Rightarrow> nat \<Rightarrow> bytes" where
  "sent_value S P x = take (value_bytes (pvDescriptor_e S ! x))
     (drop (offset_d (pvDescriptor_e S ! x)) (memoryThreads_s P))"

definition sent_stamp :: "subscriber \<Rightarrow> sender \<Rightarrow> nat \<Rightarrow> bytes" where
  "sent_stamp S P x = take 8 (drop (offset_d (pvDescriptor_e S ! x) + value_bytes (pvDescriptor_e S ! x))
     (memoryThreads_s P))"

text \<open>The variables of the slice suit the receiver: same sizes, and different names.\<close>

definition suits :: "marte \<Rightarrow> (nat \<Rightarrow> bytes) \<Rightarrow> subscriber \<Rightarrow> sender \<Rightarrow> nat list \<Rightarrow> receiver \<Rightarrow> bool" where
  "suits L dir S P xs R \<longleftrightarrow> distinct (map dir xs) \<and> distinct (names_of (pvs R))
     \<and> (\<forall>x \<in> set xs. sends (pvDescriptor_e S ! x) \<longrightarrow>
          frame_for L dir R (frame_of S P x) \<and> whole_for dir R (frame_of S P x))"

definition sent_frames :: "subscriber \<Rightarrow> sender \<Rightarrow> nat list \<Rightarrow> frame list" where
  "sent_frames S P xs = map (frame_of S P) (filter (\<lambda>x. sends (pvDescriptor_e S ! x)) xs)"

lemma slice_crosses:
  assumes "reliable_client K body sent pending" and "sending_ok S P" and "fits_whole S P"
    and "0 < slice_length t P" and "slice_length t P < 2147483648"
    and "marte_lib L" and "stream_inv L dir R" and "suits L dir S P (slice_vars t P) R"
  defines "frs \<equiv> sent_frames S P (slice_vars t P)"
  shows "\<exists>err P' k' more. SendVariables K S t P k = Some (Inr (err, P', k'))
    \<and> sent k' = sent k @ encode_all frs # more"
    and "concat cs = encode_all frs \<Longrightarrow> feed L u R [] cs = Some (Inr (deliver_all L u R frs, []))"
    and "x \<in> set (slice_vars t P) \<Longrightarrow> i < length (pvs R) \<Longrightarrow> sends (pvDescriptor_e S ! x) \<Longrightarrow>
      pvName_r (pvs R ! i) = dir x \<Longrightarrow>
      slot R i (memory_r (deliver_all L u R frs)) = sent_value S P x
      \<and> stamp R i (memory_r (deliver_all L u R frs)) = sent_stamp S P x
      \<and> (slot R i (memoryPrec_r R) \<noteq> sent_value S P x \<longrightarrow> changeFlag_r (deliver_all L u R frs) ! i = 1)"
    and "\<forall>fr \<in> set frs. frame_for L dir R fr \<and> whole_for dir R fr"
proof -
  let ?xs = "filter (\<lambda>x. sends (pvDescriptor_e S ! x)) (slice_vars t P)"
  have frs: "frs = map (frame_of S P) ?xs" by (simp add: frs_def sent_frames_def)
  have w: "whole_frames (pvDescriptor_e S) (memoryThreads_s P) (slice_vars t P) = frs"
    by (simp add: whole_frames_def frs)
  have ok: "0 < chunkSize_s P" "0 < numberOfVariables_s P" "numberOfVariables_s P < 2147483648"
      "length (indexListThreads_s P) = numberOfVariables_s P"
      "currentIdxThreads_s P < numberOfVariables_s P" "0 < numberOfPoolThreads_s P"
    using assms(2) by (simp_all add: sending_ok_def)
  have fit: "value_bytes (pvDescriptor_e S ! x) \<le> maxVarSize_s P
      \<and> offset_d (pvDescriptor_e S ! x) + value_bytes (pvDescriptor_e S ! x) + 8 \<le> length (memoryThreads_s P)"
    if "sends (pvDescriptor_e S ! x)" "x \<in> set (indexListThreads_s P)" for x
    using that assms(2,3) by (simp add: sending_ok_def fits_whole_def)
  obtain err P' k' where send: "SendVariables K S t P k = Some (Inr (err, P', k'))"
      "sent k' = sent k @ [encode_all frs] \<or> sent k' = sent k @ [encode_all frs, []]"
    using reliable_client.SendVariables_whole [OF assms(1) ok(1-3) fit ok(4-6) assms(4,5), of k]
    unfolding slice_vars_def [symmetric] w by blast
  then show "\<exists>err P' k' more. SendVariables K S t P k = Some (Inr (err, P', k'))
    \<and> sent k' = sent k @ encode_all frs # more" by auto
  have "distinct (map dir ?xs)" using assms(8) by (simp add: suits_def distinct_map_filter)
  moreover have "map (\<lambda>fr. dir (fr_index fr)) frs = map dir ?xs" by (simp add: var_frame_def comp_def frs)
  ultimately have di: "distinct (map (\<lambda>fr. dir (fr_index fr)) frs)" by (simp only:)
  show fr: "\<forall>fr \<in> set frs. frame_for L dir R fr \<and> whole_for dir R fr"
    using assms(8) by (auto simp: suits_def frs)
  have dn: "distinct (names_of (pvs R))" using assms(8) by (simp add: suits_def)
  show "feed L u R [] cs = Some (Inr (deliver_all L u R frs, []))" if "concat cs = encode_all frs"
    using marte_lib.feed_all [OF assms(6,7), of frs "[]" cs u] fr that by auto
  show "slot R i (memory_r (deliver_all L u R frs)) = sent_value S P x
      \<and> stamp R i (memory_r (deliver_all L u R frs)) = sent_stamp S P x
      \<and> (slot R i (memoryPrec_r R) \<noteq> sent_value S P x \<longrightarrow> changeFlag_r (deliver_all L u R frs) ! i = 1)"
    if "x \<in> set (slice_vars t P)" "i < length (pvs R)" "sends (pvDescriptor_e S ! x)"
      "pvName_r (pvs R ! i) = dir x"
  proof -
    have "frame_of S P x \<in> set frs" "pvName_r (pvs R ! i) = dir (fr_index (frame_of S P x))"
      using that by (auto simp: var_frame_def frs)
    from deliver_all_values(3) [OF assms(6,7) dn fr di that(2) this, of u] show ?thesis
      by (auto simp: known_def var_frame_def sent_value_def sent_stamp_def split: if_splits)
  qed
qed

text \<open>
  (C2) Whatever thread sends a slice over a reliable connection, and however the network cuts the
  body of its request, the receiver takes it apart without a fault; then every variable of the
  slice that the receiver has under the same name holds the value and the time stamp of the
  sender's memory, and its flag is raised if the value differs from the last one.
\<close>

theorem values_cross_the_diode:
  assumes "reliable_client K body sent pending" and "sending_ok S P" and "fits_whole S P"
    and "0 < slice_length t P" and "slice_length t P < 2147483648"
    and "marte_lib L" and "stream_inv L dir R" and "suits L dir S P (slice_vars t P) R"
  shows "\<exists>err P' k' b more. SendVariables K S t P k = Some (Inr (err, P', k'))
    \<and> sent k' = sent k @ b # more
    \<and> (\<forall>cs. concat cs = b \<longrightarrow> (\<exists>R'. feed L u R [] cs = Some (Inr (R', []))
        \<and> (\<forall>x \<in> set (slice_vars t P). \<forall>i < length (pvs R).
             sends (pvDescriptor_e S ! x) \<longrightarrow> pvName_r (pvs R ! i) = dir x \<longrightarrow>
             slot R i (memory_r R') = sent_value S P x \<and> stamp R i (memory_r R') = sent_stamp S P x
             \<and> (slot R i (memoryPrec_r R) \<noteq> sent_value S P x \<longrightarrow> changeFlag_r R' ! i = 1))))"
proof -
  let ?frs = "sent_frames S P (slice_vars t P)"
  note c = slice_crosses [OF assms]
  obtain err P' k' more where "SendVariables K S t P k = Some (Inr (err, P', k'))"
      "sent k' = sent k @ encode_all ?frs # more"
    using c(1) by blast
  moreover have "\<exists>R'. feed L u R [] cs = Some (Inr (R', []))
        \<and> (\<forall>x \<in> set (slice_vars t P). \<forall>i < length (pvs R).
             sends (pvDescriptor_e S ! x) \<longrightarrow> pvName_r (pvs R ! i) = dir x \<longrightarrow>
             slot R i (memory_r R') = sent_value S P x \<and> stamp R i (memory_r R') = sent_stamp S P x
             \<and> (slot R i (memoryPrec_r R) \<noteq> sent_value S P x \<longrightarrow> changeFlag_r R' ! i = 1))"
    if "concat cs = encode_all ?frs" for cs
    using c(2) [OF that] c(3) by (intro exI [of _ "deliver_all L u R ?frs"]) simp
  ultimately show ?thesis by blast
qed

definition ex_names_dir :: "nat \<Rightarrow> bytes" where
  "ex_names_dir k = (if k = 0 then [65] else [66])"

definition ex_full :: sender where
  "ex_full = ex_sending\<lparr>memoryThreads_s := map of_nat [1..<25]\<rparr>"

lemma ex_full_fields [simp]:
  "memoryThreads_s ex_full = map of_nat [1..<25]" "numberOfVariables_s ex_full = 2"
  "indexListThreads_s ex_full = [0, 1]" "currentIdxThreads_s ex_full = 0"
  "numberOfPoolThreads_s ex_full = 1" "numberOfChangedVariables_s ex_full = 2"
  by (simp_all add: ex_full_def ex_sending_def) (simp add: ex_sender_def PrioritySender_def)

lemma ex_full_ok: "sending_ok ex_running ex_full" "fits_whole ex_running ex_full"
  using ex_sending_ok by (simp_all add: sending_ok_def fits_whole_def ex_full_def ex_sending_def)

lemma ex_full_slice: "slice_length 0 ex_full = 2" "slice_vars 0 ex_full = [0, 1]"
  by (simp_all add: slice_vars_def slice_length_def u32_sub_def u32_def upt_rec)

lemma ex_frames:
  "var_frame [ex_placed 0, ex_placed (Suc 0)] (map of_nat [Suc 0..<25]) 0 4 0 =
     \<lparr>fr_name = [65], fr_index = 0, fr_typeId = 0, fr_offset = 0,
       fr_data = [1, 2, 3, 4], fr_ts = [5, 6, 7, 8, 9, 10, 11, 12]\<rparr>"
  "var_frame [ex_placed 0, ex_placed (Suc 0)] (map of_nat [Suc 0..<25]) 0 4 (Suc 0) =
     \<lparr>fr_name = [66], fr_index = 1, fr_typeId = 0, fr_offset = 0,
       fr_data = [13, 14, 15, 16], fr_ts = [17, 18, 19, 20, 21, 22, 23, 24]\<rparr>"
  by (simp_all add: var_frame_def take_map drop_map upt_rec)
    (simp_all add: ex_placed_def ex_desc_def)

lemma ex_suits: "suits ref_marte ex_names_dir ex_running ex_full [0, 1] ex_receiver"
proof -
  have R: "pvs ex_receiver = ex_pvs" "numberOfVariables_r ex_receiver = 2" "maxArraySize_r ex_receiver = 100"
    by (simp_all add: ex_receiver_def)
  have "frame_for ref_marte ex_names_dir ex_receiver (frame_of ex_running ex_full x)
      \<and> whole_for ex_names_dir ex_receiver (frame_of ex_running ex_full x)" if "x = 0 \<or> x = Suc 0" for x
    using that
    by (auto simp: whole_for_def frame_for_def frame_ok_def ex_frames R ex_names_dir_def ex_pv_def
        strip_field_def ref_token_def quote_char_def PV_NAME_MAX_SIZE_REC_def less_Suc_eq)
  then show ?thesis
    unfolding suits_def R by (simp add: ex_pv_def ex_names_dir_def)
qed

theorem values_cross_the_diode_witness:
  "\<exists>err P' k' b R'. SendVariables ref_client ex_running 0 ex_full ex_conn = Some (Inr (err, P', k'))
    \<and> hd (rc_sent k') = b \<and> feed ref_marte 0 ex_receiver [] [take 9 b, drop 9 b] = Some (Inr (R', []))
    \<and> slot ex_receiver 1 (memory_r R') = [13, 14, 15, 16] \<and> changeFlag_r R' ! 1 = 1"
proof -
  have inv: "stream_inv ref_marte ex_names_dir ex_receiver"
    using ex_stream_inv by (simp add: stream_inv_def mapping_ok_def ex_receiver_def)
  have l: "0 < slice_length 0 ex_full" "slice_length 0 ex_full < 2147483648"
    by (simp_all add: ex_full_slice)
  have su: "suits ref_marte ex_names_dir ex_running ex_full (slice_vars 0 ex_full) ex_receiver"
    using ex_suits by (simp add: ex_full_slice)
  have v: "sent_value ex_running ex_full 1 = [13, 14, 15, 16]"
    by (simp add: sent_value_def take_map drop_map upt_rec)
  have "slot ex_receiver 1 (memoryPrec_r ex_receiver) = replicate 4 0"
    by (simp add: slot_def ex_receiver_def ex_pv_def)
  also have "replicate 4 (0 :: byte) = [0, 0, 0, 0]" by (simp add: numeral_eq_Suc)
  finally have p: "slot ex_receiver 1 (memoryPrec_r ex_receiver) \<noteq> [13, 14, 15, 16]" by simp
  have q: "pvName_r (pvs ex_receiver ! 1) = ex_names_dir 1" "1 < length (pvs ex_receiver)"
    by (simp_all add: ex_receiver_def ex_pv_def ex_names_dir_def)
  have r: "sends (pvDescriptor_e ex_running ! 1)"
    by (simp add: sends_def) (simp add: ex_placed_def)
  obtain err P' k' b more where s: "SendVariables ref_client ex_running 0 ex_full ex_conn = Some (Inr (err, P', k'))"
      "rc_sent k' = rc_sent ex_conn @ b # more"
    and f: "\<And>cs. concat cs = b \<Longrightarrow> \<exists>R'. feed ref_marte 0 ex_receiver [] cs = Some (Inr (R', []))
        \<and> (\<forall>x \<in> set (slice_vars 0 ex_full). \<forall>i < length (pvs ex_receiver).
             sends (pvDescriptor_e ex_running ! x) \<longrightarrow> pvName_r (pvs ex_receiver ! i) = ex_names_dir x \<longrightarrow>
             slot ex_receiver i (memory_r R') = sent_value ex_running ex_full x
             \<and> stamp ex_receiver i (memory_r R') = sent_stamp ex_running ex_full x
             \<and> (slot ex_receiver i (memoryPrec_r ex_receiver) \<noteq> sent_value ex_running ex_full x
                 \<longrightarrow> changeFlag_r R' ! i = 1))"
    using values_cross_the_diode [OF ref_conn.reliable_client_axioms ex_full_ok l ref.marte_lib_axioms
        inv su, of ex_conn 0] by blast
  obtain R' where R': "feed ref_marte 0 ex_receiver [] [take 9 b, drop 9 b] = Some (Inr (R', []))"
      "slot ex_receiver 1 (memory_r R') = sent_value ex_running ex_full 1" "changeFlag_r R' ! 1 = 1"
    using f [of "[take 9 b, drop 9 b]"] p q r v ex_full_slice(2) by auto
  have "hd (rc_sent k') = b" using s(2) by (simp add: ex_conn_def)
  then show ?thesis
    using s(1) R' unfolding v by (intro exI conjI)
qed

end
