(* ===== verification/EpicsPatch.thy ===== *)
theory EpicsPatch
  imports Diode_Base
begin

section \<open>The patched EPICS library\<close>

text \<open>
  The repository replaces files of the EPICS base so that a put can carry a time stamp: a
  type with the bit \<open>0x8000\<close> says that the eight bytes of a time stamp follow the value.
  Modelled are the path of a put through the client (\<open>ca_array_put\<close> of oldChannelNotify.cpp,
  \<open>nciu::write\<close>, \<open>tcpiiu::writeRequest\<close>, and the message built by comQueSend.cpp), the
  server's \<open>write_action\<close> of camessage.c, and the processing of time stamps and alarms of
  recGbl.c. The files are compiled with \<open>FERRO_TS_PATCH\<close>.

  What these files take from the rest of the EPICS base is the record \<open>ca_proto\<close>: the test for
  an invalid type, the sizes of the types, the alignment of messages and the constants.
  A message is the sequence of the items that are pushed into the send queue; the buffers of
  the queue (\<open>comBuf\<close>), which convert numbers to network order, are not part of the repository.
\<close>

record ca_proto =
  INVALID_DB_REQ :: "nat \<Rightarrow> bool"
  dbr_size :: "nat \<Rightarrow> nat"
  dbr_value_size :: "nat \<Rightarrow> nat"
  dbr_size_n :: "nat \<Rightarrow> nat \<Rightarrow> nat"
  CA_MESSAGE_ALIGN :: "nat \<Rightarrow> nat"
  DBR_STRING :: nat
  MAX_TCP :: nat
  sizeof_caHdr :: nat

text \<open>The exceptions of \<open>cacChannel\<close>, and undefined behaviour.\<close>

datatype ca_exc =
    Bad_Type | Bad_String | Out_Of_Range | No_Write_Access | Not_Connected | No_Read_Access
  | Bad_Priority | Bad_Event_Selection | Unsupported_By_Service | Request_Timed_Out | No_Memory
  | Body_Too_Small | Other_Exception | Undefined fault

definition MAX_STRING_LEN :: nat where "MAX_STRING_LEN = 40" \<comment> \<open>\<open>MAX_STRING_SIZE\<close>\<close>

unbundle bit_operations_syntax

definition ts_flag :: "nat \<Rightarrow> bool" where
  "ts_flag dataType \<longleftrightarrow> dataType AND 0x8000 \<noteq> 0"

text \<open>\<open>dataType &= ~(0x8000u)\<close> on an \<open>unsigned\<close>.\<close>

definition drop_flag :: "nat \<Rightarrow> nat" where
  "drop_flag dataType = dataType AND 0xFFFF7FFF"


definition u16 :: "nat \<Rightarrow> nat" where
  "u16 n = n mod 65536"

subsection \<open>comQueSend: copying values\<close>

datatype elem_kind = K_string | K_short | K_float | K_char | K_long | K_double | K_invalid

fun kind_size :: "elem_kind \<Rightarrow> nat" where
  "kind_size K_string = MAX_STRING_LEN"
| "kind_size K_short = 2"
| "kind_size K_float = 4"
| "kind_size K_char = 1"
| "kind_size K_long = 4"
| "kind_size K_double = 8"
| "kind_size K_invalid = 0"

text \<open>What is pushed: numbers of the header, elements of a kind (in host order), raw bytes.\<close>

datatype push_item = Push16 nat | Push32 nat | PushElems elem_kind bytes | PushBytes bytes

fun item_length :: "push_item \<Rightarrow> nat" where
  "item_length (Push16 n) = 2"
| "item_length (Push32 n) = 4"
| "item_length (PushElems k bs) = length bs"
| "item_length (PushBytes bs) = length bs"

definition dbrCopyScalar :: "elem_kind list" where
  "dbrCopyScalar =
     [K_string, K_short, K_float, K_short, K_char, K_long, K_double,
      K_invalid, K_invalid, K_invalid, K_invalid, K_invalid, K_invalid,
      K_invalid, K_invalid, K_invalid, K_invalid, K_invalid, K_invalid, K_invalid, K_invalid,
      K_invalid, K_invalid, K_invalid, K_invalid, K_invalid, K_invalid, K_invalid,
      K_invalid, K_invalid, K_invalid, K_invalid, K_invalid, K_invalid, K_invalid,
      K_short, K_short, K_invalid, K_invalid]"

definition dbrCopyVector :: "elem_kind list" where
  "dbrCopyVector =
     [K_string, K_short, K_float, K_short, K_char, K_long, K_double,
      K_invalid, K_invalid, K_invalid, K_invalid, K_invalid, K_invalid,
      K_invalid, K_invalid, K_invalid, K_invalid, K_invalid, K_invalid, K_invalid, K_invalid,
      K_invalid, K_invalid, K_invalid, K_invalid, K_invalid, K_invalid, K_invalid,
      K_invalid, K_invalid, K_invalid, K_invalid, K_invalid, K_invalid, K_invalid,
      K_short, K_short, K_invalid, K_invalid]"

definition comQueSendCopyDispatchSize :: nat where
  "comQueSendCopyDispatchSize = 39"

text \<open>The memory behind \<open>pPayload\<close>, read within its bounds.\<close>

definition payload_read :: "bytes \<Rightarrow> nat \<Rightarrow> nat \<Rightarrow> ca_exc + bytes" where
  "payload_read pPayload off n =
     (if off + n \<le> length pPayload then Inr (take n (drop off pPayload))
      else Inl (Undefined Out_Of_Bounds))"

text \<open>The functions \<open>copy_dbr_*\<close>, for one element and for several.\<close>

definition copy_scalar :: "elem_kind \<Rightarrow> bytes \<Rightarrow> ca_exc + push_item" where
  "copy_scalar k pValue =
     (if k = K_invalid then Inl Bad_Type
      else case payload_read pValue 0 (kind_size k) of
             Inl e \<Rightarrow> Inl e | Inr b \<Rightarrow> Inr (PushElems k b))"

definition copy_vector :: "elem_kind \<Rightarrow> bytes \<Rightarrow> nat \<Rightarrow> ca_exc + push_item" where
  "copy_vector k pValue nElem =
     (if k = K_invalid then Inl Bad_Type
      else case payload_read pValue 0 (nElem * kind_size k) of
             Inl e \<Rightarrow> Inl e | Inr b \<Rightarrow> Inr (PushElems k b))"

subsection \<open>comQueSend: building a message\<close>

definition insertRequestHeader ::
  "nat \<Rightarrow> nat \<Rightarrow> nat \<Rightarrow> nat \<Rightarrow> nat \<Rightarrow> nat \<Rightarrow> bool \<Rightarrow> ca_exc + push_item list" where
  "insertRequestHeader request payloadSize dataType nElem cid requestDependent v49Ok =
     (let payloadSize = (if ts_flag dataType then u32 (payloadSize + 8) else payloadSize);
          dataType = drop_flag dataType
      in if payloadSize < 0xffff \<and> nElem < 0xffff then
           Inr [Push16 request, Push16 (u16 payloadSize), Push16 dataType, Push16 (u16 nElem),
                Push32 cid, Push32 requestDependent]
         else if v49Ok then
           Inr [Push16 request, Push16 0xffff, Push16 dataType, Push16 0, Push32 cid,
                Push32 requestDependent, Push32 payloadSize, Push32 nElem]
         else Inl Out_Of_Range)"

text \<open>
  The value without the padding: its size, its aligned size, and what is pushed for it.
  \<open>strlen\<close> needs the end of the string within the payload.
\<close>

definition value_items ::
  "ca_proto \<Rightarrow> nat \<Rightarrow> nat \<Rightarrow> nat \<Rightarrow> nat \<Rightarrow> nat \<Rightarrow> nat \<Rightarrow> bytes \<Rightarrow> bool
     \<Rightarrow> ca_exc + nat \<times> nat \<times> push_item list" where
  "value_items Pr request dataTypeOrig dataType nElem cid requestDependent pPayload v49Ok =
     (let header = (\<lambda>payloadSize. insertRequestHeader request payloadSize (u16 dataTypeOrig)
            (u32 nElem) cid requestDependent v49Ok)
      in if nElem = 1 then
           (if dataType = DBR_STRING Pr then
              (if 0 \<notin> set pPayload then Inl (Undefined Out_Of_Bounds)
               else
                 (let size = length (c_str pPayload) + 1
                  in if size > MAX_STRING_LEN then Inl Out_Of_Range
                     else case header (CA_MESSAGE_ALIGN Pr size) of
                            Inl e \<Rightarrow> Inl e
                          | Inr h \<Rightarrow> Inr (size, CA_MESSAGE_ALIGN Pr size,
                                h @ [PushBytes (take size pPayload)])))
            else
              (let size = dbr_size Pr dataType
               in case header (CA_MESSAGE_ALIGN Pr size) of
                    Inl e \<Rightarrow> Inl e
                  | Inr h \<Rightarrow>
                      (case copy_scalar (dbrCopyScalar ! dataType) pPayload of
                         Inl e \<Rightarrow> Inl e
                       | Inr it \<Rightarrow> Inr (size, CA_MESSAGE_ALIGN Pr size, h @ [it]))))
         else
           (let maxBytes = (if v49Ok then 0xffffffff else MAX_TCP Pr - sizeof_caHdr Pr);
                maxElem = (maxBytes - 8 - dbr_size Pr dataType) div dbr_value_size Pr dataType
            in if nElem \<ge> maxElem then Inl Out_Of_Range
               else
                 (let size = u32 (dbr_size_n Pr dataType nElem)
                  in case header (CA_MESSAGE_ALIGN Pr size) of
                       Inl e \<Rightarrow> Inl e
                     | Inr h \<Rightarrow>
                         (case copy_vector (dbrCopyVector ! dataType) pPayload nElem of
                            Inl e \<Rightarrow> Inl e
                          | Inr it \<Rightarrow> Inr (size, CA_MESSAGE_ALIGN Pr size, h @ [it])))))"

definition insertRequestWithPayLoad ::
  "ca_proto \<Rightarrow> nat \<Rightarrow> nat \<Rightarrow> nat \<Rightarrow> nat \<Rightarrow> nat \<Rightarrow> bytes \<Rightarrow> bool \<Rightarrow> ca_exc + push_item list" where
  "insertRequestWithPayLoad Pr request dataTypeOrig nElem cid requestDependent pPayload v49Ok =
     (let dataType = drop_flag dataTypeOrig in
      if INVALID_DB_REQ Pr dataType then Inl Bad_Type
      else if dataType \<ge> comQueSendCopyDispatchSize then Inl Bad_Type
      else case value_items Pr request dataTypeOrig dataType nElem cid requestDependent pPayload v49Ok of
             Inl e \<Rightarrow> Inl e
           | Inr (sz, payloadSize, items) \<Rightarrow>
               (case (if ts_flag dataTypeOrig then
                        (case payload_read pPayload payloadSize 8 of
                           Inl e \<Rightarrow> Inl e
                         | Inr ts \<Rightarrow> Inr (sz + 8, payloadSize + 8, items @ [PushElems K_char ts]))
                      else Inr (sz, payloadSize, items)) of
                  Inl e \<Rightarrow> Inl e
                | Inr (sz, payloadSize, items) \<Rightarrow>
                    (let padSize = u32_sub payloadSize sz
                     in if padSize > 8 then Inl (Undefined Out_Of_Bounds)
                        else Inr (if padSize > 0 then items @ [PushBytes (replicate padSize 0)]
                                  else items))))"

subsection \<open>The client's put\<close>

text \<open>\<open>nciu::stringVerify\<close>: each of the strings ends within its 40 characters.\<close>

fun stringVerify :: "bytes \<Rightarrow> nat \<Rightarrow> ca_exc + unit" where
  "stringVerify pStr 0 = Inr ()"
| "stringVerify pStr (Suc cnt) =
     (if 0 \<in> set (take MAX_STRING_LEN pStr) then stringVerify (drop MAX_STRING_LEN pStr) cnt
      else if length pStr < MAX_STRING_LEN then Inl (Undefined Out_Of_Bounds)
      else Inl Bad_String)"

text \<open>A channel of the client: \<open>nciu\<close> with its virtual circuit.\<close>

record nciu =
  connected_n :: bool
  writePermit_n :: bool
  count_n :: nat
  sid_n :: nat
  cid_n :: nat
  v41_n :: bool
  v49_n :: bool

definition CA_PROTO_WRITE :: nat where "CA_PROTO_WRITE = 4"
definition CA_PROTO_WRITE_NOTIFY :: nat where "CA_PROTO_WRITE_NOTIFY = 19"

definition writeRequest :: "ca_proto \<Rightarrow> nciu \<Rightarrow> nat \<Rightarrow> nat \<Rightarrow> bytes \<Rightarrow> ca_exc + push_item list" where
  "writeRequest Pr chan typeOrig nElem pValue =
     (if INVALID_DB_REQ Pr (drop_flag typeOrig) then Inl Bad_Type
      else insertRequestWithPayLoad Pr CA_PROTO_WRITE typeOrig nElem (sid_n chan) (cid_n chan)
             pValue (v49_n chan))"

text \<open>The request with a notification does not remove the flag; \<open>io\<close> is its identifier.\<close>

definition writeNotifyRequest ::
  "ca_proto \<Rightarrow> nciu \<Rightarrow> nat \<Rightarrow> nat \<Rightarrow> nat \<Rightarrow> bytes \<Rightarrow> (ca_exc + push_item list) option" where
  "writeNotifyRequest Pr chan io type nElem pValue =
     (if \<not> v41_n chan then None
      else Some (if INVALID_DB_REQ Pr type then Inl Bad_Type
        else insertRequestWithPayLoad Pr CA_PROTO_WRITE_NOTIFY type nElem (sid_n chan) io
               pValue (v49_n chan)))"

text \<open>The checks that both versions of \<open>nciu::write\<close> make.\<close>

definition write_checks :: "ca_proto \<Rightarrow> nciu \<Rightarrow> nat \<Rightarrow> nat \<Rightarrow> bytes \<Rightarrow> ca_exc + unit" where
  "write_checks Pr chan type countIn pValue =
     (if \<not> connected_n chan then Inl Not_Connected
      else if \<not> writePermit_n chan then Inl No_Write_Access
      else if countIn > count_n chan \<or> countIn = 0 then Inl Out_Of_Range
      else if type = DBR_STRING Pr then stringVerify pValue countIn
      else Inr ())"

definition nciu_write :: "ca_proto \<Rightarrow> nciu \<Rightarrow> nat \<Rightarrow> nat \<Rightarrow> bytes \<Rightarrow> ca_exc + push_item list" where
  "nciu_write Pr chan type countIn pValue =
     (case write_checks Pr chan type countIn pValue of
        Inl e \<Rightarrow> Inl e
      | Inr _ \<Rightarrow> writeRequest Pr chan type countIn pValue)"

definition nciu_write_notify ::
  "ca_proto \<Rightarrow> nciu \<Rightarrow> nat \<Rightarrow> nat \<Rightarrow> nat \<Rightarrow> bytes \<Rightarrow> (ca_exc + push_item list) option" where
  "nciu_write_notify Pr chan io typeOrig countIn pValue =
     (case write_checks Pr chan (drop_flag typeOrig) countIn pValue of
        Inl e \<Rightarrow> Some (Inl e)
      | Inr _ \<Rightarrow> writeNotifyRequest Pr chan io typeOrig countIn pValue)"

datatype ca_status =
    ECA_NORMAL | ECA_BADSTR | ECA_BADTYPE | ECA_BADCOUNT | ECA_NOWTACCESS | ECA_DISCONN
  | ECA_UNAVAILINSERV | ECA_PUTFAIL | ECA_INTERNAL | ECA_TOLARGE | ECA_NORDACCESS
  | ECA_GETFAIL | ECA_BADFUNCPTR | ECA_BADMASK | ECA_TIMEOUT | ECA_ALLOCMEM

text \<open>The handlers of the exceptions; \<open>None\<close> stands for undefined behaviour.\<close>

fun status_of :: "ca_exc \<Rightarrow> ca_status option" where
  "status_of Bad_String = Some ECA_BADSTR"
| "status_of Bad_Type = Some ECA_BADTYPE"
| "status_of Out_Of_Range = Some ECA_BADCOUNT"
| "status_of No_Write_Access = Some ECA_NOWTACCESS"
| "status_of Not_Connected = Some ECA_DISCONN"
| "status_of No_Read_Access = Some ECA_PUTFAIL"
| "status_of Bad_Priority = Some ECA_PUTFAIL"
| "status_of Bad_Event_Selection = Some ECA_PUTFAIL"
| "status_of Unsupported_By_Service = Some ECA_UNAVAILINSERV"
| "status_of Request_Timed_Out = Some ECA_TIMEOUT"
| "status_of No_Memory = Some ECA_ALLOCMEM"
| "status_of Body_Too_Small = Some ECA_PUTFAIL"
| "status_of Other_Exception = Some ECA_PUTFAIL"
| "status_of (Undefined f) = None"

text \<open>\<open>ca_array_put\<close>: the type is a \<open>long\<close>; what is sent goes with the status.\<close>

unbundle bit_operations_syntax

definition ca_array_put ::
  "ca_proto \<Rightarrow> nciu \<Rightarrow> int \<Rightarrow> nat \<Rightarrow> bytes \<Rightarrow> (ca_status \<times> push_item list) option" where
  "ca_array_put Pr chan origtype cnt pValue =
     (if origtype AND 0xFFFF7FFF < 0 then Some (ECA_BADTYPE, [])
      else case nciu_write Pr chan (nat (origtype mod 4294967296)) cnt pValue of
             Inl e \<Rightarrow> map_option (\<lambda>s. (s, [])) (status_of e)
           | Inr items \<Rightarrow> Some (ECA_NORMAL, items))"


text \<open>
  \<open>ca_array_put_callback\<close> is not changed; \<open>pfunc\<close> says whether a callback is given. A missing
  request service is an exception too.
\<close>

definition ca_array_put_callback ::
  "ca_proto \<Rightarrow> nciu \<Rightarrow> nat \<Rightarrow> int \<Rightarrow> nat \<Rightarrow> bytes \<Rightarrow> bool \<Rightarrow> (ca_status \<times> push_item list) option" where
  "ca_array_put_callback Pr chan io type cnt pValue pfunc =
     (if type < 0 then Some (ECA_BADTYPE, [])
      else if \<not> pfunc then Some (ECA_BADFUNCPTR, [])
      else case nciu_write_notify Pr chan io (nat (type mod 4294967296)) cnt pValue of
             None \<Rightarrow> Some (ECA_UNAVAILINSERV, [])
           | Some (Inl e) \<Rightarrow> map_option (\<lambda>s. (s, [])) (status_of e)
           | Some (Inr items) \<Rightarrow> Some (ECA_NORMAL, items))"

subsection \<open>The server's write\<close>

record ca_header =
  m_dataType :: nat
  m_count :: nat
  m_postsize :: nat

text \<open>
  What \<open>write_action\<close> meets: whether the channel exists, may be written, the version of the
  client, the conversion of the payload to host order, and the outcome of \<open>dbChannel_put\<close>.
\<close>

record write_env =
  chan_found :: bool
  rsrvCheckPut :: bool
  v41_client :: bool
  caNetConvert :: "nat \<Rightarrow> nat \<Rightarrow> bytes \<Rightarrow> ca_status \<times> bytes"
  dbChannel_put_ok :: bool

datatype rsrv_result = RSRV_OK | RSRV_ERROR

text \<open>
  The result, the header after the call (\<open>m_postsize\<close> is overwritten when a stamp is detected),
  the error sent to the client, the time and the data given to the record.
\<close>

record write_result =
  wr_result :: rsrv_result
  wr_header :: ca_header
  wr_error :: "ca_status option"
  wr_time :: "bytes option"
  wr_put :: "(nat \<times> nat \<times> bytes) option"

text \<open>The test for a time stamp, in unsigned arithmetic.\<close>

definition detects_stamp :: "ca_proto \<Rightarrow> ca_header \<Rightarrow> bool" where
  "detects_stamp Pr mp \<longleftrightarrow> u32 (dbr_size_n Pr (m_dataType mp) (m_count mp)) \<ge> u32_sub (m_postsize mp) 8"

text \<open>
  \<open>realSize\<close> is an \<open>int\<close>: a size of 2 GiB or more is negative, and the stamp would be read before
  the payload. The tables behind \<open>dbr_size_n\<close> have entries for the valid types only, and the type
  of the message has not been checked when they are read. \<open>pPayload\<close> is the receive buffer from
  the payload of the message on, so that what follows the message in the buffer is a part of it.
\<close>

definition as_int32 :: "nat \<Rightarrow> int" where
  "as_int32 n = (if n \<ge> 2147483648 then int n - 4294967296 else int n)"

definition write_action :: "ca_proto \<Rightarrow> write_env \<Rightarrow> ca_header \<Rightarrow> bytes \<Rightarrow> fault + write_result" where
  "write_action Pr E mp pPayload =
     (if INVALID_DB_REQ Pr (m_dataType mp) then Inl Out_Of_Bounds
      else
        (let size = u32 (dbr_size_n Pr (m_dataType mp) (m_count mp));
             realSize = as_int32 size;
             addTimeStamp = detects_stamp Pr mp;
             mp = (if addTimeStamp then mp\<lparr>m_postsize := size\<rparr> else mp);
             res = (\<lambda>r e t p. \<lparr>wr_result = r, wr_header = mp, wr_error = e, wr_time = t, wr_put = p\<rparr>)
         in if \<not> chan_found E then Inr (res RSRV_ERROR None None None)
            else if \<not> rsrvCheckPut E then
              Inr (res RSRV_OK (Some (if v41_client E then ECA_NOWTACCESS else ECA_PUTFAIL)) None None)
            else
              (case caNetConvert E (m_dataType mp) (m_count mp) pPayload of
                 (status, pPayload) \<Rightarrow>
                   if status \<noteq> ECA_NORMAL then Inr (res RSRV_ERROR (Some status) None None)
                   else if addTimeStamp \<and> (realSize < 0 \<or> nat realSize + 8 > length pPayload)
                   then Inl Out_Of_Bounds
                   else Inr (res RSRV_OK (if dbChannel_put_ok E then None else Some ECA_PUTFAIL)
                          (if addTimeStamp then Some (take 8 (drop (nat realSize) pPayload)) else None)
                          (Some (m_dataType mp, m_count mp, pPayload))))))"

end
