(* ===== verification/EpicsRecord.thy ===== *)
theory EpicsRecord
  imports Diode_Base
begin

section \<open>The patched record support\<close>

text \<open>
  The part of recGbl.c that handles the time stamp, the alarms and the precision of a record.
  With \<open>FERRO_TS_PATCH\<close> the function \<open>recGblGetTimeStamp\<close> no longer takes the time of the event
  \<open>tse\<close>, so that a time stamp written by a put survives the processing of the record.
\<close>

datatype link_type = CONSTANT | PV_LINK | OTHER_LINK

record db_link =
  link_type_of :: link_type
  tsel_is_time :: bool \<comment> \<open>\<open>pvlOptTSELisTime\<close>\<close>
  pvname :: bytes

text \<open>The fields of \<open>dbCommon\<close> that these functions use.\<close>

record dbCommon =
  stat :: nat
  sevr :: nat
  nsta :: nat
  nsev :: nat
  ackt :: bool
  acks :: nat
  time :: bytes
  tse :: int
  tsel :: db_link
  ppn :: bool
  rpro :: bool
  putf :: bool

text \<open>
  What goes to the rest of EPICS: the events posted for a field with their mask, the call of
  the alarm hook (installed or not), the forward link, the notification and the new scan.
\<close>

datatype db_field = F_sevr | F_stat | F_acks

datatype db_call =
    Post_event db_field nat | Alarm_hook nat nat | Scan_fwd_link | Notify_completion | Scan_once

definition DBE_VALUE :: nat where "DBE_VALUE = 1"
definition DBE_ALARM :: nat where "DBE_ALARM = 4"

unbundle bit_operations_syntax

definition recGblResetAlarms :: "bool \<Rightarrow> dbCommon \<Rightarrow> dbCommon \<times> db_call list \<times> nat" where
  "recGblResetAlarms hook pdbc =
     (let prev_stat = stat pdbc; prev_sevr = sevr pdbc;
          new_stat = nsta pdbc; new_sevr = nsev pdbc;
          pdbc = pdbc\<lparr>stat := new_stat, sevr := new_sevr, nsta := 0, nsev := 0\<rparr>;
          stat_mask = (if prev_sevr \<noteq> new_sevr then DBE_ALARM else 0);
          ev1 = (if prev_sevr \<noteq> new_sevr then [Post_event F_sevr DBE_VALUE] else []);
          stat_mask = (if prev_stat \<noteq> new_stat then stat_mask OR DBE_VALUE else stat_mask)
      in if stat_mask = 0 then (pdbc, ev1, 0)
         else
           (let ev2 = [Post_event F_stat stat_mask];
                renew = (\<not> ackt pdbc \<or> new_sevr \<ge> acks pdbc);
                pdbc = (if renew then pdbc\<lparr>acks := new_sevr\<rparr> else pdbc);
                ev3 = (if renew then [Post_event F_acks DBE_VALUE] else []);
                ev4 = (if hook then [Alarm_hook prev_sevr prev_stat] else [])
            in (pdbc, ev1 @ ev2 @ ev3 @ ev4, DBE_ALARM)))"


definition recGblSetSevr :: "dbCommon \<Rightarrow> nat \<Rightarrow> nat \<Rightarrow> dbCommon \<times> bool" where
  "recGblSetSevr prec new_stat new_sevr =
     (if nsev prec < new_sevr then (prec\<lparr>nsta := new_stat, nsev := new_sevr\<rparr>, True)
      else (prec, False))"

definition recGblFwdLink :: "dbCommon \<Rightarrow> dbCommon \<times> db_call list" where
  "recGblFwdLink pdbc =
     (let calls = Scan_fwd_link # (if ppn pdbc then [Notify_completion] else []);
          calls = (if rpro pdbc then calls @ [Scan_once] else calls)
      in (pdbc\<lparr>rpro := False, putf := False\<rparr>, calls))"

text \<open>
  \<open>dbGetTimeStamp\<close> and \<open>dbGetLink\<close> are parameters: the time of the linked record (None when it
  fails), and the field \<open>tse\<close> after the link has been read into it.
\<close>

definition recGblGetTimeStamp ::
  "(db_link \<Rightarrow> bytes option) \<Rightarrow> (db_link \<Rightarrow> int \<Rightarrow> int) \<Rightarrow> dbCommon \<Rightarrow> dbCommon" where
  "recGblGetTimeStamp dbGetTimeStamp dbGetLink prec =
     (let plink = tsel prec in
      if link_type_of plink \<noteq> CONSTANT then
        (if tsel_is_time plink then
           (case dbGetTimeStamp plink of None \<Rightarrow> prec | Some t \<Rightarrow> prec\<lparr>time := t\<rparr>)
         else prec\<lparr>tse := dbGetLink plink (tse prec)\<rparr>)
      else prec)"

text \<open>\<open>strstr\<close>, and \<open>recGblTSELwasModified\<close>, which cuts the name at \<open>.TIME\<close>.\<close>

fun strstr :: "bytes \<Rightarrow> bytes \<Rightarrow> nat option" where
  "strstr [] pat = (if pat = [] then Some 0 else None)"
| "strstr (b # bs) pat =
     (if take (length pat) (b # bs) = pat then Some 0 else map_option Suc (strstr bs pat))"

definition dot_TIME :: bytes where
  "dot_TIME = [46, 84, 73, 77, 69]"

definition recGblTSELwasModified :: "db_link \<Rightarrow> db_link" where
  "recGblTSELwasModified plink =
     (if link_type_of plink \<noteq> PV_LINK then plink
      else case strstr (pvname plink) dot_TIME of
             None \<Rightarrow> plink
           | Some i \<Rightarrow> plink\<lparr>pvname := take i (pvname plink), tsel_is_time := True\<rparr>)"

datatype field_type =
    DBF_CHAR | DBF_UCHAR | DBF_SHORT | DBF_USHORT | DBF_LONG | DBF_ULONG
  | DBF_FLOAT | DBF_DOUBLE | DBF_ENUM | DBF_OTHER

fun recGblGetPrec :: "field_type \<Rightarrow> int \<Rightarrow> int" where
  "recGblGetPrec DBF_FLOAT precision = (if precision < 0 \<or> precision > 15 then 15 else precision)"
| "recGblGetPrec DBF_DOUBLE precision = (if precision < 0 \<or> precision > 15 then 15 else precision)"
| "recGblGetPrec DBF_ENUM precision = precision"
| "recGblGetPrec DBF_OTHER precision = precision"
| "recGblGetPrec t precision = 0"

text \<open>
  The limits are the numbers the source writes; a type that has no case leaves them as they are.
\<close>

definition getMaxRangeValues :: "field_type \<Rightarrow> int \<times> int \<Rightarrow> int \<times> int" where
  "getMaxRangeValues t l =
     (case t of
        DBF_CHAR \<Rightarrow> (127, -128)
      | DBF_UCHAR \<Rightarrow> (255, 0)
      | DBF_SHORT \<Rightarrow> (32767, -32768)
      | DBF_ENUM \<Rightarrow> (65535, 0)
      | DBF_USHORT \<Rightarrow> (65535, 0)
      | DBF_LONG \<Rightarrow> (2147483647, -2147483648)
      | DBF_ULONG \<Rightarrow> (4294967295, 0)
      | DBF_FLOAT \<Rightarrow> (10 ^ 30, - (10 ^ 30))
      | DBF_DOUBLE \<Rightarrow> (10 ^ 300, - (10 ^ 300))
      | DBF_OTHER \<Rightarrow> l)"

end
