(* ===== verification/EpicsStamp.thy ===== *)
theory EpicsStamp
  imports EpicsPatch EpicsRecord
begin

section \<open>Time stamps through the patched library\<close>

text \<open>
  When a time stamp put by the client reaches the record, and when it does not: the client
  appends it behind the value aligned to 8 bytes, the server looks for it by size.
\<close>

subsection \<open>The protocol's sizes\<close>

text \<open>
  The seven plain types of Channel Access (string, short, float, enum, char, long, double) as
  the EPICS headers define them: sizes, alignment of a message to 8 bytes, valid type numbers.
\<close>

definition plain_kinds :: "elem_kind list" where
  "plain_kinds = [K_string, K_short, K_float, K_short, K_char, K_long, K_double]"

abbreviation plain_size :: "nat \<Rightarrow> nat" where
  "plain_size t \<equiv> kind_size (plain_kinds ! t)"

locale ca_protocol =
  fixes Pr :: ca_proto
  assumes align: "CA_MESSAGE_ALIGN Pr n = (n + 7) div 8 * 8"
    and size_n: "t < 7 \<Longrightarrow> 0 < n \<Longrightarrow> dbr_size_n Pr t n = n * plain_size t"
    and size_1: "t < 7 \<Longrightarrow> dbr_size Pr t = plain_size t" "t < 7 \<Longrightarrow> dbr_value_size Pr t = plain_size t"
    and valid: "t < 7 \<Longrightarrow> \<not> INVALID_DB_REQ Pr t"
    and string_type: "DBR_STRING Pr = 0"

definition ref_proto :: ca_proto where
  "ref_proto = \<lparr>INVALID_DB_REQ = (\<lambda>t. t > 38), dbr_size = plain_size, dbr_value_size = plain_size,
     dbr_size_n = (\<lambda>t n. if n = 0 then plain_size t else n * plain_size t),
     CA_MESSAGE_ALIGN = (\<lambda>n. (n + 7) div 8 * 8), DBR_STRING = 0, MAX_TCP = 16384, sizeof_caHdr = 16\<rparr>"

interpretation ref_proto: ca_protocol ref_proto
  by unfold_locales (simp_all add: ref_proto_def)

lemma plain_cases:
  assumes "(t :: nat) < 7" obtains "t = 0" | "t = 1" | "t = 2" | "t = 3" | "t = 4" | "t = 5" | "t = 6"
  using assms by linarith

lemma plain_size_pos: "t < 7 \<Longrightarrow> 0 < plain_size t"
  by (erule plain_cases) (simp_all add: plain_kinds_def MAX_STRING_LEN_def)

lemma plain_copy: "t < 7 \<Longrightarrow> dbrCopyScalar ! t = plain_kinds ! t \<and> dbrCopyVector ! t = plain_kinds ! t
    \<and> plain_kinds ! t \<noteq> K_invalid"
  by (erule plain_cases) (simp_all add: plain_kinds_def dbrCopyScalar_def dbrCopyVector_def)

lemma plain_room: "t < 7 \<Longrightarrow> 65536 \<le> (4294967295 - 8 - plain_size t) div plain_size t"
  by (erule plain_cases) (simp_all add: plain_kinds_def MAX_STRING_LEN_def)

lemma flag_facts:
  assumes "t < 7"
  shows "ts_flag (t + 32768)" "drop_flag (t + 32768) = t" "drop_flag t = t"
  using assms by (auto elim!: plain_cases simp: ts_flag_def drop_flag_def)

subsection \<open>The server's test\<close>

lemma align_eq_iff: "(n + 7) div 8 * 8 \<le> (n :: nat) \<longleftrightarrow> 8 dvd n"
  by presburger

text \<open>
  (C30) A put of plain values with a time stamp is recognised exactly when the size of its value is
  a multiple of 8; a put without one is always taken to have one.
\<close>

theorem stamp_is_seen_iff_aligned:
  assumes "ca_protocol Pr" and "m_dataType mp < 7" and "0 < m_count mp"
    and sz_def: "sz = m_count mp * kind_size (plain_kinds ! m_dataType mp)" and "sz + 16 < 4294967296"
  shows "(m_postsize mp = CA_MESSAGE_ALIGN Pr sz + 8 \<longrightarrow> detects_stamp Pr mp = (8 dvd sz))
    \<and> (m_postsize mp = CA_MESSAGE_ALIGN Pr sz \<longrightarrow> detects_stamp Pr mp)"
proof -
  let ?a = "(sz + 7) div 8 * 8"
  have d: "detects_stamp Pr mp \<longleftrightarrow> u32_sub (m_postsize mp) 8 \<le> sz"
    using ca_protocol.size_n [OF assms(1-3)] assms(5)
    by (simp add: detects_stamp_def sz_def [symmetric] u32_id)
  have al: "CA_MESSAGE_ALIGN Pr sz = ?a" using ca_protocol.align [OF assms(1)] .
  have pos: "0 < sz" using plain_size_pos [OF assms(2)] assms(3) by (simp add: sz_def)
  have "?a \<le> sz + 7" by simp
  then have "u32_sub (?a + 8) 8 = ?a"
    using assms(5) by (simp add: u32_sub_id u32_id)
  moreover have "8 \<le> ?a" "?a - 8 \<le> sz" using pos by presburger+
  then have "u32_sub ?a 8 = ?a - 8"
    using assms(5) \<open>?a \<le> sz + 7\<close> by (simp add: u32_sub_id)
  ultimately show ?thesis
    using \<open>?a - 8 \<le> sz\<close> align_eq_iff [of sz] unfolding d al by auto
qed

theorem stamp_is_seen_iff_aligned_witness:
  "\<not> detects_stamp ref_proto \<lparr>m_dataType = 5, m_count = 1, m_postsize = 16\<rparr>
   \<and> detects_stamp ref_proto \<lparr>m_dataType = 5, m_count = 1, m_postsize = 8\<rparr>"
  using stamp_is_seen_iff_aligned [OF ref_proto.ca_protocol_axioms,
      of "\<lparr>m_dataType = 5, m_count = 1, m_postsize = 16\<rparr>" 4]
    stamp_is_seen_iff_aligned [OF ref_proto.ca_protocol_axioms,
      of "\<lparr>m_dataType = 5, m_count = 1, m_postsize = 8\<rparr>" 4]
  by (simp add: plain_kinds_def ref_proto.align)

subsection \<open>A put with a time stamp\<close>

text \<open>The message of a put of plain values that are not strings, with their time stamp.\<close>

lemma stamped_message:
  assumes "ca_protocol Pr" and "0 < t" "t < 7" and "0 < n" and "n * plain_size t + 8 < 65535"
    and "8 dvd n * plain_size t" and "v49_n chan"
    and len: "length v = n * plain_size t" "length ts = 8"
  shows "insertRequestWithPayLoad Pr r (t + 32768) n cid dep (v @ ts @ rest) (v49_n chan) =
    Inr [Push16 r, Push16 (length v + 8), Push16 t, Push16 n, Push32 cid, Push32 dep,
      PushElems (plain_kinds ! t) v, PushElems K_char ts]"
proof -
  let ?sz = "n * plain_size t" and ?k = "plain_kinds ! t"
  let ?h = "[Push16 r, Push16 (?sz + 8), Push16 t, Push16 n, Push32 cid, Push32 dep]"
  have pos: "0 < plain_size t" by (rule plain_size_pos [OF assms(3)])
  then have n: "n \<le> ?sz" by simp
  then have n2: "n < 65527" using assms(5) by linarith
  have al: "CA_MESSAGE_ALIGN Pr ?sz = ?sz"
    using assms(6) unfolding ca_protocol.align [OF assms(1)] by presburger
  have sizes: "dbr_size Pr t = plain_size t" "dbr_value_size Pr t = plain_size t"
      "dbr_size_n Pr t n = ?sz" "DBR_STRING Pr = 0" "\<not> INVALID_DB_REQ Pr t"
    using ca_protocol.size_1 [OF assms(1,3)] ca_protocol.size_n [OF assms(1,3,4)]
      ca_protocol.string_type [OF assms(1)] ca_protocol.valid [OF assms(1,3)] by simp_all
  have kinds: "dbrCopyScalar ! t = ?k" "dbrCopyVector ! t = ?k" "?k \<noteq> K_invalid"
    using plain_copy [OF assms(3)] by simp_all
  have small: "u16 (t + 32768) = t + 32768" "u32 n = n" "u32 ?sz = ?sz" "u32 (?sz + 8) = ?sz + 8"
      "u16 (?sz + 8) = ?sz + 8" "u16 n = n"
    using assms(3,5) n2 by (simp_all add: u16_def u32_id)
  have hdr: "insertRequestHeader r ?sz (u16 (t + 32768)) (u32 n) cid dep (v49_n chan) = Inr ?h"
    using assms(5) n2 by (simp add: insertRequestHeader_def small flag_facts [OF assms(3)])
  have elem: "payload_read (v @ ts @ rest) 0 ?sz = Inr v"
    using len by (simp add: payload_read_def)
  have vi: "value_items Pr r (t + 32768) t n cid dep (v @ ts @ rest) (v49_n chan)
      = Inr (?sz, ?sz, ?h @ [PushElems ?k v])"
  proof (cases "n = 1")
    case True
    then show ?thesis
      using hdr elem kinds sizes al assms(2)
      by (simp add: value_items_def copy_scalar_def Let_def)
  next
    case False
    have "\<not> (4294967295 - 8 - plain_size t) div plain_size t \<le> n"
      using plain_room [OF assms(3)] n2 by linarith
    then show ?thesis
      using False hdr elem kinds sizes al assms(2,7) small
      by (simp add: value_items_def copy_vector_def Let_def)
  qed
  have "payload_read (v @ ts @ rest) ?sz 8 = Inr ts"
    using len by (simp add: payload_read_def)
  then show ?thesis
    using vi sizes(5) assms(3) len
    by (simp add: insertRequestWithPayLoad_def flag_facts [OF assms(3)] comQueSendCopyDispatchSize_def
        u32_sub_def u32_def)
qed

text \<open>A channel whose puts of \<open>n\<close> plain values of type \<open>t\<close> carry a time stamp to the record.\<close>

definition writable :: "nciu \<Rightarrow> nat \<Rightarrow> nat \<Rightarrow> nat \<Rightarrow> bool" where
  "writable chan t n sz \<longleftrightarrow> 0 < t \<and> t < 7 \<and> 0 < n \<and> n \<le> count_n chan \<and> sz = n * plain_size t
     \<and> sz + 8 < 65535 \<and> 8 dvd sz \<and> connected_n chan \<and> writePermit_n chan \<and> v49_n chan
     \<and> sid_n chan < 4294967296 \<and> cid_n chan < 4294967296"

lemma stamped_put_sent:
  assumes "ca_protocol Pr" and w: "writable chan t n (length v)" and "length ts = 8"
  shows "ca_array_put Pr chan (int t + 32768) n (v @ ts @ rest) =
      Some (ECA_NORMAL, [Push16 CA_PROTO_WRITE, Push16 (length v + 8), Push16 t, Push16 n,
        Push32 (sid_n chan), Push32 (cid_n chan), PushElems (plain_kinds ! t) v, PushElems K_char ts])"
proof -
  have msg: "insertRequestWithPayLoad Pr CA_PROTO_WRITE (t + 32768) n (sid_n chan) (cid_n chan)
      (v @ ts @ rest) (v49_n chan) = Inr [Push16 CA_PROTO_WRITE, Push16 (length v + 8), Push16 t, Push16 n,
        Push32 (sid_n chan), Push32 (cid_n chan), PushElems (plain_kinds ! t) v, PushElems K_char ts]"
    by (rule stamped_message) (use assms in \<open>auto simp: writable_def\<close>)
  have t: "t < 7" using w by (simp add: writable_def)
  have "nciu_write Pr chan (t + 32768) n (v @ ts @ rest) = Inr [Push16 CA_PROTO_WRITE, Push16 (length v + 8),
      Push16 t, Push16 n, Push32 (sid_n chan), Push32 (cid_n chan), PushElems (plain_kinds ! t) v, PushElems K_char ts]"
    using w msg ca_protocol.valid [OF assms(1) t] ca_protocol.string_type [OF assms(1)]
    by (simp add: nciu_write_def write_checks_def writeRequest_def flag_facts [OF t] writable_def)
  moreover have "(int t + 32768) mod 4294967296 = int t + 32768" "nat (int t + 32768) = t + 32768"
    using t by simp_all
  moreover have "\<not> (int t + 32768) AND 0xFFFF7FFF < 0"
    by (simp add: not_less)
  ultimately show ?thesis unfolding ca_array_put_def by simp
qed

text \<open>
  A healthy server: the channel exists, may be written, and takes the put; the bytes \<open>raw\<close> of \<open>n\<close>
  values of type \<open>t\<close> on the wire are converted in place to \<open>v\<close>.
\<close>

definition accepting :: "write_env \<Rightarrow> nat \<Rightarrow> nat \<Rightarrow> bytes \<Rightarrow> bytes \<Rightarrow> bool" where
  "accepting E t n raw v \<longleftrightarrow> chan_found E \<and> rsrvCheckPut E \<and> dbChannel_put_ok E
     \<and> (\<forall>rest. caNetConvert E t n (raw @ rest) = (ECA_NORMAL, v @ rest))"

lemma stamped_write_received:
  assumes "ca_protocol Pr" and "writable chan t n (length v)" and "length ts = 8" and "accepting E t n raw v"
  shows "\<exists>r. write_action Pr E \<lparr>m_dataType = t, m_count = n, m_postsize = length v + 8\<rparr> (raw @ ts @ rest) = Inr r
        \<and> wr_result r = RSRV_OK \<and> wr_error r = None \<and> wr_time r = Some ts
        \<and> wr_put r = Some (t, n, v @ ts @ rest)"
proof -
  let ?mp = "\<lparr>m_dataType = t, m_count = n, m_postsize = length v + 8\<rparr>"
  have w: "t < 7" "0 < n" "length v = n * plain_size t" "length v + 8 < 65535"
    using assms(2) by (auto simp: writable_def)
  then have "u32 (length v) = length v" "u32_sub (length v + 8) 8 = length v"
    by (simp_all add: u32_id u32_sub_id)
  then have "detects_stamp Pr ?mp" "dbr_size_n Pr t n = length v"
    using ca_protocol.size_n [OF assms(1) w(1,2)] w(3) by (simp_all add: detects_stamp_def)
  moreover have "\<not> INVALID_DB_REQ Pr t" by (rule ca_protocol.valid [OF assms(1) w(1)])
  moreover have "u32 (length v) = length v" "as_int32 (length v) = int (length v)"
    using w(4) by (simp_all add: u32_id as_int32_def)
  ultimately show ?thesis
    using assms(3,4) by (simp add: write_action_def accepting_def Let_def)
qed

definition ex_chan :: nciu where
  "ex_chan = \<lparr>connected_n = True, writePermit_n = True, count_n = 4, sid_n = 1, cid_n = 2,
     v41_n = True, v49_n = True\<rparr>"

definition ex_env :: write_env where
  "ex_env = \<lparr>chan_found = True, rsrvCheckPut = True, v41_client = True,
     caNetConvert = (\<lambda>t n p. (ECA_NORMAL, p)), dbChannel_put_ok = True\<rparr>"

end
