(* ===== verification/EpicsServer.thy ===== *)
theory EpicsServer
  imports EpicsPatch
begin

section \<open>The server's message loop\<close>

text \<open>
  \<open>camessage\<close> of camessage.c: it takes the messages out of the receive buffer of a client and calls
  the function that the jump table has for their command. The functions themselves are a
  parameter (\<open>write_action\<close> is put in its place by \<open>with_write\<close>), as are \<open>send_err\<close> with \<open>log_header\<close>
  and \<open>casExpandRecvBuffer\<close> of the unchanged server; printing is left out.
\<close>

record ca_msg = ca_header +
  m_cmmd :: nat
  m_cid :: nat
  m_available :: nat

subsection \<open>The jump tables\<close>

datatype action =
    tcp_version_action | event_add_action | event_cancel_reply | read_action | A_write_action
  | bad_tcp_cmd_action | search_reply_tcp | events_off_action | events_on_action | read_sync_reply
  | clear_channel_reply | read_notify_action | claim_ciu_action | A_write_notify_action
  | client_name_action | host_name_action | tcp_echo_action
  | udp_version_action | bad_udp_cmd_action | search_reply_udp | udp_echo_action

definition tcpJumpTable :: "action list" where
  "tcpJumpTable =
     [tcp_version_action, event_add_action, event_cancel_reply, read_action, A_write_action,
      bad_tcp_cmd_action, search_reply_tcp, bad_tcp_cmd_action, events_off_action, events_on_action,
      read_sync_reply, bad_tcp_cmd_action, clear_channel_reply, bad_tcp_cmd_action,
      bad_tcp_cmd_action, read_notify_action, bad_tcp_cmd_action, bad_tcp_cmd_action,
      claim_ciu_action, A_write_notify_action, client_name_action, host_name_action,
      bad_tcp_cmd_action, tcp_echo_action, bad_tcp_cmd_action, bad_tcp_cmd_action,
      bad_tcp_cmd_action, bad_tcp_cmd_action]"

definition udpJumpTable :: "action list" where
  "udpJumpTable =
     [udp_version_action, bad_udp_cmd_action, bad_udp_cmd_action, bad_udp_cmd_action,
      bad_udp_cmd_action, bad_udp_cmd_action, search_reply_udp, bad_udp_cmd_action,
      bad_udp_cmd_action, bad_udp_cmd_action, bad_udp_cmd_action, bad_udp_cmd_action,
      bad_udp_cmd_action, bad_udp_cmd_action, bad_udp_cmd_action, bad_udp_cmd_action,
      bad_udp_cmd_action, bad_udp_cmd_action, bad_udp_cmd_action, bad_udp_cmd_action,
      bad_udp_cmd_action, bad_udp_cmd_action, bad_udp_cmd_action, udp_echo_action,
      bad_udp_cmd_action, bad_udp_cmd_action, bad_udp_cmd_action, bad_udp_cmd_action]"

subsection \<open>The client and its receive buffer\<close>

text \<open>
  The buffer is the whole array; received are its first \<open>cnt_v\<close> bytes, of which \<open>stk_v\<close> have been
  taken.
\<close>

record recv_buf =
  buf_v :: bytes
  cnt_v :: nat
  stk_v :: nat
  maxstk_v :: nat

record 's ca_client =
  recv_c :: recv_buf
  recvBytesToDrain_c :: nat
  v49_c :: bool
  tcp_c :: bool
  served_c :: 's \<comment> \<open>everything else that the functions of the tables use\<close>

text \<open>
  A function of the tables gets the message, the buffer from its body on, and may change both the
  buffer (the conversion to host order is done in place) and the rest of the client.
\<close>

record 's server_ops =
  handler :: "action \<Rightarrow> ca_msg \<Rightarrow> bytes \<Rightarrow> 's \<Rightarrow> fault + rsrv_result \<times> bytes \<times> 's"
  send_err :: "ca_msg \<Rightarrow> ca_status \<Rightarrow> 's \<Rightarrow> 's"
  casExpandRecvBuffer :: "nat \<Rightarrow> recv_buf \<Rightarrow> recv_buf"

subsection \<open>A message\<close>

definition field :: "bytes \<Rightarrow> nat \<Rightarrow> nat \<Rightarrow> nat" where
  "field b k n = nat_of_be (take n (drop k b))"

text \<open>The header, the size of the message and of its header; \<open>None\<close> when more has to arrive.\<close>

definition read_header :: "bool \<Rightarrow> bytes \<Rightarrow> nat \<Rightarrow> (ca_msg \<times> nat \<times> nat) option" where
  "read_header v49 b bytes_left =
     (if bytes_left < 16 then None
      else
        (let msg = \<lparr>m_dataType = field b 4 2, m_count = field b 6 2, m_postsize = field b 2 2,
               m_cmmd = field b 0 2, m_cid = field b 8 4, m_available = field b 12 4\<rparr>
         in if v49 \<and> m_postsize msg = 0xffff then
              (if bytes_left < 24 then None
               else Some (msg\<lparr>m_postsize := field b 16 4, m_count := field b 20 4\<rparr>,
                      u32 (field b 16 4 + 24), 24))
            else Some (msg, u32 (m_postsize msg + 16), 16)))"

text \<open>The call of the function of a command; the status when the loop ends.\<close>

definition dispatch ::
  "'s server_ops \<Rightarrow> bool \<Rightarrow> ca_msg \<Rightarrow> bytes \<Rightarrow> 's \<Rightarrow> fault + rsrv_result option \<times> bytes \<times> 's" where
  "dispatch V tcp msg body s =
     (let table = (if tcp then tcpJumpTable else udpJumpTable)
      in if m_cmmd msg < length table then
           (case handler V (table ! m_cmmd msg) msg body s of
              Inl e \<Rightarrow> Inl e
            | Inr (status, body, s) \<Rightarrow>
                Inr (if status \<noteq> RSRV_OK then Some RSRV_ERROR else None, body, s))
         else
           (case handler V (if tcp then bad_tcp_cmd_action else bad_udp_cmd_action) msg body s of
              Inl e \<Rightarrow> Inl e
            | Inr (status, body, s) \<Rightarrow> Inr (Some status, body, s)))"

text \<open>
  One turn of the loop, with the status when it ends. A message that fits only after the buffer
  has been replaced would be read through a pointer into the old one.
\<close>

definition message_step ::
  "'s server_ops \<Rightarrow> 's ca_client \<Rightarrow> fault + 's ca_client \<times> rsrv_result option" where
  "message_step V c =
     (let r = recv_c c;
          bytes_left = u32_sub (cnt_v r) (stk_v r)
      in case read_header (v49_c c) (drop (stk_v r) (buf_v r)) bytes_left of
           None \<Rightarrow> Inr (c, Some RSRV_OK)
         | Some (msg, msgsize, h) \<Rightarrow>
             if msgsize mod 8 \<noteq> 0 then
               Inr (c\<lparr>served_c := send_err V msg ECA_INTERNAL (served_c c)\<rparr>, Some RSRV_ERROR)
             else
               (let expand = (msgsize > maxstk_v r);
                    r1 = (if expand then casExpandRecvBuffer V msgsize r else r)
                in if expand \<and> msgsize > maxstk_v r1 then
                     (if cnt_v r1 \<le> maxstk_v r1 \<and> msgsize \<ge> bytes_left then
                        Inr (c\<lparr>recv_c := r1\<lparr>stk_v := cnt_v r1\<rparr>,
                               recvBytesToDrain_c := msgsize - bytes_left,
                               served_c := send_err V msg ECA_TOLARGE (served_c c)\<rparr>, Some RSRV_OK)
                      else Inl Assertion_Failed)
                   else if msgsize > bytes_left then Inr (c\<lparr>recv_c := r1\<rparr>, Some RSRV_OK)
                   else if expand then Inl Out_Of_Bounds
                   else
                     (case dispatch V (tcp_c c) msg (drop (stk_v r + h) (buf_v r)) (served_c c) of
                        Inl e \<Rightarrow> Inl e
                      | Inr (stop, body, s) \<Rightarrow>
                          (let r2 = r\<lparr>buf_v := take (stk_v r + h) (buf_v r) @ body\<rparr>
                           in Inr (c\<lparr>recv_c := (if stop = None
                                        then r2\<lparr>stk_v := u32 (stk_v r + msgsize)\<rparr> else r2),
                                     served_c := s\<rparr>, stop)))))"

partial_function (option) message_loop ::
  "'s server_ops \<Rightarrow> 's ca_client \<Rightarrow> (fault + rsrv_result \<times> 's ca_client) option" where
  "message_loop V c =
     (case message_step V c of
        Inl e \<Rightarrow> Some (Inl e)
      | Inr (c, stop) \<Rightarrow>
          (case stop of
             None \<Rightarrow> message_loop V c
           | Some status \<Rightarrow> Some (Inr (status, c))))"

definition camessage ::
  "'s server_ops \<Rightarrow> 's ca_client \<Rightarrow> (fault + rsrv_result \<times> 's ca_client) option" where
  "camessage V c =
     (let r = recv_c c; n = recvBytesToDrain_c c in
      if n > 0 then
        (if n \<ge> cnt_v r then
           Some (Inr (RSRV_OK, c\<lparr>recvBytesToDrain_c := n - cnt_v r, recv_c := r\<lparr>stk_v := cnt_v r\<rparr>\<rparr>))
         else message_loop V (c\<lparr>recv_c := r\<lparr>stk_v := u32 (stk_v r + n)\<rparr>, recvBytesToDrain_c := 0\<rparr>))
      else message_loop V c)"

end
