(* ===== verification/EpicsServerLoop.thy ===== *)
theory EpicsServerLoop
  imports EpicsServer
begin

section \<open>What the message loop guarantees\<close>

text \<open>
  The loop of \<open>camessage\<close> takes exactly the complete messages out of the buffer, in order, and
  leaves the beginning of the next one; a size that wraps around keeps it from ever returning.
\<close>

subsection \<open>Messages as bytes\<close>

text \<open>A message with the header of 16 or, for large arrays, of 24 bytes.\<close>

definition encode_header :: "bool \<Rightarrow> ca_msg \<Rightarrow> bytes" where
  "encode_header large m =
     be16 (m_cmmd m) @ be16 (if large then 0xffff else m_postsize m) @ be16 (m_dataType m)
     @ be16 (if large then 0 else m_count m) @ be32 (m_cid m) @ be32 (m_available m)
     @ (if large then be32 (m_postsize m) @ be32 (m_count m) else [])"

abbreviation header_size :: "bool \<Rightarrow> nat" where
  "header_size large \<equiv> (if large then 24 else 16)"

lemma length_encode_header [simp]: "length (encode_header large m) = header_size large"
  by (simp add: encode_header_def)

definition msg_ok :: "bool \<Rightarrow> bool \<Rightarrow> ca_msg \<Rightarrow> bool" where
  "msg_ok v49 large m \<longleftrightarrow> m_cmmd m < 65536 \<and> m_dataType m < 65536 \<and> m_cid m < 4294967296
     \<and> m_available m < 4294967296 \<and> 8 dvd m_postsize m \<and> m_postsize m + 24 < 4294967296
     \<and> (if large then v49 \<and> m_count m < 4294967296 else m_postsize m < 65535 \<and> m_count m < 65536)"

lemma fields_small:
  assumes "take 16 b = take 16 (encode_header large m)"
  shows "field b 0 2 = m_cmmd m mod 65536" "field b 4 2 = m_dataType m mod 65536"
    "field b 2 2 = (if large then 0xffff else m_postsize m) mod 65536"
    "field b 6 2 = (if large then 0 else m_count m) mod 65536"
    "field b 8 4 = u32 (m_cid m)" "field b 12 4 = u32 (m_available m)"
proof -
  have f: "field b k n = field (encode_header large m) k n" if "k + n \<le> 16" for k n
  proof -
    have "take n (drop k b) = take n (drop k (take 16 b))" for b :: bytes
      using that by (simp add: drop_take min_def)
    then show ?thesis unfolding field_def using assms by metis
  qed
  show "field b 0 2 = m_cmmd m mod 65536" "field b 4 2 = m_dataType m mod 65536"
    "field b 2 2 = (if large then 0xffff else m_postsize m) mod 65536"
    "field b 6 2 = (if large then 0 else m_count m) mod 65536"
    "field b 8 4 = u32 (m_cid m)" "field b 12 4 = u32 (m_available m)"
    by (simp_all add: f) (simp_all add: field_def encode_header_def)
qed

lemma read_header_whole:
  assumes "msg_ok v49 large m" and "header_size large \<le> n"
  shows "read_header v49 (encode_header large m @ rest) n
    = Some (m, header_size large + m_postsize m, header_size large)"
proof -
  let ?b = "encode_header large m @ rest"
  note f = fields_small [of ?b large m, simplified]
  have g: "field ?b 16 4 = m_postsize m" "field ?b 20 4 = m_count m" if large
    using that assms(1) by (simp_all add: field_def encode_header_def msg_ok_def u32_id)
  show ?thesis
    using assms f g by (cases large; cases m) (auto simp: read_header_def msg_ok_def u32_id)
qed

text \<open>A message of which only the beginning \<open>p\<close> has arrived.\<close>

lemma read_header_partial:
  assumes "msg_ok v49 large m" and "p @ q = encode_header large m @ body" and "q \<noteq> []"
    and "length body = m_postsize m"
  shows "case read_header v49 (p @ rest) (length p) of
      None \<Rightarrow> True
    | Some (m', sz, h) \<Rightarrow> sz = header_size large + m_postsize m \<and> sz mod 8 = 0 \<and> length p < sz"
proof (cases "header_size large \<le> length p")
  case True
  then have "take (header_size large) p = take (header_size large) (p @ q)" by simp
  also have "\<dots> = encode_header large m" unfolding assms(2) by simp
  finally have "p @ rest = encode_header large m @ (drop (header_size large) p @ rest)"
    by (metis append.assoc append_take_drop_id)
  moreover have "length p < header_size large + m_postsize m"
    using arg_cong [OF assms(2), of length] assms(3,4) by (cases q) auto
  moreover have "(header_size large + m_postsize m) mod 8 = 0"
    using assms(1) by (auto simp: msg_ok_def elim!: dvdE)
  ultimately have "read_header v49 (p @ rest) (length p)
      = Some (m, header_size large + m_postsize m, header_size large)"
    using read_header_whole [OF assms(1) True] by metis
  then show ?thesis
    using \<open>length p < _\<close> \<open>_ mod 8 = 0\<close> by simp
next
  case False
  show ?thesis
  proof (cases "length p < 16")
    case True
    then show ?thesis by (simp add: read_header_def)
  next
    case 16: False
    then have l: "large" "v49" using False assms(1) by (auto simp: msg_ok_def split: if_splits)
    have "take 16 (p @ rest) = take 16 (p @ q)" using 16 by simp
    also have "\<dots> = take 16 (encode_header large m)" unfolding assms(2) using l by simp
    finally have "field (p @ rest) 2 2 = 0xffff" using fields_small(3) l by fastforce
    then show ?thesis using False 16 l by (simp add: read_header_def)
  qed
qed

subsection \<open>One turn of the loop\<close>

lemma message_step_whole:
  assumes "msg_ok (v49_c c) large m" and "length body = m_postsize m"
    and buf: "drop (stk_v (recv_c c)) (buf_v (recv_c c)) = encode_header large m @ body @ rest"
    and cnt: "stk_v (recv_c c) + header_size large + m_postsize m \<le> cnt_v (recv_c c)"
      "cnt_v (recv_c c) < 4294967296"
    and "header_size large + m_postsize m \<le> maxstk_v (recv_c c)"
    and "tcp_c c" and "m_cmmd m < 28"
    and h: "handler V (tcpJumpTable ! m_cmmd m) m (body @ rest) (served_c c) = Inr (RSRV_OK, body', s')"
  shows "message_step V c = Inr (c\<lparr>recv_c := (recv_c c)\<lparr>
      buf_v := take (stk_v (recv_c c) + header_size large) (buf_v (recv_c c)) @ body',
      stk_v := stk_v (recv_c c) + header_size large + m_postsize m\<rparr>, served_c := s'\<rparr>, None)"
proof -
  let ?r = "recv_c c" and ?h = "header_size large"
  have left: "u32_sub (cnt_v ?r) (stk_v ?r) = cnt_v ?r - stk_v ?r"
    using cnt by (simp add: u32_sub_id)
  have rd: "read_header (v49_c c) (drop (stk_v ?r) (buf_v ?r)) (cnt_v ?r - stk_v ?r)
      = Some (m, ?h + m_postsize m, ?h)"
    unfolding buf using cnt by (intro read_header_whole [OF assms(1)]) simp
  have "drop (stk_v ?r + ?h) (buf_v ?r) = drop ?h (drop (stk_v ?r) (buf_v ?r))"
    by (simp add: add.commute)
  also have "\<dots> = body @ rest" unfolding buf by simp
  finally have bd: "drop (stk_v ?r + ?h) (buf_v ?r) = body @ rest" .
  have "(?h + m_postsize m) mod 8 = 0" using assms(1) by (auto simp: msg_ok_def elim!: dvdE)
  moreover have "\<not> maxstk_v ?r < ?h + m_postsize m" using assms(6) by simp
  moreover have "\<not> cnt_v ?r - stk_v ?r < ?h + m_postsize m" using cnt by simp
  moreover have "u32 (stk_v ?r + (?h + m_postsize m)) = stk_v ?r + ?h + m_postsize m"
    using cnt by (simp add: u32_id)
  moreover have "dispatch V (tcp_c c) m (body @ rest) (served_c c) = Inr (None, body', s')"
    using assms(7,8) h by (simp add: dispatch_def tcpJumpTable_def [THEN arg_cong, of length])
  ultimately show ?thesis
    unfolding message_step_def Let_def left rd by (simp add: bd)
qed

lemma message_step_partial:
  assumes "msg_ok (v49_c c) large m" and "length body = m_postsize m"
    and "p @ q = encode_header large m @ body" "q \<noteq> []"
    and buf: "drop (stk_v (recv_c c)) (buf_v (recv_c c)) = p @ rest"
    and cnt: "cnt_v (recv_c c) = stk_v (recv_c c) + length p" "cnt_v (recv_c c) < 4294967296"
    and "header_size large + m_postsize m \<le> maxstk_v (recv_c c)"
  shows "message_step V c = Inr (c, Some RSRV_OK)"
proof -
  have left: "u32_sub (cnt_v (recv_c c)) (stk_v (recv_c c)) = length p"
    using cnt by (simp add: u32_sub_id)
  have rd: "case read_header (v49_c c) (p @ rest) (length p) of
      None \<Rightarrow> True
    | Some (m', sz, h) \<Rightarrow> sz = header_size large + m_postsize m \<and> sz mod 8 = 0 \<and> length p < sz"
    by (rule read_header_partial [OF assms(1,3,4,2)])
  show ?thesis
    using rd assms(8) unfolding message_step_def Let_def left buf
    by (auto split: option.splits)
qed

subsection \<open>The messages of a buffer\<close>

definition encode_msg :: "bool \<times> ca_msg \<times> bytes \<Rightarrow> bytes" where
  "encode_msg x = (case x of (large, m, body) \<Rightarrow> encode_header large m @ body)"

definition encode_msgs :: "(bool \<times> ca_msg \<times> bytes) list \<Rightarrow> bytes" where
  "encode_msgs ms = concat (map encode_msg ms)"

lemma encode_msgs_simps [simp]:
  "encode_msgs [] = []" "encode_msgs ((l, m, b) # ms) = encode_header l m @ b @ encode_msgs ms"
  by (simp_all add: encode_msgs_def encode_msg_def)

text \<open>
  A function called by the loop leaves alone what follows its message in the buffer, for the
  messages for which that is known.
\<close>

locale calm_server =
  fixes V :: "'s server_ops" and fits :: "ca_msg \<Rightarrow> bool"
  assumes keeps_rest: "handler V a m (body @ rest) s = Inr (st, body', s') \<Longrightarrow> fits m \<Longrightarrow>
    length body = m_postsize m \<Longrightarrow> \<exists>b. body' = b @ rest \<and> length b = length body"

definition loadable :: "(ca_msg \<Rightarrow> bool) \<Rightarrow> bool \<Rightarrow> nat \<Rightarrow> bool \<times> ca_msg \<times> bytes \<Rightarrow> bool" where
  "loadable fits v49 maxstk x \<longleftrightarrow> (case x of (large, m, body) \<Rightarrow>
     msg_ok v49 large m \<and> fits m \<and> length body = m_postsize m \<and> m_cmmd m < 28
     \<and> header_size large + m_postsize m \<le> maxstk)"

text \<open>The functions called for a sequence of messages, as long as they succeed.\<close>

fun serve :: "'s server_ops \<Rightarrow> (bool \<times> ca_msg \<times> bytes) list \<Rightarrow> bytes \<Rightarrow> 's \<Rightarrow> 's option" where
  "serve V [] tail s = Some s"
| "serve V ((l, m, b) # ms) tail s =
     (case handler V (tcpJumpTable ! m_cmmd m) m (b @ encode_msgs ms @ tail) s of
        Inr (RSRV_OK, _, s') \<Rightarrow> serve V ms tail s'
      | _ \<Rightarrow> None)"

definition buffered :: "'s ca_client \<Rightarrow> bytes \<Rightarrow> bytes \<Rightarrow> bool" where
  "buffered c b rest \<longleftrightarrow> drop (stk_v (recv_c c)) (buf_v (recv_c c)) = b @ rest
     \<and> cnt_v (recv_c c) = stk_v (recv_c c) + length b \<and> cnt_v (recv_c c) < 4294967296"

context calm_server
begin

lemma message_loop_serves:
  assumes "tcp_c c" and "buffered c (encode_msgs ms @ p) rest"
    and "\<forall>x \<in> set ms. loadable fits (v49_c c) (maxstk_v (recv_c c)) x"
    and "p @ q = encode_msg nxt" "q \<noteq> []" "loadable fits (v49_c c) (maxstk_v (recv_c c)) nxt"
    and "serve V ms (p @ rest) (served_c c) = Some s'"
  shows "\<exists>c'. message_loop V c = Some (Inr (RSRV_OK, c')) \<and> served_c c' = s'
    \<and> stk_v (recv_c c') = stk_v (recv_c c) + length (encode_msgs ms) \<and> buffered c' p rest"
  using assms(1-3,6,7)
proof (induction ms arbitrary: c)
  case Nil
  obtain l m b where nxt: "nxt = (l, m, b)" by (cases nxt)
  have "message_step V c = Inr (c, Some RSRV_OK)"
    by (rule message_step_partial [where p = p and q = q and body = b and large = l and m = m and rest = rest])
      (use Nil assms(4,5) in \<open>simp_all add: nxt loadable_def buffered_def encode_msg_def\<close>)
  then have "message_loop V c = Some (Inr (RSRV_OK, c))"
    by (subst message_loop.simps) simp
  then show ?case using Nil by simp
next
  case (Cons x ms)
  obtain l m b where x: "x = (l, m, b)" by (cases x)
  let ?r = "recv_c c" and ?h = "header_size l" and ?tail = "encode_msgs ms @ p @ rest"
  have ld: "msg_ok (v49_c c) l m" "fits m" "length b = m_postsize m" "m_cmmd m < 28"
      "?h + m_postsize m \<le> maxstk_v ?r"
    using Cons.prems(3) by (auto simp: x loadable_def)
  have bf: "drop (stk_v ?r) (buf_v ?r) = encode_header l m @ b @ ?tail"
      "cnt_v ?r = stk_v ?r + ?h + length b + length (encode_msgs ms @ p)" "cnt_v ?r < 4294967296"
    using Cons.prems(2) by (simp_all add: x buffered_def)
  obtain body' s1 where h: "handler V (tcpJumpTable ! m_cmmd m) m (b @ ?tail) (served_c c) = Inr (RSRV_OK, body', s1)"
      "serve V ms (p @ rest) s1 = Some s'"
    using Cons.prems(5) by (auto simp: x split: sum.splits rsrv_result.splits)
  obtain b1 where b1: "body' = b1 @ ?tail" "length b1 = length b"
    using keeps_rest [OF h(1) ld(2,3)] by blast
  let ?c1 = "c\<lparr>recv_c := ?r\<lparr>buf_v := take (stk_v ?r + ?h) (buf_v ?r) @ body',
      stk_v := stk_v ?r + ?h + m_postsize m\<rparr>, served_c := s1\<rparr>"
  have step: "message_step V c = Inr (?c1, None)"
    by (rule message_step_whole [OF ld(1,3) bf(1)]) (use Cons.prems(1) bf ld h(1) in simp_all)
  have "stk_v ?r + ?h \<le> length (buf_v ?r)"
    using arg_cong [OF bf(1), of length] by (cases l) simp_all
  then have "buffered ?c1 (encode_msgs ms @ p) rest"
    using bf(2,3) ld(3) b1 by (simp add: buffered_def)
  note ih = Cons.IH [OF _ this]
  have f: "tcp_c ?c1 = tcp_c c" "v49_c ?c1 = v49_c c" "maxstk_v (recv_c ?c1) = maxstk_v ?r" "served_c ?c1 = s1"
    by simp_all
  have "\<forall>x \<in> set ms. loadable fits (v49_c c) (maxstk_v ?r) x" using Cons.prems(3) by simp
  then obtain c' where c':
      "message_loop V ?c1 = Some (Inr (RSRV_OK, c'))" "served_c c' = s'"
      "stk_v (recv_c c') = stk_v (recv_c ?c1) + length (encode_msgs ms)" "buffered c' p rest"
    using ih Cons.prems(1,4) h(2) unfolding f by blast
  have "message_loop V c = message_loop V ?c1"
    using step by (subst message_loop.simps) simp
  then show ?case using c' ld(3) by (simp add: x)
qed

end

text \<open>
  (C26) The message loop of the server takes exactly the complete messages out of its buffer, in
  order, each with its own header and body, and leaves the beginning of the next message for the
  next call. (No message is larger than the buffer, and every function succeeds.)
\<close>

theorem complete_messages_are_served:
  assumes "calm_server V fits" and "tcp_c c" and "recvBytesToDrain_c c = 0"
    and "buffered c (encode_msgs ms @ p) rest"
    and "\<forall>x \<in> set ms. loadable fits (v49_c c) (maxstk_v (recv_c c)) x"
    and "p @ q = encode_msg nxt" "q \<noteq> []" "loadable fits (v49_c c) (maxstk_v (recv_c c)) nxt"
    and "serve V ms (p @ rest) (served_c c) = Some s'"
  shows "\<exists>c'. camessage V c = Some (Inr (RSRV_OK, c')) \<and> served_c c' = s'
    \<and> stk_v (recv_c c') = stk_v (recv_c c) + length (encode_msgs ms) \<and> buffered c' p rest"
  using calm_server.message_loop_serves [OF assms(1,2,4-9)] assms(3) by (simp add: camessage_def)

text \<open>A server that lists the functions it has called, and a client of it.\<close>

definition log_server :: "action list server_ops" where
  "log_server = \<lparr>handler = (\<lambda>a m body s. Inr (RSRV_OK, body, s @ [a])), send_err = (\<lambda>m e s. s),
     casExpandRecvBuffer = (\<lambda>n r. r)\<rparr>"

interpretation logged: calm_server log_server fits
  by unfold_locales (auto simp: log_server_def)

definition ex_msg :: "nat \<Rightarrow> nat \<Rightarrow> ca_msg" where
  "ex_msg c n = \<lparr>m_dataType = 0, m_count = 0, m_postsize = n, m_cmmd = c, m_cid = 1, m_available = 2\<rparr>"

definition ex_client :: "bytes \<Rightarrow> 's \<Rightarrow> 's ca_client" where
  "ex_client b s = \<lparr>recv_c = \<lparr>buf_v = b, cnt_v = length b, stk_v = 0, maxstk_v = 16384\<rparr>,
     recvBytesToDrain_c = 0, v49_c = True, tcp_c = True, served_c = s\<rparr>"

lemma ex_client_fields [simp]:
  "tcp_c (ex_client b s)" "recvBytesToDrain_c (ex_client b s) = 0" "v49_c (ex_client b s)"
  "maxstk_v (recv_c (ex_client b s)) = 16384" "served_c (ex_client b s) = s"
  "stk_v (recv_c (ex_client b s)) = 0" "cnt_v (recv_c (ex_client b s)) = length b"
  "buf_v (recv_c (ex_client b s)) = b"
  by (simp_all add: ex_client_def)

lemma ex_client_buffered: "length b < 4294967296 \<Longrightarrow> buffered (ex_client b s) b []"
  by (simp add: buffered_def ex_client_def)

theorem complete_messages_are_served_witness:
  "\<exists>c'. camessage log_server (ex_client (encode_msgs [(False, ex_msg 9 8, replicate 8 0), (False, ex_msg 8 0, [])]
        @ take 5 (encode_header False (ex_msg 4 0))) []) = Some (Inr (RSRV_OK, c'))
    \<and> served_c c' = [events_on_action, events_off_action] \<and> stk_v (recv_c c') = 40"
proof -
  let ?ms = "[(False, ex_msg 9 8, replicate 8 0), (False, ex_msg 8 0, [])]"
  let ?p = "take 5 (encode_header False (ex_msg 4 0))" and ?q = "drop 5 (encode_header False (ex_msg 4 0))"
  let ?c = "ex_client (encode_msgs ?ms @ ?p) []"
  have f: "tcp_c ?c" "recvBytesToDrain_c ?c = 0" by simp_all
  have b: "buffered ?c (encode_msgs ?ms @ ?p) []" by (rule ex_client_buffered) simp
  have ld: "\<forall>x \<in> set ?ms. loadable (\<lambda>m. True) (v49_c ?c) (maxstk_v (recv_c ?c)) x"
    by (simp add: loadable_def msg_ok_def ex_msg_def)
  have n: "?p @ ?q = encode_msg (False, ex_msg 4 0, [])" "?q \<noteq> []"
      "loadable (\<lambda>m. True) (v49_c ?c) (maxstk_v (recv_c ?c)) (False, ex_msg 4 0, [])"
    by (simp_all add: encode_msg_def loadable_def msg_ok_def ex_msg_def)
  have "serve log_server ?ms (?p @ []) (served_c ?c) = Some [events_on_action, events_off_action]"
    by (simp add: log_server_def ex_msg_def tcpJumpTable_def)
  from complete_messages_are_served [OF logged.calm_server_axioms f(1,2) b ld n this]
  show ?thesis by auto
qed

subsection \<open>A size that wraps around\<close>

text \<open>
  The beginning of a large message whose size, with its header of 24 bytes, is 2 to the 32, and a
  command whose function always succeeds.
\<close>

definition wrapped :: "'s server_ops \<Rightarrow> 's ca_client \<Rightarrow> bool" where
  "wrapped V c \<longleftrightarrow> (\<exists>m rest. buffered c (encode_header True m @ rest) (drop (cnt_v (recv_c c)) (buf_v (recv_c c)))
     \<and> m_postsize m = 4294967272 \<and> m_cmmd m < 28 \<and> m_dataType m < 65536 \<and> m_count m < 4294967296
     \<and> m_cid m < 4294967296 \<and> m_available m < 4294967296
     \<and> (\<forall>body s. \<exists>body' s'. handler V (tcpJumpTable ! m_cmmd m) m body s = Inr (RSRV_OK, body', s')
          \<and> length body' = length body))
     \<and> v49_c c \<and> tcp_c c \<and> 0 < maxstk_v (recv_c c)"

lemma read_header_wrapped:
  assumes "m_postsize m = 4294967272" "m_cmmd m < 65536" "m_dataType m < 65536" "m_count m < 4294967296"
    "m_cid m < 4294967296" "m_available m < 4294967296" "24 \<le> n"
  shows "read_header True (encode_header True m @ rest) n = Some (m, 0, 24)"
proof -
  let ?b = "encode_header True m @ rest"
  note f = fields_small [of ?b True m, simplified]
  have g: "field ?b 16 4 = 4294967272" "field ?b 20 4 = m_count m"
    using assms by (simp_all add: field_def encode_header_def u32_id)
  show ?thesis
    using assms f g by (cases m) (auto simp: read_header_def u32_id, simp_all add: u32_def)
qed

lemma wrapped_step:
  assumes "wrapped V c"
  shows "\<exists>c'. message_step V c = Inr (c', None) \<and> wrapped V c'"
proof -
  obtain m rest where m: "drop (stk_v (recv_c c)) (buf_v (recv_c c)) = (encode_header True m @ rest)
        @ drop (cnt_v (recv_c c)) (buf_v (recv_c c))"
      "cnt_v (recv_c c) = stk_v (recv_c c) + length (encode_header True m @ rest)" "cnt_v (recv_c c) < 4294967296"
      "m_postsize m = 4294967272" "m_cmmd m < 28" "m_dataType m < 65536" "m_count m < 4294967296"
      "m_cid m < 4294967296" "m_available m < 4294967296"
      "\<forall>body s. \<exists>body' s'. handler V (tcpJumpTable ! m_cmmd m) m body s = Inr (RSRV_OK, body', s')
          \<and> length body' = length body"
      "v49_c c" "tcp_c c" "0 < maxstk_v (recv_c c)"
    using assms unfolding wrapped_def buffered_def by blast
  let ?r = "recv_c c"
  obtain body' s' where h: "handler V (tcpJumpTable ! m_cmmd m) m (drop (stk_v ?r + 24) (buf_v ?r)) (served_c c)
      = Inr (RSRV_OK, body', s')" "length body' = length (drop (stk_v ?r + 24) (buf_v ?r))"
    using m(10) by blast
  let ?c = "c\<lparr>recv_c := ?r\<lparr>buf_v := take (stk_v ?r + 24) (buf_v ?r) @ body'\<rparr>, served_c := s'\<rparr>"
  have left: "u32_sub (cnt_v ?r) (stk_v ?r) = 24 + length rest"
    using m(2,3) by (simp add: u32_sub_id)
  have rd: "read_header (v49_c c) (drop (stk_v ?r) (buf_v ?r)) (24 + length rest) = Some (m, 0, 24)"
    unfolding m(1) using m(4-9,11) read_header_wrapped [of m] by simp
  have u: "u32 (stk_v ?r) = stk_v ?r" using m(2,3) by (simp add: u32_id)
  have "dispatch V True m (drop (stk_v ?r + 24) (buf_v ?r)) (served_c c) = Inr (None, body', s')"
    using m(5) h(1) by (simp add: dispatch_def tcpJumpTable_def [THEN arg_cong, of length])
  then have step: "message_step V c = Inr (?c, None)"
    unfolding message_step_def Let_def left rd using m(12,13) u by simp
  have len: "stk_v ?r + 24 \<le> length (buf_v ?r)"
    using arg_cong [OF m(1), of length] m(2) by simp
  have cnt: "cnt_v ?r \<le> length (buf_v ?r)"
    using arg_cong [OF m(1), of length] m(2) by simp
  have "take 24 (drop (stk_v ?r) (buf_v ?r)) = encode_header True m"
    unfolding m(1) by simp
  then have e: "drop (stk_v ?r) (take (stk_v ?r + 24) (buf_v ?r)) = encode_header True m"
    by (simp add: drop_take)
  have "drop (stk_v ?r) (buf_v (recv_c ?c)) = encode_header True m @ body'"
    using len e by simp
  also have "\<dots> = (encode_header True m @ take (length rest) body') @ drop (cnt_v ?r) (buf_v (recv_c ?c))"
    using len m(2) by simp
  finally have "buffered ?c (encode_header True m @ take (length rest) body')
      (drop (cnt_v (recv_c ?c)) (buf_v (recv_c ?c)))"
    using m(2,3) h(2) len cnt by (simp add: buffered_def)
  then have "wrapped V ?c"
    unfolding wrapped_def using m(4-13)
    by (intro conjI exI [of _ m] exI [of _ "take (length rest) body'"]) simp_all
  then show ?thesis using step by blast
qed

lemma message_loop_wrapped:
  assumes "message_loop V c = Some r"
  shows "\<not> wrapped V c"
proof -
  have "(\<lambda>(V, c) y. \<not> wrapped V c) (V, c) r"
  proof (rule message_loop.raw_induct [OF _ assms], goal_cases)
    case (1 loop V c r)
    show ?case
    proof (unfold prod.case, rule notI)
      assume "wrapped V c"
      then obtain c' where c': "message_step V c = Inr (c', None)" "wrapped V c'"
        using wrapped_step by blast
      then have "loop V c' = Some r" using 1(2) by simp
      from 1(1) [OF this] c'(2) show False by simp
    qed
  qed
  then show ?thesis by simp
qed

text \<open>
  (C27) A client that announces a large message whose size wraps around to 0 keeps the server's
  loop busy for ever, with a command that needs nothing else: the loop serves the same message
  again and again.
\<close>

theorem wrapped_size_never_returns:
  assumes "wrapped V c" and "recvBytesToDrain_c c = 0"
  shows "camessage V c = None"
  using assms message_loop_wrapped [of V c] by (cases "message_loop V c") (auto simp: camessage_def)

theorem wrapped_size_never_returns_witness:
  "camessage log_server (ex_client (encode_header True (ex_msg 9 4294967272)) []) = None"
proof (rule wrapped_size_never_returns)
  let ?c = "ex_client (encode_header True (ex_msg 9 4294967272)) [] :: action list ca_client"
  have "buffered ?c (encode_header True (ex_msg 9 4294967272) @ []) (drop (cnt_v (recv_c ?c)) (buf_v (recv_c ?c)))"
    by (simp add: buffered_def)
  then show "wrapped log_server ?c"
    unfolding wrapped_def
    by (intro conjI exI [of _ "ex_msg 9 4294967272"] exI [of _ "[]"])
      (simp_all add: ex_msg_def log_server_def)
qed simp

end
