(* ===== verification/EpicsWire.thy ===== *)
theory EpicsWire
  imports EpicsStamp EpicsServerLoop
begin

section \<open>From the client's put to the server's record\<close>

text \<open>
  The two patched sides together: the message that \<open>ca_array_put\<close> builds, as bytes on the wire, is
  taken apart by \<open>camessage\<close> and given to \<open>write_action\<close>.
\<close>

subsection \<open>Items as bytes\<close>

text \<open>
  \<open>comBuf\<close> is not part of the repository: it puts numbers and elements in network order and leaves
  characters as they are.
\<close>

locale com_buf =
  fixes W :: "push_item \<Rightarrow> bytes"
  assumes push16: "W (Push16 n) = be16 n"
    and push32: "W (Push32 n) = be32 n"
    and chars: "W (PushElems K_char b) = b"
    and elems: "length (W (PushElems k b)) = length b"
begin

lemma write_message:
  "concat (map W [Push16 c, Push16 p, Push16 t, Push16 n, Push32 sid, Push32 cid, PushElems k v, PushElems K_char ts])
   = encode_header False \<lparr>m_dataType = t, m_count = n, m_postsize = p, m_cmmd = c, m_cid = sid, m_available = cid\<rparr>
     @ W (PushElems k v) @ ts"
  by (simp add: encode_header_def push16 push32 chars)

end

text \<open>Elements on a host whose byte order is that of the network.\<close>

fun ref_wire :: "push_item \<Rightarrow> bytes" where
  "ref_wire (Push16 n) = be16 n"
| "ref_wire (Push32 n) = be32 n"
| "ref_wire (PushElems k b) = b"
| "ref_wire (PushBytes b) = b"

interpretation ref_wire: com_buf ref_wire
  by unfold_locales simp_all

subsection \<open>The server with its write function\<close>

text \<open>\<open>env i\<close> is what \<open>write_action\<close> meets for the channel \<open>i\<close>; its results are listed.\<close>

definition with_write ::
  "ca_proto \<Rightarrow> (nat \<Rightarrow> write_env) \<Rightarrow> write_result list server_ops \<Rightarrow> write_result list server_ops" where
  "with_write Pr env V = V\<lparr>handler := (\<lambda>a m body s.
     if a = A_write_action then
       (case write_action Pr (env (m_cid m)) (ca_header.truncate m) body of
          Inl e \<Rightarrow> Inl e
        | Inr r \<Rightarrow> Inr (wr_result r, (case wr_put r of Some (_, _, data) \<Rightarrow> data | None \<Rightarrow> body), s @ [r]))
     else handler V a m body s)\<rparr>"

text \<open>The conversion is done in place and touches the elements of the message only.\<close>

definition conv_ok :: "ca_proto \<Rightarrow> write_env \<Rightarrow> bool" where
  "conv_ok Pr E \<longleftrightarrow> (\<forall>t n body rest. dbr_size_n Pr t n \<le> length body \<longrightarrow>
     (\<exists>st b. caNetConvert E t n (body @ rest) = (st, b @ rest) \<and> length b = length body))"

definition value_fits :: "ca_proto \<Rightarrow> ca_msg \<Rightarrow> bool" where
  "value_fits Pr m \<longleftrightarrow> dbr_size_n Pr (m_dataType m) (m_count m) \<le> m_postsize m"

lemma write_keeps_rest:
  assumes "conv_ok Pr E" and "dbr_size_n Pr (m_dataType mp) (m_count mp) \<le> length body"
    and "write_action Pr E mp (body @ rest) = Inr r"
  shows "\<exists>b. (case wr_put r of Some (_, _, data) \<Rightarrow> data | None \<Rightarrow> body @ rest) = b @ rest \<and> length b = length body"
proof -
  obtain st b where "caNetConvert E (m_dataType mp) (m_count mp) (body @ rest) = (st, b @ rest)" "length b = length body"
    using assms(1,2) unfolding conv_ok_def by blast
  then show ?thesis
    using assms(3) by (auto simp: write_action_def Let_def split: if_splits)
qed

lemma with_write_calm:
  assumes "calm_server V (value_fits Pr)" and "\<forall>i. conv_ok Pr (env i)"
  shows "calm_server (with_write Pr env V) (value_fits Pr)"
proof
  fix a m body rest s st body' s'
  assume h: "handler (with_write Pr env V) a m (body @ rest) s = Inr (st, body', s')" "value_fits Pr m"
    "length body = m_postsize m"
  show "\<exists>b. body' = b @ rest \<and> length b = length body"
  proof (cases "a = A_write_action")
    case False
    then show ?thesis
      using h calm_server.keeps_rest [OF assms(1)] by (simp add: with_write_def)
  next
    case True
    then obtain r where r: "write_action Pr (env (m_cid m)) (ca_header.truncate m) (body @ rest) = Inr r"
        "body' = (case wr_put r of Some (_, _, data) \<Rightarrow> data | None \<Rightarrow> body @ rest)"
      using h(1) by (auto simp: with_write_def split: sum.splits)
    have "dbr_size_n Pr (m_dataType (ca_header.truncate m)) (m_count (ca_header.truncate m)) \<le> length body"
      using h(2,3) by (simp add: value_fits_def ca_header.defs)
    from write_keeps_rest [OF _ this r(1)] assms(2) r(2) show ?thesis by simp
  qed
qed

text \<open>An instance whose other functions have nothing to do.\<close>

definition idle_server :: "'s server_ops" where
  "idle_server = \<lparr>handler = (\<lambda>a m body s. Inr (RSRV_OK, body, s)), send_err = (\<lambda>m e s. s),
     casExpandRecvBuffer = (\<lambda>n r. r)\<rparr>"

interpretation idle: calm_server idle_server fits
  by unfold_locales (auto simp: idle_server_def)

lemma ex_conv: "conv_ok Pr ex_env"
  by (auto simp: conv_ok_def ex_env_def)

interpretation ref_write: calm_server "with_write ref_proto (\<lambda>i. ex_env) idle_server" "value_fits ref_proto"
  by (rule with_write_calm [OF idle.calm_server_axioms]) (simp add: ex_conv)

subsection \<open>A put with its time stamp, through both sides\<close>

definition receiving :: "'s ca_client \<Rightarrow> bytes \<Rightarrow> bytes \<Rightarrow> bool" where
  "receiving c b rest \<longleftrightarrow> tcp_c c \<and> recvBytesToDrain_c c = 0 \<and> buffered c b rest
     \<and> length b \<le> maxstk_v (recv_c c)"

lemma stamped_put_effect:
  assumes "ca_protocol Pr" and "com_buf W" and wr: "writable chan t n (length v)" and ts: "length ts = 8"
    and acc: "accepting (env (sid_n chan)) t n (W (PushElems (plain_kinds ! t) v)) v"
  shows "\<exists>items. ca_array_put Pr chan (int t + 32768) n (v @ ts @ rest) = Some (ECA_NORMAL, items)
    \<and> (\<forall>c more. receiving c (concat (map W items)) more \<longrightarrow>
         (\<exists>c' r. camessage (with_write Pr env V) c = Some (Inr (RSRV_OK, c')) \<and> served_c c' = served_c c @ [r]
           \<and> wr_result r = RSRV_OK \<and> wr_error r = None \<and> wr_time r = Some ts
           \<and> wr_put r = Some (t, n, v @ ts @ more) \<and> buffered c' [] more))"
proof -
  have put: "ca_array_put Pr chan (int t + 32768) n (v @ ts @ rest) =
      Some (ECA_NORMAL, [Push16 CA_PROTO_WRITE, Push16 (length v + 8), Push16 t, Push16 n,
        Push32 (sid_n chan), Push32 (cid_n chan), PushElems (plain_kinds ! t) v, PushElems K_char ts])"
    (is "_ = Some (_, ?items)")
    by (rule stamped_put_sent [OF assms(1,3,4)])
  have "\<exists>c' r. camessage (with_write Pr env V) c = Some (Inr (RSRV_OK, c')) \<and> served_c c' = served_c c @ [r]
           \<and> wr_result r = RSRV_OK \<and> wr_error r = None \<and> wr_time r = Some ts
           \<and> wr_put r = Some (t, n, v @ ts @ more) \<and> buffered c' [] more"
    if rc: "receiving c (concat (map W ?items)) more" for c :: "write_result list ca_client" and more
  proof -
    let ?raw = "W (PushElems (plain_kinds ! t) v)"
    let ?m = "\<lparr>m_dataType = t, m_count = n, m_postsize = length v + 8, m_cmmd = CA_PROTO_WRITE,
        m_cid = sid_n chan, m_available = cid_n chan\<rparr>"
    have raw: "length ?raw = length v" using com_buf.elems [OF assms(2)] .
    have items: "concat (map W ?items) = encode_header False ?m @ (?raw @ ts)"
      using com_buf.write_message [OF assms(2)] by simp
    have w: "t < 7" "8 dvd length v" "length v + 8 < 65535"
        "sid_n chan < 4294967296" "cid_n chan < 4294967296" "0 < n" "n \<le> n * plain_size t"
        "length v = n * plain_size t"
      using wr plain_size_pos [of t] by (auto simp: writable_def)
    have n: "n < 65536" using w(3,7,8) by linarith
    have ok: "msg_ok (v49_c c) False ?m"
      using w(1-5) n by (simp add: msg_ok_def CA_PROTO_WRITE_def)
    obtain r where r: "write_action Pr (env (sid_n chan)) \<lparr>m_dataType = t, m_count = n, m_postsize = length v + 8\<rparr>
          (?raw @ ts @ more) = Inr r" "wr_result r = RSRV_OK" "wr_error r = None" "wr_time r = Some ts"
        "wr_put r = Some (t, n, v @ ts @ more)"
      using stamped_write_received [OF assms(1,3,4,5)] by blast
    have h: "handler (with_write Pr env V) (tcpJumpTable ! m_cmmd ?m) ?m ((?raw @ ts) @ more) (served_c c)
        = Inr (RSRV_OK, v @ ts @ more, served_c c @ [r])"
      using r by (simp add: with_write_def tcpJumpTable_def CA_PROTO_WRITE_def ca_header.defs)
    let ?r = "recv_c c"
    have b: "drop (stk_v ?r) (buf_v ?r) = encode_header False ?m @ (?raw @ ts) @ more"
        "cnt_v ?r = stk_v ?r + (16 + (length v + 8))" "cnt_v ?r < 4294967296" "tcp_c c" "recvBytesToDrain_c c = 0"
        "16 + (length v + 8) \<le> maxstk_v ?r"
      using rc raw ts unfolding receiving_def items buffered_def by simp_all
    let ?c1 = "c\<lparr>recv_c := ?r\<lparr>buf_v := take (stk_v ?r + 16) (buf_v ?r) @ v @ ts @ more,
        stk_v := stk_v ?r + 16 + m_postsize ?m\<rparr>, served_c := served_c c @ [r]\<rparr>"
    have step: "message_step (with_write Pr env V) c = Inr (?c1, None)"
      using message_step_whole [OF ok _ b(1) _ b(3) _ b(4) _ h] b raw ts by (simp add: CA_PROTO_WRITE_def)
    have len: "stk_v ?r + 16 \<le> length (buf_v ?r)"
      using arg_cong [OF b(1), of length] by simp
    then have b1: "buffered ?c1 [] more"
      using b ts by (simp add: buffered_def)
    have "message_step (with_write Pr env V) ?c1 = Inr (?c1, Some RSRV_OK)"
      using b by (simp add: message_step_def read_header_def Let_def u32_sub_id)
    then have "message_loop (with_write Pr env V) ?c1 = Some (Inr (RSRV_OK, ?c1))"
      by (subst message_loop.simps) simp
    then have "camessage (with_write Pr env V) c = Some (Inr (RSRV_OK, ?c1))"
      using b(5) unfolding camessage_def by (subst message_loop.simps) (simp add: step)
    then show ?thesis using r b1 by (intro exI [of _ ?c1] exI [of _ r]) simp
  qed
  then show ?thesis using put by blast
qed

text \<open>
  (C25) A time stamp survives the way of a put through the patched library and server when the size
  of the value is a multiple of 8. The put sends one message; when the server has received it, its
  loop calls the write function with it, and the record is given the stamp, and the put the value.
\<close>

theorem stamped_put_arrives:
  assumes "ca_protocol Pr" and "com_buf W" and "writable chan t n (length v)" and "length ts = 8"
    and "accepting (env (sid_n chan)) t n (W (PushElems (plain_kinds ! t) v)) v"
  shows "\<exists>items. ca_array_put Pr chan (int t + 32768) n (v @ ts @ rest) = Some (ECA_NORMAL, items)
    \<and> (\<forall>c more. receiving c (concat (map W items)) more \<longrightarrow>
         (\<exists>c' r. camessage (with_write Pr env V) c = Some (Inr (RSRV_OK, c')) \<and> served_c c' = served_c c @ [r]
           \<and> wr_result r = RSRV_OK \<and> wr_error r = None \<and> wr_time r = Some ts
           \<and> wr_put r = Some (t, n, v @ ts @ more) \<and> buffered c' [] more))"
  by (rule stamped_put_effect [where env = env, OF assms])

theorem stamped_put_arrives_witness:
  "\<exists>items c' r. ca_array_put ref_proto ex_chan 32773 2 ([1, 2, 3, 4, 5, 6, 7, 8] @ replicate 8 9 @ [])
      = Some (ECA_NORMAL, items)
    \<and> camessage (with_write ref_proto (\<lambda>i. ex_env) idle_server) (ex_client (concat (map ref_wire items)) [])
      = Some (Inr (RSRV_OK, c'))
    \<and> served_c c' = [r] \<and> wr_time r = Some (replicate 8 9)"
proof -
  let ?v = "[1, 2, 3, 4, 5, 6, 7, 8] :: bytes" and ?ts = "replicate 8 9 :: bytes"
  have "length ?v = 8" "writable ex_chan 5 2 8"
    by (simp_all add: writable_def ex_chan_def plain_kinds_def)
  then have w: "writable ex_chan 5 2 (length ?v)" "length ?ts = 8" by (simp_all only: length_replicate)
  have a: "accepting ex_env 5 2 (ref_wire (PushElems (plain_kinds ! 5) ?v)) ?v"
    by (simp add: accepting_def ex_env_def)
  obtain items where items: "ca_array_put ref_proto ex_chan (int 5 + 32768) 2 (?v @ ?ts @ []) = Some (ECA_NORMAL, items)"
    and all: "\<And>c more. receiving c (concat (map ref_wire items)) more \<Longrightarrow>
      \<exists>c' r. camessage (with_write ref_proto (\<lambda>i. ex_env) idle_server) c = Some (Inr (RSRV_OK, c'))
        \<and> served_c c' = served_c c @ [r] \<and> wr_time r = Some ?ts"
    using stamped_put_arrives [where env = "\<lambda>i. ex_env", OF ref_proto.ca_protocol_axioms ref_wire.com_buf_axioms w a,
        of "[]" idle_server] by blast
  have "items = [Push16 CA_PROTO_WRITE, Push16 (length ?v + 8), Push16 5, Push16 2, Push32 (sid_n ex_chan),
      Push32 (cid_n ex_chan), PushElems (plain_kinds ! 5) ?v, PushElems K_char ?ts]"
    using stamped_put_sent [OF ref_proto.ca_protocol_axioms w, of "[]"] items by simp
  then have "length (concat (map ref_wire items)) = 32" by simp
  then have "receiving (ex_client (concat (map ref_wire items)) []) (concat (map ref_wire items)) []"
    by (simp add: receiving_def ex_client_buffered)
  from all [OF this] items show ?thesis by auto
qed

end
