(* ===== verification/EpicsChannel.thy ===== *)
theory EpicsChannel
  imports EpicsPatch PvTypes
begin

section \<open>A channel of the client library\<close>

text \<open>
  The state of a channel between the two threads that use it: \<open>nciu\<close> (nciu.cpp), which the library
  connects and disconnects, and \<open>oldChannelNotify\<close> (oldChannelNotify.cpp), which the application
  asks with \<open>ca_state\<close>, \<open>ca_element_count\<close> and \<open>ca_field_type\<close>. What a channel tells the context
  (\<open>cac\<close>, \<open>ca_client_context\<close>) and the callbacks of the application is a list of calls; the
  callbacks are taken not to change the channel, the requests pending on it (\<open>eventq\<close>) belong to
  the context, and \<open>eliminateExcessiveSendBacklog\<close> to find
  nothing to do. Whether a channel is connected (\<open>channelNode\<close>) is
  set by the circuit, which is not modelled.
\<close>

record client_chan =
  connected_k :: bool
  typeCode_k :: nat
  count_k :: nat
  sid_k :: nat
  retry_k :: nat
  nameLength_k :: nat
  pNameStr_k :: bytes
  readPermit_k :: bool
  writePermit_k :: bool
  connCallBack_k :: bool \<comment> \<open>\<open>pConnCallBack\<close> is not NULL\<close>
  rightsFunc_k :: bool \<comment> \<open>\<open>pAccessRightsFunc\<close> is not the one that does nothing\<close>
  currentlyConnected_k :: bool
  prevConnected_k :: bool

datatype chan_call =
    Increment_IO | Decrement_IO | Conn_Up | Conn_Down | Access_Rights bool bool | Clear_Channel nat

type_synonym chan_step = "client_chan \<times> chan_call list"

subsection \<open>nciu\<close>

text \<open>
  The constructor: \<open>maxName\<close> is \<open>MAX_UDP_SEND - sizeof(caHdr)\<close>. The permissions are those of a new
  \<open>caAccessRights\<close>: none.
\<close>

definition new_nciu :: "nat \<Rightarrow> bytes \<Rightarrow> nat \<Rightarrow> bool \<Rightarrow> ca_exc + client_chan" where
  "new_nciu maxName pNameIn pri connCallBack =
     (let nameLengthTmp = length pNameIn + 1
      in if nameLengthTmp > maxName \<or> nameLengthTmp > 65535 then Inl Bad_String
         else if pri > 255 then Inl Bad_Priority
         else Inr \<lparr>connected_k = False, typeCode_k = 65535, count_k = 0, sid_k = 4294967295, retry_k = 0,
                nameLength_k = nameLengthTmp, pNameStr_k = pNameIn, readPermit_k = False,
                writePermit_k = False, connCallBack_k = connCallBack, rightsFunc_k = False,
                currentlyConnected_k = False, prevConnected_k = False\<rparr>)"

text \<open>The notifications of \<open>oldChannelNotify\<close>.\<close>

definition connectNotify :: "client_chan \<Rightarrow> chan_step" where
  "connectNotify k =
     (k\<lparr>currentlyConnected_k := True, prevConnected_k := True\<rparr>,
      if connCallBack_k k then [Conn_Up] else [Decrement_IO])"

definition disconnectNotify :: "client_chan \<Rightarrow> chan_step" where
  "disconnectNotify k =
     (k\<lparr>currentlyConnected_k := False\<rparr>, if connCallBack_k k then [Conn_Down] else [Increment_IO])"

definition accessRightsNotify :: "bool \<Rightarrow> bool \<Rightarrow> client_chan \<Rightarrow> chan_call list" where
  "accessRightsNotify r w k = (if rightsFunc_k k then [Access_Rights r w] else [])"

text \<open>\<open>dbf_type_is_valid\<close> and the version of the circuit are arguments; \<open>None\<close> is the exception.\<close>

definition nciu_connect ::
  "(nat \<Rightarrow> bool) \<Rightarrow> bool \<Rightarrow> nat \<Rightarrow> nat \<Rightarrow> nat \<Rightarrow> client_chan \<Rightarrow> chan_step option" where
  "nciu_connect dbf_type_is_valid v41Ok nativeType nativeCount sidIn k =
     (if \<not> dbf_type_is_valid nativeType then None
      else
        (let k = k\<lparr>typeCode_k := nativeType mod 65536, count_k := nativeCount, sid_k := sidIn\<rparr>;
             k = (if \<not> v41Ok then k\<lparr>readPermit_k := True, writePermit_k := True\<rparr> else k);
             calls = (if \<not> v41Ok then accessRightsNotify (readPermit_k k) (writePermit_k k) k else []);
             (k, calls1) = connectNotify k
         in Some (k, calls @ calls1)))"

text \<open>\<open>exists\<close> says whether the channel still exists after the notification.\<close>

definition unresponsiveCircuitNotify :: "bool \<Rightarrow> client_chan \<Rightarrow> chan_step" where
  "unresponsiveCircuitNotify exists k =
     (case disconnectNotify k of
        (k, calls) \<Rightarrow> (k, calls @ (if exists then accessRightsNotify False False k else [])))"

definition setServerAddressUnknown :: "client_chan \<Rightarrow> client_chan" where
  "setServerAddressUnknown k = k\<lparr>retry_k := 0, typeCode_k := 65535, count_k := 0,
     sid_k := 4294967295, readPermit_k := False, writePermit_k := False\<rparr>"

definition serviceShutdownNotify :: "client_chan \<Rightarrow> chan_step" where
  "serviceShutdownNotify k = disconnectNotify (setServerAddressUnknown k)"

definition accessRightsStateChange :: "bool \<Rightarrow> bool \<Rightarrow> client_chan \<Rightarrow> chan_step" where
  "accessRightsStateChange r w k =
     (let k = k\<lparr>readPermit_k := r, writePermit_k := w\<rparr>
      in (k, accessRightsNotify (readPermit_k k) (writePermit_k k) k))"

text \<open>\<open>sent\<close> is the result of the circuit's \<open>searchMsg\<close>.\<close>

definition searchMsg :: "bool \<Rightarrow> client_chan \<Rightarrow> client_chan \<times> bool" where
  "searchMsg sent k =
     (if sent \<and> retry_k k < 4294967295 then k\<lparr>retry_k := retry_k k + 1\<rparr> else k, sent)"

text \<open>\<open>getName\<close>: the characters written to the buffer, and the length returned.\<close>

definition getName :: "nat \<Rightarrow> client_chan \<Rightarrow> bytes \<times> nat" where
  "getName bufLen k =
     (if bufLen = 0 then ([], 0)
      else if nameLength_k k < bufLen then (pNameStr_k k @ [0], nameLength_k k)
      else (take (bufLen - 1) (pNameStr_k k @ replicate bufLen 0) @ [0], bufLen - 1))"

definition nativeType :: "client_chan \<Rightarrow> int" where
  "nativeType k = (if connected_k k \<and> typeCode_k k < 32767 then int (typeCode_k k) else -1)"

definition nativeElementCount :: "client_chan \<Rightarrow> nat" where
  "nativeElementCount k = (if connected_k k then count_k k else 0)"

text \<open>\<open>nciu::read\<close>: its checks, and \<open>request\<close>, the outcome of the request that the context makes.\<close>

definition nciu_read :: "ca_proto \<Rightarrow> ca_exc + unit \<Rightarrow> client_chan \<Rightarrow> nat \<Rightarrow> nat \<Rightarrow> ca_exc + unit" where
  "nciu_read Pr request k type countIn =
     (if \<not> connected_k k then Inl Not_Connected
      else if \<not> readPermit_k k then Inl No_Read_Access
      else if countIn > count_k k then Inl Out_Of_Range
      else if INVALID_DB_REQ Pr type then Inl Bad_Type
      else request)"

text \<open>\<open>destroy\<close>: the server is told, when the channel is installed there.\<close>

definition nciu_destroy :: "bool \<Rightarrow> client_chan \<Rightarrow> chan_call list" where
  "nciu_destroy isInstalledInServer k = (if isInstalledInServer then [Clear_Channel (sid_k k)] else [])"

subsection \<open>oldChannelNotify\<close>

definition new_channel :: "nat \<Rightarrow> bytes \<Rightarrow> nat \<Rightarrow> bool \<Rightarrow> ca_exc + chan_step" where
  "new_channel maxName pName pri connCallBack =
     (case new_nciu maxName pName pri connCallBack of
        Inl e \<Rightarrow> Inl e
      | Inr k \<Rightarrow> Inr (k, if \<not> connCallBack then [Increment_IO] else []))"

definition channel_destructor :: "bool \<Rightarrow> client_chan \<Rightarrow> chan_call list" where
  "channel_destructor isInstalledInServer k =
     nciu_destroy isInstalledInServer k
     @ (if \<not> connCallBack_k k \<and> \<not> currentlyConnected_k k then [Decrement_IO] else [])"

definition ca_change_connection_event :: "bool \<Rightarrow> client_chan \<Rightarrow> chan_step" where
  "ca_change_connection_event pfunc k =
     (k\<lparr>connCallBack_k := pfunc\<rparr>,
      if \<not> currentlyConnected_k k then
        (if pfunc then (if \<not> connCallBack_k k then [Decrement_IO] else [])
         else (if connCallBack_k k then [Increment_IO] else []))
      else [])"

definition ca_replace_access_rights_event :: "bool \<Rightarrow> client_chan \<Rightarrow> chan_step" where
  "ca_replace_access_rights_event pfunc k =
     (let k = k\<lparr>rightsFunc_k := pfunc\<rparr>
      in (k, if currentlyConnected_k k then accessRightsNotify (readPermit_k k) (writePermit_k k) k else []))"

definition ca_state_of :: "client_chan \<Rightarrow> channel_state" where
  "ca_state_of k =
     (if connected_k k then Cs_conn else if prevConnected_k k then Cs_prev_conn else Cs_never_conn)"

text \<open>What \<open>cainfo\<close> reads of a channel; \<open>dbf\<close> names the type of a number.\<close>

definition info_of :: "(int \<Rightarrow> dbf_type) \<Rightarrow> client_chan \<Rightarrow> ca_channel" where
  "info_of dbf k = \<lparr>ca_state = ca_state_of k, ca_element_count = nativeElementCount k,
     ca_field_type = dbf (nativeType k)\<rparr>"

text \<open>The exceptions of a read become these codes.\<close>

fun get_status_of :: "ca_exc \<Rightarrow> ca_status option" where
  "get_status_of Bad_String = Some ECA_BADSTR"
| "get_status_of Bad_Type = Some ECA_BADTYPE"
| "get_status_of Out_Of_Range = Some ECA_BADCOUNT"
| "get_status_of No_Read_Access = Some ECA_NORDACCESS"
| "get_status_of Not_Connected = Some ECA_DISCONN"
| "get_status_of No_Write_Access = Some ECA_GETFAIL"
| "get_status_of Bad_Priority = Some ECA_GETFAIL"
| "get_status_of Bad_Event_Selection = Some ECA_GETFAIL"
| "get_status_of Unsupported_By_Service = Some ECA_UNAVAILINSERV"
| "get_status_of Request_Timed_Out = Some ECA_TIMEOUT"
| "get_status_of No_Memory = Some ECA_ALLOCMEM"
| "get_status_of Body_Too_Small = Some ECA_TOLARGE"
| "get_status_of Other_Exception = Some ECA_GETFAIL"
| "get_status_of (Undefined f) = None"

definition ca_array_get :: "ca_proto \<Rightarrow> ca_exc + unit \<Rightarrow> client_chan \<Rightarrow> int \<Rightarrow> nat \<Rightarrow> ca_status option" where
  "ca_array_get Pr request k type cnt =
     (if type < 0 then Some ECA_BADTYPE
      else if cnt = 0 then Some ECA_BADCOUNT
      else case nciu_read Pr request k (nat (type mod 4294967296)) cnt of
             Inl e \<Rightarrow> get_status_of e
           | Inr _ \<Rightarrow> Some ECA_NORMAL)"

definition ca_array_get_callback ::
  "ca_proto \<Rightarrow> ca_exc + unit \<Rightarrow> client_chan \<Rightarrow> int \<Rightarrow> nat \<Rightarrow> bool \<Rightarrow> ca_status option" where
  "ca_array_get_callback Pr request k type cnt pfunc =
     (if type < 0 then Some ECA_BADTYPE
      else if \<not> pfunc then Some ECA_BADFUNCPTR
      else case nciu_read Pr request k (nat (type mod 4294967296)) cnt of
             Inl e \<Rightarrow> get_status_of e
           | Inr _ \<Rightarrow> Some ECA_NORMAL)"

fun subscribe_status_of :: "ca_exc \<Rightarrow> ca_status option" where
  "subscribe_status_of Bad_Type = Some ECA_BADTYPE"
| "subscribe_status_of Out_Of_Range = Some ECA_BADCOUNT"
| "subscribe_status_of Bad_Event_Selection = Some ECA_BADMASK"
| "subscribe_status_of No_Read_Access = Some ECA_NORDACCESS"
| "subscribe_status_of Unsupported_By_Service = Some ECA_UNAVAILINSERV"
| "subscribe_status_of No_Memory = Some ECA_ALLOCMEM"
| "subscribe_status_of Body_Too_Small = Some ECA_TOLARGE"
| "subscribe_status_of (Undefined f) = None"
| "subscribe_status_of e = Some ECA_INTERNAL"

text \<open>
  \<open>ca_create_subscription\<close>: a subscription may be made before the connection; \<open>request\<close> is the
  outcome of the new \<open>oldSubscription\<close>.
\<close>

definition ca_create_subscription :: "ca_proto \<Rightarrow> ca_exc + unit \<Rightarrow> int \<Rightarrow> int \<Rightarrow> bool \<Rightarrow> ca_status option" where
  "ca_create_subscription Pr request type maskIn pCallBack =
     (if type < 0 then Some ECA_BADTYPE
      else if INVALID_DB_REQ Pr (nat type) then Some ECA_BADTYPE
      else if \<not> pCallBack then Some ECA_BADFUNCPTR
      else if maskIn mod 65536 = 0 then Some ECA_BADMASK
      else if maskIn div 65536 \<noteq> 0 then Some ECA_BADMASK
      else case request of
             Inl e \<Rightarrow> subscribe_status_of e
           | Inr _ \<Rightarrow> Some ECA_NORMAL)"

subsection \<open>The life of a channel\<close>

text \<open>
  A channel from its creation on, with all calls it has made. The circuit (tcpiiu.cpp) connects
  channels that are not connected and makes connected ones unresponsive. \<open>unlinkAllChannels\<close>
  shuts down all of them: those it has just created, those that wait for the answer of the
  server, those already unresponsive. The last argument counts how often a channel without a
  connection callback has been shut down when it was not connected.
\<close>

inductive channel_life :: "client_chan \<Rightarrow> chan_call list \<Rightarrow> nat \<Rightarrow> bool" where
  created: "new_channel maxName name pri cb = Inr (k, calls) \<Longrightarrow> channel_life k calls 0"
| circuit: "channel_life k calls late \<Longrightarrow> channel_life (k\<lparr>connected_k := b\<rparr>) calls late"
| connects: "channel_life k calls late \<Longrightarrow> \<not> currentlyConnected_k k \<Longrightarrow>
    nciu_connect valid v41Ok t n sid k = Some (k', calls') \<Longrightarrow> channel_life k' (calls @ calls') late"
| unresponsive: "channel_life k calls late \<Longrightarrow> currentlyConnected_k k \<Longrightarrow>
    unresponsiveCircuitNotify exists k = (k', calls') \<Longrightarrow> channel_life k' (calls @ calls') late"
| shut_down: "channel_life k calls late \<Longrightarrow> serviceShutdownNotify k = (k', calls') \<Longrightarrow>
    channel_life k' (calls @ calls')
      (if \<not> connCallBack_k k \<and> \<not> currentlyConnected_k k then late + 1 else late)"
| unknown: "channel_life k calls late \<Longrightarrow> channel_life (setServerAddressUnknown k) calls late"
| rights: "channel_life k calls late \<Longrightarrow> accessRightsStateChange r w k = (k', calls') \<Longrightarrow>
    channel_life k' (calls @ calls') late"
| searches: "channel_life k calls late \<Longrightarrow> channel_life (fst (searchMsg sent k)) calls late"
| connection_event: "channel_life k calls late \<Longrightarrow> ca_change_connection_event f k = (k', calls') \<Longrightarrow>
    channel_life k' (calls @ calls') late"
| rights_event: "channel_life k calls late \<Longrightarrow> ca_replace_access_rights_event f k = (k', calls') \<Longrightarrow>
    channel_life k' (calls @ calls') late"

text \<open>What the calls add to the number of requests that \<open>ca_pend_io\<close> waits for.\<close>

definition outstanding :: "chan_call list \<Rightarrow> int" where
  "outstanding calls = int (length (filter (\<lambda>c. c = Increment_IO) calls))
     - int (length (filter (\<lambda>c. c = Decrement_IO) calls))"

lemma outstanding_simps [simp]:
  "outstanding [] = 0" "outstanding (xs @ ys) = outstanding xs + outstanding ys"
  "outstanding (c # xs) = (if c = Increment_IO then 1 else if c = Decrement_IO then -1 else 0) + outstanding xs"
  by (simp_all add: outstanding_def)

definition awaited :: "client_chan \<Rightarrow> int" where
  "awaited k = (if \<not> connCallBack_k k \<and> \<not> currentlyConnected_k k then 1 else 0)"

lemmas channel_steps = new_channel_def new_nciu_def nciu_connect_def unresponsiveCircuitNotify_def
  serviceShutdownNotify_def setServerAddressUnknown_def accessRightsStateChange_def searchMsg_def
  ca_change_connection_event_def ca_replace_access_rights_event_def connectNotify_def
  disconnectNotify_def accessRightsNotify_def

lemma channel_life_awaited: "channel_life k calls late \<Longrightarrow> outstanding calls = awaited k + int late"
proof (induction rule: channel_life.induct)
  case (created maxName name pri cb k calls)
  then show ?case by (auto simp: channel_steps awaited_def Let_def split: if_splits)
qed (auto simp: channel_steps awaited_def Let_def split: if_splits)

text \<open>
  (C28) Whatever happens to a channel, the context waits for it once while it has no callback
  for its connection and is not connected, and once more for every time that it was shut down
  when it was not connected: the shutdown counts such a channel a second time. What was counted
  twice is never taken back, not even when the channel is destroyed; when no such shutdown has
  occurred, the context waits for nothing of it any more.
\<close>

theorem context_waits_for_unconnected:
  assumes "channel_life k calls late"
  shows "outstanding calls = (if \<not> connCallBack_k k \<and> \<not> currentlyConnected_k k then 1 else 0) + int late
    \<and> outstanding (calls @ channel_destructor inst k) = int late"
  using channel_life_awaited [OF assms] by (simp add: awaited_def channel_destructor_def nciu_destroy_def)

text \<open>
  A channel without callbacks, as the diode makes them, that is connected, becomes unresponsive
  and is then shut down.
\<close>

definition ex_new :: client_chan where
  "ex_new = \<lparr>connected_k = False, typeCode_k = 65535, count_k = 0, sid_k = 4294967295, retry_k = 0,
     nameLength_k = 2, pNameStr_k = [65], readPermit_k = False, writePermit_k = False,
     connCallBack_k = False, rightsFunc_k = False, currentlyConnected_k = False, prevConnected_k = False\<rparr>"

theorem context_waits_for_unconnected_witness:
  "\<exists>k calls. channel_life k calls 1 \<and> prevConnected_k k \<and> outstanding calls = 2
    \<and> outstanding (calls @ channel_destructor False k) = 1"
proof -
  let ?k1 = "ex_new\<lparr>typeCode_k := 5, count_k := 1, sid_k := 7, currentlyConnected_k := True, prevConnected_k := True\<rparr>"
  let ?k2 = "?k1\<lparr>currentlyConnected_k := False\<rparr>"
  let ?k3 = "setServerAddressUnknown ?k2"
  have "channel_life ex_new [Increment_IO] 0"
    by (rule channel_life.created [of 1000 "[65]" 20 False]) (simp add: channel_steps ex_new_def)
  then have "channel_life ?k1 ([Increment_IO] @ [Decrement_IO]) 0"
    by (rule channel_life.connects [of _ _ _ "\<lambda>t. t < 7" True 5 1 7]) (simp_all add: channel_steps ex_new_def)
  then have "channel_life ?k2 (([Increment_IO] @ [Decrement_IO]) @ [Increment_IO]) 0"
    by (rule channel_life.unresponsive [of _ _ _ True]) (simp_all add: channel_steps ex_new_def)
  from channel_life.shut_down [OF this, of ?k3 "[Increment_IO]"]
  have life: "channel_life ?k3 ((([Increment_IO] @ [Decrement_IO]) @ [Increment_IO]) @ [Increment_IO]) 1"
    by (simp add: channel_steps ex_new_def)
  moreover have "\<not> connCallBack_k ?k3" "\<not> currentlyConnected_k ?k3" "prevConnected_k ?k3"
    by (simp_all add: ex_new_def setServerAddressUnknown_def)
  ultimately show ?thesis using context_waits_for_unconnected [OF life, of False] by (intro exI conjI) auto
qed

end
