(* ===== verification/EndToEnd.thy ===== *)
theory EndToEnd
  imports Diode EpicsWire EpicsChannel
begin

section \<open>From a callback of the sender to a put of the receiver\<close>

text \<open>
  The composition of all components along the path of a value: the callback of channel access
  stores it in the cache of \<open>EpicsParserAndSubscriber\<close>, a turn of the main thread of
  \<open>PrioritySender\<close> sorts it to the front of the queue and hands it over, the sending thread writes
  it on the wire, \<open>DiodeReceiver\<close> parses it, and a turn of its writing thread puts it.
\<close>

subsection \<open>A channel that connects too late\<close>

text \<open>
  \<open>FillMemorySizes\<close> reads a channel a tenth of a second after it has made it, and waits longer only
  after that. A variable whose channel is not connected by then has no elements, no subscription
  and no place in any message, for as long as the sender runs.
\<close>

lemma late_channel_is_left_out:
  assumes "ca_chan C (pvName_d d) = info_of dbf k" and "\<not> connected_k k"
    and "measure_pv C maxArraySize d = (d', n)"
  shows "\<not> has_value d'" and "\<not> sends d'" and "subscribe_pv L C (d', mem) = Inr (d', mem)"
proof -
  have "si_numberOfElements (cainfo (ca_chan C (pvName_d d))) = 0"
    using assms(1,2) by (simp add: info_of_def ca_state_of_def cainfo_def Let_def split: dbf_type.splits)
  then have "numberOfElements_d d' = 0"
    using assms(3) by (auto simp: measure_pv_def Let_def split: if_splits)
  then show "\<not> has_value d'" "\<not> sends d'" "subscribe_pv L C (d', mem) = Inr (d', mem)"
    by (simp_all add: has_value_def sends_def subscribe_pv_def)
qed

subsection \<open>Two sides that fit together\<close>

text \<open>
  The variables of the sender have different names, at most as many as those of the receiver, and
  those that are sent whole fit the variables of the same name of the receiver.
\<close>

definition matched :: "marte \<Rightarrow> (nat \<Rightarrow> bytes) \<Rightarrow> nat \<Rightarrow> subscriber \<Rightarrow> receiver \<Rightarrow> bool" where
  "matched L dir maxVar S R \<longleftrightarrow>
     inj_on dir {..<numberOfVariables_e S} \<and> distinct (names_of (pvs R))
     \<and> numberOfVariables_e S \<le> numberOfVariables_r R \<and> numberOfVariables_e S < 4294967296
     \<and> (\<forall>x < numberOfVariables_e S. sends (pvDescriptor_e S ! x) \<longrightarrow>
          strip_field L (pvName_d (pvDescriptor_e S ! x)) = dir x
          \<and> length (pvName_d (pvDescriptor_e S ! x)) \<le> PV_NAME_MAX_SIZE_REC
          \<and> quote_char \<notin> set (pvName_d (pvDescriptor_e S ! x)) \<and> 0 \<notin> set (pvName_d (pvDescriptor_e S ! x))
          \<and> typeId_d (pvDescriptor_e S ! x) < 256
          \<and> value_bytes (pvDescriptor_e S ! x) \<le> maxVar
          \<and> value_bytes (pvDescriptor_e S ! x) < 8 * maxArraySize_r R
          \<and> (\<forall>i < length (pvs R). pvName_r (pvs R ! i) = dir x \<longrightarrow>
               totalSize_r (pvs R ! i) = value_bytes (pvDescriptor_e S ! x)))"

lemma sends_has_value: "sends d \<Longrightarrow> has_value d"
  by (simp add: sends_def has_value_def)

lemma layout_room:
  "layout_ok S \<Longrightarrow> i < numberOfVariables_e S \<Longrightarrow> sends (pvDescriptor_e S ! i) \<Longrightarrow>
    offset_d (pvDescriptor_e S ! i) + value_bytes (pvDescriptor_e S ! i) + 8 \<le> length (concat (memory_e S))"
  by (rule layout_slot [of S i]) (simp_all add: sends_has_value TS_SIZE_def)

lemma matched_suits:
  assumes "matched L dir maxVar S R" and "layout_ok S" and "memoryThreads_s P = concat (memory_e S)"
    and "distinct xs" and "set xs \<subseteq> {..<numberOfVariables_e S}"
  shows "suits L dir S P xs R"
proof -
  have "frame_for L dir R (frame_of S P x) \<and> whole_for dir R (frame_of S P x)"
    if "x \<in> set xs" "sends (pvDescriptor_e S ! x)" for x
  proof -
    have x: "x < numberOfVariables_e S" using that(1) assms(5) by auto
    note room = layout_room [OF assms(2) x that(2)]
    have "0 < value_bytes (pvDescriptor_e S ! x)" using that(2) by (simp add: sends_def)
    then show ?thesis
      using room assms(1) x that(2)
      by (auto simp: matched_def frame_for_def frame_ok_def whole_for_def var_frame_def assms(3))
  qed
  moreover have "distinct (map dir xs)"
    using assms(1,4,5) by (auto simp: matched_def distinct_map intro: inj_on_subset)
  ultimately show ?thesis using assms(1) by (simp add: suits_def matched_def)
qed

lemma matched_cong:
  "numberOfVariables_e S' = numberOfVariables_e S \<Longrightarrow> pvDescriptor_e S' = pvDescriptor_e S \<Longrightarrow>
    matched L dir m S' R = matched L dir m S R"
  by (simp add: matched_def)

subsection \<open>One turn of the sender\<close>

text \<open>
  A sender whose initial round is over, that has no changed variable left over, whose window is
  not larger than the table, and that is not limited in its bandwidth.
\<close>

definition settled :: "subscriber \<Rightarrow> sender \<Rightarrow> cycle_locals \<Rightarrow> bool" where
  "settled S P c \<longleftrightarrow> in_turn S P c \<and> numberOfPoolThreads_s P = 1 \<and> 0 < chunkSize_s P
     \<and> numberOfChunks_s P \<le> chunckCounter_s P \<and> currentChangePos_s P = 0 \<and> sendOnlyChanged_s P = 0
     \<and> length (changed_vars S) \<le> window_size P"

lemma settled_turn:
  assumes "marte_lib L" and "settled S P c"
  obtains P' c' where "cycle_body L now (chunckCounter_s P) 1 S P c
      = Inr (S\<lparr>changedFlagMem_e := replicate (numberOfVariables_e S) 0\<rparr>, P', c')"
    and "queue_ok P'" "numberOfPoolThreads_s P' = 1" "numberOfVariables_s P' = numberOfVariables_e S"
    and "memoryThreads_s P' = concat (memory_e S)" "chunkSize_s P' = chunkSize_s P"
    and "maxVarSize_s P' = maxVarSize_s P" "length (indexListThreads_s P') = numberOfVariables_s P'"
    and "set (indexListThreads_s P') = {..<numberOfVariables_e S}"
    and "currentIdxThreads_s P' < numberOfVariables_s P'"
    and "slice_length 0 P' = window_size P" "slice_length 0 P' < 2147483648"
    and "distinct (slice_vars 0 P')" "set (slice_vars 0 P') \<subseteq> {..<numberOfVariables_e S}"
    and "set (changed_vars S) \<subseteq> set (slice_vars 0 P')"
proof -
  let ?n = "numberOfVariables_s P" and ?w = "window_size P"
  have i: "linked S P" "queue_ok P" "\<not> changed_c c" "?w \<le> ?n" "maxBytesPerCycle_s P < 4294967296"
      "(\<Sum>d\<leftarrow>pvDescriptor_e S. value_bytes d) \<le> maxBytesPerCycle_s P"
      "numberOfPoolThreads_s P = 1" "sendOnlyChanged_s P = 0" "length (changed_vars S) \<le> ?w"
    using assms(2) by (auto simp: settled_def in_turn_def)
  have q: "currentIdx_s P < ?n" "?n < 2147483648" "length (pvDescriptor_e S) = ?n" "?n = numberOfVariables_e S"
    using i(1,2) by (auto simp: queue_ok_def linked_def layout_ok_def)
  obtain nv P1 where sp: "sort_phase (pvDescriptor_e S) (chunckCounter_s P) ?w (synced S P) = (nv, P1)"
    using sort_phase_total by blast
  have front: "mset (take (length (changed_vars S)) (rotate (currentIdx_s P) (indexList_s P1)))
      = mset (changed_vars S)"
    using assms(2) by (intro sort_phase_front [OF i(1,2) _ _ sp]) (simp_all add: settled_def)
  have cnt: "sent_count (pvDescriptor_e S) P nv = ?w"
    using window_fits [OF q(1-3) i(4)] i(5,6,8) by (simp add: sent_count_def bandwidth_loop_all)
  obtain P' c' where s: "cycle_body L now (chunckCounter_s P) (numberOfPoolThreads_s P) S P c
      = Inr (S\<lparr>changedFlagMem_e := replicate (numberOfVariables_e S) 0\<rparr>, P', c')"
      "queue_ok P'" "same_setup P P'" "indexList_s P' = indexList_s P1" "handed S P P1 ?w P'"
    using full_cycle [OF assms(1) i(1-3) sp] unfolding cnt by metis
  have P': "numberOfVariables_s P' = ?n" "numberOfPoolThreads_s P' = 1" "memoryThreads_s P' = concat (memory_e S)"
      "chunkSize_s P' = chunkSize_s P" "maxVarSize_s P' = maxVarSize_s P"
      "indexListThreads_s P' = indexList_s P1" "currentIdxThreads_s P' = currentIdx_s P"
      "numberOfChangedVariables_s P' = ?w"
    using s(3,5) i(7) by (simp_all add: same_setup_def handed_def)
  have len: "length (indexList_s P1) = ?n" "mset (indexList_s P1) = mset [0..<?n]"
    using s(2,4) P'(1) by (simp_all add: queue_ok_def del: mset_upt)
  then have st: "set (indexList_s P1) = {..<?n}" by (metis atLeast_upt mset_eq_setD)
  have sl: "slice_length 0 P' = ?w" by (simp add: slice_length_def P' u32_sub_def u32_def)
  have "slice_vars 0 P' = take ?w (map (\<lambda>j. indexList_s P1 ! ((currentIdx_s P + j) mod ?n)) [0..<?n])"
    unfolding slice_vars_def sl P' using i(4) by (simp add: take_map min_def)
  then have sv: "slice_vars 0 P' = take ?w (rotate (currentIdx_s P) (indexList_s P1))"
    using rotate_as_map [OF len(1)] by simp
  have di: "distinct (indexList_s P1)" using len(2) by (metis distinct_upt mset_eq_imp_distinct_iff)
  have sub: "set (slice_vars 0 P') \<subseteq> {..<?n}"
    unfolding sv using set_take_subset [of ?w "rotate (currentIdx_s P) (indexList_s P1)"] st by auto
  have "set (changed_vars S) = set (take (length (changed_vars S)) (rotate (currentIdx_s P) (indexList_s P1)))"
    using front by (metis set_mset_mset)
  also have "\<dots> \<subseteq> set (slice_vars 0 P')" unfolding sv by (rule set_take_subset_set_take [OF i(9)])
  finally have ch: "set (changed_vars S) \<subseteq> set (slice_vars 0 P')" .
  show thesis
    by (rule that [OF s(1) [unfolded i(7)] s(2) P'(2)])
      (use P' len st sl i(4) q di sub ch in \<open>simp_all add: sv\<close>)
qed

subsection \<open>The receiver's second half\<close>

text \<open>What the parser leaves alone.\<close>

definition same_service :: "receiver \<Rightarrow> receiver \<Rightarrow> bool" where
  "same_service R R' \<longleftrightarrow> pvs R' = pvs R \<and> memory2_r R' = memory2_r R \<and> changeFlag2_r R' = changeFlag2_r R
     \<and> numberOfInitThreads_r R' = numberOfInitThreads_r R \<and> totalMemorySize_r R' = totalMemorySize_r R"

lemma deliver_service:
  assumes "marte_lib L" "stream_inv L dir R" "frame_for L dir R fr"
  shows "same_service R (deliver L t R fr)"
proof -
  obtain R1 i mp where "resolve_index L R (fr_index fr) (strip_field L (fr_name fr)) = Some (Inr (R1, i))"
      "R1 = R\<lparr>pvMapping := mp\<rparr>"
    by (rule marte_lib.resolve_frame [OF assms])
  then show ?thesis by (simp add: deliver_def store_frame_def Let_def same_service_def)
qed

lemma deliver_all_service:
  assumes "marte_lib L" and "stream_inv L dir R"
    and "\<forall>fr \<in> set frs. frame_for L dir R fr \<and> whole_for dir R fr"
  shows "same_service R (deliver_all L t R frs) \<and> stream_inv L dir (deliver_all L t R frs)"
  using assms(2,3)
proof (induction frs arbitrary: R)
  case Nil
  then show ?case by (simp add: same_service_def)
next
  case (Cons f frs)
  let ?R1 = "deliver L t R f"
  have f: "frame_for L dir R f" using Cons.prems by simp
  note s = deliver_step [OF assms(1) Cons.prems(1) f, where t = t]
  have "\<forall>fr\<in>set frs. frame_for L dir ?R1 fr \<and> whole_for dir ?R1 fr"
    using Cons.prems(2) by (intro s(3)) simp
  from Cons.IH [OF s(1) this] deliver_service [OF assms(1) Cons.prems(1) f, of t] show ?case
    by (simp add: same_service_def)
qed

lemma put_ready_service:
  "put_ready L R \<Longrightarrow> same_service R R' \<Longrightarrow> stream_inv L dir R' \<Longrightarrow> put_ready L R'"
  by (simp add: put_ready_def same_service_def stream_inv_def)

text \<open>A variable whose flag is raised is put with the value and the time stamp in its place.\<close>

lemma flagged_is_put:
  assumes "marte_lib L" and "put_ready L R" and "numberOfInitThreads_r R = 1" and "cs_context C 0"
    and i: "i < length (pvs R)" "changeFlag_r R ! i = 1"
  obtains calls R' where "put_cycle L C now 0 R = Inr (calls, R')"
    and "put_pv C (taken_over R) i \<in> set calls"
    and "take (totalSize_r (pvs R ! i)) (put_data (put_pv C (taken_over R) i)) = slot R i (memory_r R)"
    and "take 8 (drop (totalSize_r (pvs R ! i)) (put_data (put_pv C (taken_over R) i)))
      = stamp R i (memory_r R)"
    and "length (put_data (put_pv C (taken_over R) i)) \<ge> totalSize_r (pvs R ! i) + 8"
proof -
  have wf: "receiver_wf L R" using assms(2) by (simp add: put_ready_def)
  then have n: "numberOfVariables_r R = length (pvs R)" "length (pvs R) < 4294967296"
      "offset_r (pvs R ! i) + totalSize_r (pvs R ! i) + 8 \<le> length (memory_r R)"
    using i by (auto simp: receiver_wf_def INDEX_NOT_FOUND_ID_def slots_ok_def)
  have "init_range C 0 R = Inr (0, length (pvs R))"
    using n assms(3,4) by (simp add: init_range_def chunk_bounds_def u32_id u32_sub_def u32_def)
  note eq = marte_lib.put_cycle_first [OF assms(1,2) this, of now]
  show thesis
    by (rule that [OF eq])
      (use i n in \<open>auto simp: put_loop_def put_pv_def taken_over_def slot_def stamp_def Let_def add.commute\<close>)
qed

subsection \<open>The path of a value\<close>

lemma cached_change_put:
  assumes "reliable_client K body sent pending" and "marte_lib L"
    and "layout_ok S" and x: "x < numberOfVariables_e S" "sends (pvDescriptor_e S ! x)"
    and v: "length v = value_bytes (pvDescriptor_e S ! x)"
    and cb: "GetValueCallback L x v S = Inr S1" and st: "settled S1 P c"
    and mt: "matched L dir (maxVarSize_s P) S R" and inv: "stream_inv L dir R"
    and pr: "put_ready L R" and "numberOfInitThreads_r R = 1" and "cs_context C 0"
    and i: "i < length (pvs R)" "pvName_r (pvs R ! i) = dir x"
    and new: "slot R i (memoryPrec_r R) \<noteq> v"
  shows "\<exists>S2 P2 c2 err P3 k' b more. cycle_body L now (chunckCounter_s P) 1 S1 P c = Inr (S2, P2, c2)
    \<and> SendVariables K S2 0 P2 k = Some (Inr (err, P3, k')) \<and> sent k' = sent k @ b # more
    \<and> (\<forall>cs. concat cs = b \<longrightarrow> (\<exists>R1 calls R2 call. feed L u R [] cs = Some (Inr (R1, []))
        \<and> put_cycle L C now' 0 R1 = Inr (calls, R2) \<and> call \<in> set calls \<and> put_index call = i
        \<and> put_type call = cs_code C (pvType_r (pvs R ! i)) OR 0x8000
        \<and> put_count call = numberOfElements_r (pvs R ! i)
        \<and> (\<exists>rest. put_data call = v @ pv_stamp S x @ rest)))"
proof -
  let ?d = "pvDescriptor_e S ! x"
  have hv: "has_value ?d" by (rule sends_has_value [OF x(2)])
  have "value_bytes ?d \<le> length v" using v by simp
  from value_callback_effect [OF assms(2,3) x(1) hv this] cb v
  have S1: "layout_ok S1" "pv_value S1 x = v" "pv_stamp S1 x = pv_stamp S x"
      "changedFlagMem_e S1 = (changedFlagMem_e S)[x := 1]"
    by auto
  have same: "pvDescriptor_e S1 = pvDescriptor_e S" "numberOfVariables_e S1 = numberOfVariables_e S"
    using cb by (auto simp: GetValueCallback_def Let_def split: sum.splits)
  have "length (changedFlagMem_e S) = numberOfVariables_e S" using assms(3) by (simp add: layout_ok_def)
  then have chx: "x \<in> set (changed_vars S1)" using x(1) by (simp add: changed_vars_def S1(4) same)
  let ?S2 = "S1\<lparr>changedFlagMem_e := replicate (numberOfVariables_e S1) 0\<rparr>"
  obtain P2 c2 where t: "cycle_body L now (chunckCounter_s P) 1 S1 P c = Inr (?S2, P2, c2)"
      "queue_ok P2" "numberOfPoolThreads_s P2 = 1" "numberOfVariables_s P2 = numberOfVariables_e S1"
      "memoryThreads_s P2 = concat (memory_e S1)" "chunkSize_s P2 = chunkSize_s P"
      "maxVarSize_s P2 = maxVarSize_s P" "length (indexListThreads_s P2) = numberOfVariables_s P2"
      "set (indexListThreads_s P2) = {..<numberOfVariables_e S1}"
      "currentIdxThreads_s P2 < numberOfVariables_s P2" "slice_length 0 P2 < 2147483648"
      "distinct (slice_vars 0 P2)" "set (slice_vars 0 P2) \<subseteq> {..<numberOfVariables_e S1}"
      "set (changed_vars S1) \<subseteq> set (slice_vars 0 P2)"
    using settled_turn [OF assms(2) st, where now = now] by metis
  have xs: "x \<in> set (slice_vars 0 P2)" using chx t(14) by blast
  then have sl: "0 < slice_length 0 P2" by (cases "slice_length 0 P2") (auto simp: slice_vars_def)
  have lay2: "layout_ok ?S2" by (rule layout_flags [OF S1(1)]) simp
  have mt2: "matched L dir (maxVarSize_s P) ?S2 R"
    using mt by (subst matched_cong [of ?S2 S]) (simp_all add: same)
  have room: "offset_d (pvDescriptor_e S1 ! y) + value_bytes (pvDescriptor_e S1 ! y) + 8
      \<le> length (concat (memory_e S1))" if "y < numberOfVariables_e S1" "sends (pvDescriptor_e S1 ! y)" for y
    using layout_room [OF S1(1) that] .
  have "0 < chunkSize_s P" using st by (simp add: settled_def)
  then have sok: "sending_ok ?S2 P2"
    using t(2-6,8-10) room by (auto simp: sending_ok_def queue_ok_def)
  have fw: "fits_whole ?S2 P2"
    using mt2 t(7,9) by (auto simp: fits_whole_def matched_def)
  have su: "suits L dir ?S2 P2 (slice_vars 0 P2) R"
    by (rule matched_suits [OF mt2 lay2]) (use t in simp_all)
  note cr = slice_crosses [OF assms(1) sok fw sl t(11) assms(2) inv su]
  let ?frs = "sent_frames ?S2 P2 (slice_vars 0 P2)"
  define R1 where "R1 = deliver_all L u R ?frs"
  have svc: "same_service R R1" "stream_inv L dir R1"
    using deliver_all_service [OF assms(2) inv cr(4)] by (simp_all add: R1_def)
  have val: "sent_value ?S2 P2 x = v" "sent_stamp ?S2 P2 x = pv_stamp S x"
    using joined_value [OF S1(1), of x] x(1) hv S1(2,3) t(5)
    by (simp_all add: sent_value_def sent_stamp_def same TS_SIZE_def)
  have got: "slot R i (memory_r R1) = v \<and> stamp R i (memory_r R1) = pv_stamp S x \<and> changeFlag_r R1 ! i = 1"
    using cr(3) [OF xs i(1) _ i(2), of u] x(2) new val by (simp add: same R1_def)
  have i1: "i < length (pvs R1)" using i svc by (simp add: same_service_def)
  obtain calls R2 where put: "put_cycle L C now' 0 R1 = Inr (calls, R2)"
      "put_pv C (taken_over R1) i \<in> set calls"
      "take (totalSize_r (pvs R1 ! i)) (put_data (put_pv C (taken_over R1) i)) = slot R1 i (memory_r R1)"
      "take 8 (drop (totalSize_r (pvs R1 ! i)) (put_data (put_pv C (taken_over R1) i))) = stamp R1 i (memory_r R1)"
    by (rule flagged_is_put [OF assms(2) put_ready_service [OF pr svc] _ assms(13) i1, where now = now'])
      (use svc(1) assms(12) got in \<open>simp_all add: same_service_def\<close>)
  let ?D = "put_data (put_pv C (taken_over R1) i)" and ?n = "totalSize_r (pvs R1 ! i)"
  have "pvs R1 = pvs R" using svc(1) by (simp add: same_service_def)
  then have "take ?n ?D = v" "take 8 (drop ?n ?D) = pv_stamp S x"
    using put(3,4) got by (simp_all only: slot_def stamp_def)
  moreover have "?D = take ?n ?D @ take 8 (drop ?n ?D) @ drop 8 (drop ?n ?D)"
    by (simp only: append_take_drop_id)
  ultimately have D: "\<exists>rest. ?D = v @ pv_stamp S x @ rest" by metis
  have P: "put_index (put_pv C (taken_over R1) i) = i"
      "put_type (put_pv C (taken_over R1) i) = cs_code C (pvType_r (pvs R ! i)) OR 0x8000"
      "put_count (put_pv C (taken_over R1) i) = numberOfElements_r (pvs R ! i)"
    using svc(1) by (simp_all add: put_pv_def taken_over_def same_service_def Let_def)
  obtain err P3 k' more where send: "SendVariables K ?S2 0 P2 k = Some (Inr (err, P3, k'))"
      "sent k' = sent k @ encode_all ?frs # more"
    using cr(1) by blast
  have "\<exists>R1 calls R2 call. feed L u R [] cs = Some (Inr (R1, []))
        \<and> put_cycle L C now' 0 R1 = Inr (calls, R2) \<and> call \<in> set calls \<and> put_index call = i
        \<and> put_type call = cs_code C (pvType_r (pvs R ! i)) OR 0x8000
        \<and> put_count call = numberOfElements_r (pvs R ! i)
        \<and> (\<exists>rest. put_data call = v @ pv_stamp S x @ rest)" if "concat cs = encode_all ?frs" for cs
    using cr(2) [OF that] put(1,2) P D unfolding R1_def by blast
  then show ?thesis using t(1) send by blast
qed

lemma put_type_value: "t < 7 \<Longrightarrow> int (t OR 0x8000) = int t + 32768"
  by (erule plain_cases) simp_all

text \<open>
  The put sends one message, and the server that receives it gives the time stamp to the record and
  the value to the put.
\<close>

definition reaches_record :: "ca_proto \<Rightarrow> (push_item \<Rightarrow> bytes) \<Rightarrow> (nat \<Rightarrow> write_env)
    \<Rightarrow> write_result list server_ops \<Rightarrow> nciu \<Rightarrow> put_call \<Rightarrow> nat \<Rightarrow> bytes \<Rightarrow> bytes \<Rightarrow> bool" where
  "reaches_record Pr W env V chan call t v ts \<longleftrightarrow>
     (\<exists>items. ca_array_put Pr chan (int (put_type call)) (put_count call) (put_data call) = Some (ECA_NORMAL, items)
      \<and> (\<forall>c more. receiving c (concat (map W items)) more \<longrightarrow>
           (\<exists>c' r. camessage (with_write Pr env V) c = Some (Inr (RSRV_OK, c')) \<and> served_c c' = served_c c @ [r]
             \<and> wr_error r = None \<and> wr_time r = Some ts
             \<and> wr_put r = Some (t, put_count call, v @ ts @ more))))"

definition accepts_put :: "(push_item \<Rightarrow> bytes) \<Rightarrow> (nat \<Rightarrow> write_env) \<Rightarrow> nciu \<Rightarrow> nat \<Rightarrow> nat \<Rightarrow> bytes \<Rightarrow> bool" where
  "accepts_put W env chan t n v \<longleftrightarrow> writable chan t n (length v)
     \<and> accepting (env (sid_n chan)) t n (W (PushElems (plain_kinds ! t) v)) v"

lemma put_reaches_record:
  assumes "ca_protocol Pr" and "com_buf W" and "accepts_put W env chan t (put_count call) v"
    and "length ts = 8" and "put_type call = t OR 0x8000" and "put_data call = v @ ts @ rest"
  shows "reaches_record Pr W env V chan call t v ts"
proof -
  have a: "writable chan t (put_count call) (length v)"
      "accepting (env (sid_n chan)) t (put_count call) (W (PushElems (plain_kinds ! t) v)) v"
    using assms(3) by (simp_all add: accepts_put_def)
  then have "t < 7" by (simp add: writable_def)
  from put_type_value [OF this] stamped_put_effect [where env = env, OF assms(1,2) a(1) assms(4) a(2), of rest V]
  show ?thesis unfolding reaches_record_def assms(5,6) by metis
qed

text \<open>
  (C1) The whole path of a value. A value that a callback stores in the cache of the sender is,
  after one turn of the main loop and one of the sending thread, however the network cuts the
  request, and one turn of the writing thread of the receiver, put to the channel of the same
  name, followed by the time stamp that the cache has for it. If the type of the channel is a
  plain one, not a string, and the size of the value a multiple of 8, the patched library sends
  both in one message, and the loop of the patched server that receives it gives the time stamp
  to the record and the value to the put.
\<close>

theorem cached_change_reaches_record:
  assumes "reliable_client K body sent pending" and "marte_lib L" and "ca_protocol Pr" and "com_buf W"
    and "layout_ok S" and "x < numberOfVariables_e S" and "sends (pvDescriptor_e S ! x)"
    and "length v = value_bytes (pvDescriptor_e S ! x)"
    and "GetValueCallback L x v S = Inr S1" and "settled S1 P c"
    and "matched L dir (maxVarSize_s P) S R" and "stream_inv L dir R"
    and "put_ready L R" and "numberOfInitThreads_r R = 1" and "cs_context C 0"
    and "i < length (pvs R)" and "pvName_r (pvs R ! i) = dir x"
    and "slot R i (memoryPrec_r R) \<noteq> v"
    and t_def: "t = cs_code C (pvType_r (pvs R ! i))" and n_def: "n = numberOfElements_r (pvs R ! i)"
  shows "\<exists>S2 P2 c2 err P3 k' b more. cycle_body L now (chunckCounter_s P) 1 S1 P c = Inr (S2, P2, c2)
    \<and> SendVariables K S2 0 P2 k = Some (Inr (err, P3, k')) \<and> sent k' = sent k @ b # more
    \<and> (\<forall>cs. concat cs = b \<longrightarrow> (\<exists>R1 calls R2 call rest. feed L u R [] cs = Some (Inr (R1, []))
        \<and> put_cycle L C now' 0 R1 = Inr (calls, R2) \<and> call \<in> set calls \<and> put_index call = i
        \<and> put_type call = t OR 0x8000 \<and> put_count call = n \<and> put_data call = v @ pv_stamp S x @ rest
        \<and> (accepts_put W env chan t n v \<longrightarrow> reaches_record Pr W env V chan call t v (pv_stamp S x))))"
proof -
  have hv: "has_value (pvDescriptor_e S ! x)" by (rule sends_has_value [OF assms(7)])
  have "length (pv_stamp S x) = 8"
    using joined_value(2) [OF assms(5,6) hv, symmetric] layout_room [OF assms(5-7)] by (simp add: TS_SIZE_def)
  then have rec: "reaches_record Pr W env V chan call t v (pv_stamp S x)"
    if "accepts_put W env chan t n v" "put_count call = n"
      "put_type call = t OR 0x8000" "put_data call = v @ pv_stamp S x @ rest" for call rest
    using that by (intro put_reaches_record [OF assms(3,4), where rest = rest]) simp_all
  obtain S2 P2 c2 err P3 k' b more where "cycle_body L now (chunckCounter_s P) 1 S1 P c = Inr (S2, P2, c2)"
      "SendVariables K S2 0 P2 k = Some (Inr (err, P3, k'))" "sent k' = sent k @ b # more"
    and "\<And>cs. concat cs = b \<Longrightarrow> \<exists>R1 calls R2 call rest. feed L u R [] cs = Some (Inr (R1, []))
        \<and> put_cycle L C now' 0 R1 = Inr (calls, R2) \<and> call \<in> set calls \<and> put_index call = i
        \<and> put_type call = t OR 0x8000 \<and> put_count call = n \<and> put_data call = v @ pv_stamp S x @ rest"
    using cached_change_put [OF assms(1,2,5-18), of now k u now'] unfolding t_def n_def by blast
  then show ?thesis using rec by meson
qed

text \<open>An example: one variable of two elements of four bytes on either side.\<close>

definition ex_wide_desc :: pv_desc where
  "ex_wide_desc = (ex_placed 0)\<lparr>numberOfElements_d := 2, timeStamp_d := (0, 8)\<rparr>"

lemma ex_wide_desc_fields [simp]:
  "value_bytes ex_wide_desc = 8" "has_value ex_wide_desc" "offset_d ex_wide_desc = 0"
  "memory_d ex_wide_desc = (0, 0)" "timeStamp_d ex_wide_desc = (0, 8)" "index_d ex_wide_desc = 0"
  "sends ex_wide_desc" "pvName_d ex_wide_desc = [65]" "typeId_d ex_wide_desc = 0"
  by (simp_all add: ex_wide_desc_def ex_placed_def value_bytes_def has_value_def sends_def u32_def ex_desc_def)

definition ex_wide :: subscriber where
  "ex_wide = ex_running\<lparr>numberOfVariables_e := 1, pvDescriptor_e := [ex_wide_desc],
     changedFlagMem_e := [0], memory_e := [replicate 16 0], memorySize_e := [16]\<rparr>"

lemma ex_wide_fields [simp]:
  "numberOfVariables_e ex_wide = 1" "numberOfPoolThreads_e ex_wide = 1"
  "pvDescriptor_e ex_wide = [ex_wide_desc]" "memory_e ex_wide = [replicate 16 0]"
  "memorySize_e ex_wide = [16]" "changedFlagMem_e ex_wide = [0]"
  by (simp_all add: ex_wide_def)

lemma ex_wide_ok: "layout_ok ex_wide"
  unfolding layout_ok_def ex_wide_fields by (simp add: pv_placed_def TS_SIZE_def)

definition ex_wide_sender :: sender where
  "ex_wide_sender = ex_sender\<lparr>numberOfSignalToBeSent_s := 1, numberOfVariables_s := 1,
     indexList_s := [0], memory_s := replicate 16 0, changeFlag_s := [0]\<rparr>"

lemma ex_wide_settled:
  obtains S1 where "GetValueCallback ref_marte 0 [1, 2, 3, 4, 5, 6, 7, 8] ex_wide = Inr S1"
    and "settled S1 ex_wide_sender cycle_start"
proof -
  obtain mem where m: "GetValueCallback ref_marte 0 [1, 2, 3, 4, 5, 6, 7, 8] ex_wide
        = Inr (ex_wide\<lparr>memory_e := mem, changedFlagMem_e := [1]\<rparr>)" "map length mem = map length (memory_e ex_wide)"
    using ref.GetValueCallback_cases(1) [OF ex_wide_ok, of 0 "[1, 2, 3, 4, 5, 6, 7, 8]"] by auto
  let ?S1 = "ex_wide\<lparr>memory_e := mem, changedFlagMem_e := [1]\<rparr>"
  have "layout_ok ?S1" by (rule ref.layout_memory [OF ex_wide_ok m(2)]) simp
  moreover have "changed_vars ?S1 = [0]" by (simp add: changed_vars_def upt_rec)
  moreover have "chunckCounter_s ex_sender = 1" by (simp add: ex_sender_def)
  ultimately have "settled ?S1 ex_wide_sender cycle_start"
    by (simp add: settled_def in_turn_def linked_def cycle_start_def window_size_def u32_id
        GetTotalMemorySize_def ex_wide_sender_def queue_ok_def)
  then show thesis using that m(1) by blast
qed

definition ex_wide_receiver :: receiver where
  "ex_wide_receiver = ex_receiver\<lparr>pvs := [(ex_pv [65] 0)\<lparr>numberOfElements_r := 2, totalSize_r := 8\<rparr>],
     numberOfVariables_r := 1, memory_r := replicate 16 0, memory2_r := replicate 16 0,
     memoryPrec_r := replicate 16 0, pvMapping := replicate 2 INDEX_INIT_ID, changeFlag_r := [0],
     changeFlag2_r := [0], totalMemorySize_r := 16\<rparr>"

lemma ex_wide_receiver_fields:
  "pvs ex_wide_receiver = [(ex_pv [65] 0)\<lparr>numberOfElements_r := 2, totalSize_r := 8\<rparr>]"
  "numberOfVariables_r ex_wide_receiver = 1" "maxArraySize_r ex_wide_receiver = 100"
  "numberOfInitThreads_r ex_wide_receiver = 1" "memoryPrec_r ex_wide_receiver = replicate 16 0"
  by (simp_all add: ex_wide_receiver_def ex_receiver_def)

lemma ex_wide_ready:
  "stream_inv ref_marte ex_names_dir ex_wide_receiver" "put_ready ref_marte ex_wide_receiver"
  by (simp_all add: stream_inv_def put_ready_def receiver_wf_def mapping_ok_def ex_wide_receiver_def
      ex_receiver_def ex_pv_def slots_ok_def INDEX_NOT_FOUND_ID_def)

lemma ex_wide_matched: "matched ref_marte ex_names_dir (maxVarSize_s ex_wide_sender) ex_wide ex_wide_receiver"
  unfolding matched_def ex_wide_receiver_fields
  by (simp add: inj_on_def ex_names_dir_def ex_pv_def strip_field_def ref_token_def quote_char_def
      PV_NAME_MAX_SIZE_REC_def ex_wide_sender_def)

lemma ex_wide_accepts:
  "length v = 8 \<Longrightarrow> accepts_put ref_wire (\<lambda>i. ex_env) ex_chan 5 2 v"
  by (simp add: accepts_put_def writable_def ex_chan_def plain_kinds_def accepting_def ex_env_def)

theorem cached_change_reaches_record_witness:
  "\<exists>S1 S2 P2 c2 err P3 k' b R1 calls R2 call.
    GetValueCallback ref_marte 0 [1, 2, 3, 4, 5, 6, 7, 8] ex_wide = Inr S1
    \<and> cycle_body ref_marte 7 1 1 S1 ex_wide_sender cycle_start = Inr (S2, P2, c2)
    \<and> SendVariables ref_client S2 0 P2 ex_conn = Some (Inr (err, P3, k')) \<and> hd (rc_sent k') = b
    \<and> feed ref_marte 0 ex_wide_receiver [] [take 9 b, drop 9 b] = Some (Inr (R1, []))
    \<and> put_cycle ref_marte ex_server 9 0 R1 = Inr (calls, R2) \<and> call \<in> set calls
    \<and> reaches_record ref_proto ref_wire (\<lambda>i. ex_env) idle_server ex_chan call 5 [1, 2, 3, 4, 5, 6, 7, 8] (pv_stamp ex_wide 0)"
proof -
  let ?v = "[1, 2, 3, 4, 5, 6, 7, 8] :: bytes"
  obtain S1 where S1: "GetValueCallback ref_marte 0 ?v ex_wide = Inr S1" "settled S1 ex_wide_sender cycle_start"
    by (rule ex_wide_settled)
  have p: "0 < numberOfVariables_e ex_wide" "sends (pvDescriptor_e ex_wide ! 0)"
      "length ?v = value_bytes (pvDescriptor_e ex_wide ! 0)" by simp_all
  have "replicate 8 (0 :: byte) = [0, 0, 0, 0, 0, 0, 0, 0]" by (simp add: numeral_eq_Suc)
  then have q: "numberOfInitThreads_r ex_wide_receiver = 1" "cs_context ex_server 0"
      "0 < length (pvs ex_wide_receiver)" "pvName_r (pvs ex_wide_receiver ! 0) = ex_names_dir 0"
      "slot ex_wide_receiver 0 (memoryPrec_r ex_wide_receiver) \<noteq> ?v"
    by (simp_all add: ex_wide_receiver_fields ex_server_def ex_pv_def ex_names_dir_def slot_def)
  have t: "5 = cs_code ex_server (pvType_r (pvs ex_wide_receiver ! 0))"
      "2 = numberOfElements_r (pvs ex_wide_receiver ! 0)"
    by (simp_all add: ex_wide_receiver_fields ex_server_def)
  have w: "accepts_put ref_wire (\<lambda>i. ex_env) ex_chan 5 2 ?v" by (rule ex_wide_accepts) simp
  have ck: "chunckCounter_s ex_wide_sender = 1" by (simp add: ex_wide_sender_def ex_sender_def)
  obtain S2 P2 c2 err P3 k' b more where 1: "cycle_body ref_marte 7 1 1 S1 ex_wide_sender cycle_start = Inr (S2, P2, c2)"
      "SendVariables ref_client S2 0 P2 ex_conn = Some (Inr (err, P3, k'))" "rc_sent k' = rc_sent ex_conn @ b # more"
    and 2: "\<And>cs. concat cs = b \<Longrightarrow> \<exists>R1 calls R2 call rest.
        feed ref_marte 0 ex_wide_receiver [] cs = Some (Inr (R1, []))
        \<and> put_cycle ref_marte ex_server 9 0 R1 = Inr (calls, R2) \<and> call \<in> set calls \<and> put_index call = 0
        \<and> put_type call = 5 OR 0x8000 \<and> put_count call = 2 \<and> put_data call = ?v @ pv_stamp ex_wide 0 @ rest
        \<and> (accepts_put ref_wire (\<lambda>i. ex_env) ex_chan 5 2 ?v
            \<longrightarrow> reaches_record ref_proto ref_wire (\<lambda>i. ex_env) idle_server ex_chan call 5 ?v (pv_stamp ex_wide 0))"
    using cached_change_reaches_record [where chan = ex_chan and env = "\<lambda>i. ex_env" and V = idle_server, OF ref_conn.reliable_client_axioms ref.marte_lib_axioms
        ref_proto.ca_protocol_axioms ref_wire.com_buf_axioms ex_wide_ok p S1 ex_wide_matched ex_wide_ready q t, of 7 ex_conn 0 9]
    unfolding ck by blast
  have "concat [take 9 b, drop 9 b] = b" by simp
  from 2 [OF this] obtain R1 calls R2 call where
      "feed ref_marte 0 ex_wide_receiver [] [take 9 b, drop 9 b] = Some (Inr (R1, []))"
      "put_cycle ref_marte ex_server 9 0 R1 = Inr (calls, R2)" "call \<in> set calls"
      "reaches_record ref_proto ref_wire (\<lambda>i. ex_env) idle_server ex_chan call 5 ?v (pv_stamp ex_wide 0)"
    using w by blast
  moreover have "hd (rc_sent k') = b" using 1(3) by (simp add: ex_conn_def)
  ultimately show ?thesis using S1(1) 1(1,2) by (intro exI conjI)
qed

end
