(* ===== verification/Startup.thy ===== *)
theory Startup
  imports Diode_Base
begin

section \<open>The start-up programs\<close>

text \<open>
  \<open>main\<close> of Main.cpp, which loads one configuration file, and of Main1.cpp, which loads three of
  them in parallel, and the signal handler \<open>StopApp\<close>. The framework is the parameter
  \<open>app_env\<close>, over a type \<open>'d\<close> of configuration databases and a type \<open>'w\<close> of states of the
  application:

  \<^item> \<open>file_open\<close> is \<open>BasicFile::Open\<close>; \<open>parse_file\<close> gives the database \<open>StandardParser\<close> fills, and
    whether it succeeds; \<open>move_to_root\<close> is \<open>ConfigurationDatabase::MoveToRoot\<close>.
  \<^item> \<open>objects_init\<close> is \<open>ObjectRegistryDatabase::Initialise\<close>, \<open>objects_apps\<close> says of each of its
    objects whether it is a \<open>RealTimeApplication\<close>.
  \<^item> \<open>configure_app dbs\<close> is \<open>ConfigureApplication\<close>, with two databases in Main1.cpp.
  \<^item> \<open>get_token\<close> gives success, the token before the next colon, and the rest.
\<close>

record ('d, 'w) app_env =
  file_open :: "string \<Rightarrow> bool"
  parse_file :: "string \<Rightarrow> 'd \<times> bool"
  move_to_root :: "'d \<Rightarrow> 'd"
  objects_init :: "'d \<Rightarrow> 'w \<Rightarrow> 'w"
  objects_apps :: "'w \<Rightarrow> bool list"
  configure_app :: "'d list \<Rightarrow> 'w \<Rightarrow> bool \<times> 'w"
  prepare_state :: "string \<Rightarrow> 'w \<Rightarrow> bool \<times> 'w"
  start_state :: "'w \<Rightarrow> 'w"
  get_token :: "string \<Rightarrow> bool \<times> string \<times> string"
  message_init :: "string \<Rightarrow> string \<Rightarrow> bool"
  send_message :: "string \<Rightarrow> string \<Rightarrow> 'w \<Rightarrow> 'w"

text \<open>How \<open>main\<close> goes on: it returns, or waits until a signal stops the program.\<close>

datatype outcome = Exit int | Waiting

subsection \<open>The arguments\<close>

record start_args =
  filename_a :: string
  firstState_a :: string
  messageArgs_a :: string
  funFilename_a :: string
  dataFilename_a :: string

definition file_argument :: "string list \<Rightarrow> string option" where
  "file_argument argv =
     (if argv ! 1 = ''-f'' then Some (argv ! 2)
      else if argv ! 3 = ''-f'' then Some (argv ! 4)
      else None)"

text \<open>The first state and the message.\<close>

definition action_argument :: "string list \<Rightarrow> (string \<times> string) option" where
  "action_argument argv =
     (if argv ! 1 = ''-s'' then Some (argv ! 2, [])
      else if argv ! 3 = ''-s'' then Some (argv ! 4, [])
      else if argv ! 1 = ''-m'' then Some ([], argv ! 2)
      else if argv ! 3 = ''-m'' then Some ([], argv ! 4)
      else None)"

definition main_args :: "string list \<Rightarrow> start_args option" where
  "main_args argv =
     (if length argv \<noteq> 5 then None
      else case file_argument argv of
             None \<Rightarrow> None
           | Some f \<Rightarrow>
               (case action_argument argv of
                  None \<Rightarrow> None
                | Some (s, m) \<Rightarrow> Some \<lparr>filename_a = f, firstState_a = s, messageArgs_a = m,
                                     funFilename_a = [], dataFilename_a = []\<rparr>))"

definition main1_args :: "string list \<Rightarrow> start_args option" where
  "main1_args argv =
     (if length argv \<noteq> 9 then None
      else case file_argument argv of
             None \<Rightarrow> None
           | Some f \<Rightarrow>
               (if argv ! 5 \<noteq> ''-fu'' then None
                else if argv ! 7 \<noteq> ''-da'' then None
                else case action_argument argv of
                  None \<Rightarrow> None
                | Some (s, m) \<Rightarrow> Some \<lparr>filename_a = f, firstState_a = s, messageArgs_a = m,
                                     funFilename_a = argv ! 6, dataFilename_a = argv ! 8\<rparr>))"

subsection \<open>Starting the application\<close>

text \<open>The message given on the command line.\<close>

definition start_message :: "('d, 'w) app_env \<Rightarrow> string \<Rightarrow> 'w \<Rightarrow> bool \<times> 'w" where
  "start_message E messageArgs w =
     (case get_token E messageArgs of
        (ok, destination, rest) \<Rightarrow>
          (case (if ok then (case get_token E rest of (ok, function', r) \<Rightarrow> (ok, function'))
                 else (ok, [])) of
             (ok, function') \<Rightarrow>
               (let ok = (ok \<and> message_init E destination function')
                in (ok, if ok then send_message E destination function' w else w))))"

text \<open>The first application found: \<open>None\<close> when its configuration fails.\<close>

definition start_app :: "('d, 'w) app_env \<Rightarrow> 'd list \<Rightarrow> start_args \<Rightarrow> 'w \<Rightarrow> bool option \<times> 'w" where
  "start_app E dbs a w =
     (if True \<in> set (objects_apps E w) then
        (case configure_app E dbs w of
           (ok, w) \<Rightarrow>
             if \<not> ok then (None, w)
             else if length (firstState_a a) > 0 then
               (case prepare_state E (firstState_a a) w of
                  (ok, w) \<Rightarrow> (Some ok, if ok then start_state E w else w))
             else (case start_message E (messageArgs_a a) w of (ok, w) \<Rightarrow> (Some ok, w)))
      else (Some False, w))"

definition main_end :: "bool option \<times> 'w \<Rightarrow> outcome \<times> 'w" where
  "main_end r = (case r of (None, w) \<Rightarrow> (Exit (-1), w)
                 | (Some ok, w) \<Rightarrow> (if ok then Waiting else Exit 0, w))"

definition main_cpp :: "('d, 'w) app_env \<Rightarrow> string list \<Rightarrow> 'w \<Rightarrow> outcome \<times> 'w" where
  "main_cpp E argv w =
     (case main_args argv of
        None \<Rightarrow> (Exit (-1), w)
      | Some a \<Rightarrow>
          main_end
            (if file_open E (filename_a a) then
               (case parse_file E (filename_a a) of
                  (cdb, ok) \<Rightarrow> if ok then start_app E [] a (objects_init E cdb w) else (Some False, w))
             else (Some False, w)))"

text \<open>The three threads of Main1.cpp; what they find out about their files is not returned.\<close>

definition ParseCdb :: "('d, 'w) app_env \<Rightarrow> string \<Rightarrow> 'd" where
  "ParseCdb E file = (case parse_file E file of (cdb, ok) \<Rightarrow> if ok then move_to_root E cdb else cdb)"

definition main1_cpp :: "('d, 'w) app_env \<Rightarrow> string list \<Rightarrow> 'w \<Rightarrow> outcome \<times> 'w" where
  "main1_cpp E argv w =
     (case main1_args argv of
        None \<Rightarrow> (Exit (-1), w)
      | Some a \<Rightarrow>
          main_end
            (if file_open E (filename_a a) \<and> file_open E (funFilename_a a) \<and> file_open E (dataFilename_a a)
             then start_app E [ParseCdb E (funFilename_a a), ParseCdb E (dataFilename_a a)] a
                    (objects_init E (ParseCdb E (filename_a a)) w)
             else (Some False, w)))"

subsection \<open>The signal handler\<close>

record stop_state =
  killApp :: bool
  rtAppValid :: bool
  appStopped :: bool
  registryPurged :: bool
  keepRunning :: bool
  exited :: "int option"

definition StopApp :: "stop_state \<Rightarrow> stop_state" where
  "StopApp s =
     (if killApp s then s\<lparr>exited := Some 0\<rparr>
      else s\<lparr>killApp := True, appStopped := (appStopped s \<or> rtAppValid s), registryPurged := True,
             keepRunning := False, exited := Some 0\<rparr>)"

subsection \<open>What is accepted\<close>

lemma list5: "length xs = 5 \<longleftrightarrow> (\<exists>a b c d e. xs = [a, b, c, d, e])"
  by (auto simp: numeral_eq_Suc length_Suc_conv)

lemma list9: "length xs = 9 \<longleftrightarrow> (\<exists>a b c d e f g h i. xs = [a, b, c, d, e, f, g, h, i])"
  by (auto simp: numeral_eq_Suc length_Suc_conv)

text \<open>The four forms of the first four arguments.\<close>

definition four_args :: "string list \<Rightarrow> string \<Rightarrow> string \<Rightarrow> string \<Rightarrow> bool" where
  "four_args xs f s m \<longleftrightarrow>
     xs = [''-f'', f, ''-s'', s] \<and> m = [] \<or> xs = [''-s'', s, ''-f'', f] \<and> m = []
     \<or> xs = [''-f'', f, ''-m'', m] \<and> s = [] \<or> xs = [''-m'', m, ''-f'', f] \<and> s = []"

lemma main_args_four:
  "(\<exists>x. main_args [p, a, b, c, d] = Some x \<and> filename_a x = f \<and> firstState_a x = s \<and> messageArgs_a x = m)
    \<longleftrightarrow> four_args [a, b, c, d] f s m"
  by (auto simp: main_args_def file_argument_def action_argument_def four_args_def)

lemma main1_args_four:
  "(\<exists>x. main1_args [p, a, b, c, d, e1, e2, e3, e4] = Some x \<and> filename_a x = f \<and> firstState_a x = s
      \<and> messageArgs_a x = m \<and> funFilename_a x = fu \<and> dataFilename_a x = da)
    \<longleftrightarrow> four_args [a, b, c, d] f s m \<and> e1 = ''-fu'' \<and> e2 = fu \<and> e3 = ''-da'' \<and> e4 = da"
  by (auto simp: main1_args_def file_argument_def action_argument_def four_args_def)

lemma four_args_length: "four_args xs f s m \<Longrightarrow> \<exists>a b c d. xs = [a, b, c, d]"
  by (auto simp: four_args_def)

text \<open>
  The programs accept exactly the documented arguments: a file and either a first state or a
  message, in either order; Main1.cpp requires the files of functions and data behind them, in
  this order.
\<close>

lemma accepted_arguments:
  "(\<exists>a. main_args argv = Some a \<and> filename_a a = f \<and> firstState_a a = s \<and> messageArgs_a a = m)
     = (\<exists>p xs. argv = p # xs \<and> four_args xs f s m)
   \<and> (\<exists>a. main1_args argv = Some a \<and> filename_a a = f \<and> firstState_a a = s \<and> messageArgs_a a = m
        \<and> funFilename_a a = fu \<and> dataFilename_a a = da)
     = (\<exists>p xs. argv = p # xs @ [''-fu'', fu, ''-da'', da] \<and> four_args xs f s m)"
proof
  show "(\<exists>a. main_args argv = Some a \<and> filename_a a = f \<and> firstState_a a = s \<and> messageArgs_a a = m)
     = (\<exists>p xs. argv = p # xs \<and> four_args xs f s m)"
  proof (cases "length argv = 5")
    case True
    then obtain p a b c d where "argv = [p, a, b, c, d]" by (auto simp: list5)
    then show ?thesis using main_args_four [of p a b c d f s m] by simp
  next
    case False
    then have "main_args argv = None" by (simp add: main_args_def)
    then show ?thesis using False by (auto dest: four_args_length)
  qed
  show "(\<exists>a. main1_args argv = Some a \<and> filename_a a = f \<and> firstState_a a = s \<and> messageArgs_a a = m
        \<and> funFilename_a a = fu \<and> dataFilename_a a = da)
     = (\<exists>p xs. argv = p # xs @ [''-fu'', fu, ''-da'', da] \<and> four_args xs f s m)"
  proof (cases "length argv = 9")
    case True
    then obtain p a b c d e1 e2 e3 e4 where argv: "argv = [p, a, b, c, d, e1, e2, e3, e4]"
      by (auto simp: list9)
    have "(\<exists>p' xs. argv = p' # xs @ [''-fu'', fu, ''-da'', da] \<and> four_args xs f s m)
        \<longleftrightarrow> four_args [a, b, c, d] f s m \<and> e1 = ''-fu'' \<and> e2 = fu \<and> e3 = ''-da'' \<and> e4 = da"
    proof
      assume "\<exists>p' xs. argv = p' # xs @ [''-fu'', fu, ''-da'', da] \<and> four_args xs f s m"
      then obtain p' xs where xs: "argv = p' # xs @ [''-fu'', fu, ''-da'', da]" "four_args xs f s m" by blast
      then obtain a' b' c' d' where "xs = [a', b', c', d']" using four_args_length by blast
      then show "four_args [a, b, c, d] f s m \<and> e1 = ''-fu'' \<and> e2 = fu \<and> e3 = ''-da'' \<and> e4 = da"
        using xs argv by simp
    next
      assume "four_args [a, b, c, d] f s m \<and> e1 = ''-fu'' \<and> e2 = fu \<and> e3 = ''-da'' \<and> e4 = da"
      then show "\<exists>p' xs. argv = p' # xs @ [''-fu'', fu, ''-da'', da] \<and> four_args xs f s m"
        using argv by (intro exI [of _ p] exI [of _ "[a, b, c, d]"]) simp
    qed
    then show ?thesis
      unfolding argv using main1_args_four [of p a b c d e1 e2 e3 e4 f s m fu da] by simp
  next
    case False
    then have "main1_args argv = None" by (simp add: main1_args_def)
    then show ?thesis using False by (auto dest: four_args_length)
  qed
qed

subsection \<open>What a failure does\<close>

text \<open>
  Main1.cpp does not notice that a file could not be parsed: it goes on with what the parser has
  left in the databases. Main.cpp stops, but reports success to its caller.
\<close>

lemma main1_ignores_parse_errors:
  "main1_cpp (E\<lparr>parse_file := (\<lambda>f. (ParseCdb E f, False))\<rparr>) argv w = main1_cpp E argv w"
proof -
  let ?E = "E\<lparr>parse_file := (\<lambda>f. (ParseCdb E f, False))\<rparr>"
  have p: "ParseCdb ?E = ParseCdb E" by (rule ext) (simp add: ParseCdb_def)
  have "start_message ?E = start_message E" by (intro ext) (simp add: start_message_def split_def cong: if_cong)
  then have "start_app ?E = start_app E" by (intro ext) (simp add: start_app_def split_def)
  then show ?thesis unfolding main1_cpp_def p by (simp split: option.split)
qed

lemma main_reports_success:
  assumes "main_args argv = Some a" and "\<not> file_open E (filename_a a) \<or> \<not> snd (parse_file E (filename_a a))"
  shows "main_cpp E argv w = (Exit 0, w)"
  using assms by (auto simp: main_cpp_def main_end_def split: prod.splits)

end
