(* ===== verification/Spec2Isabelle.thy ===== *)
theory Spec2Isabelle
  imports SubscriberTheorems SenderRounds SenderPool ReceiverRequests EndToEnd Startup
begin

text \<open>
  A model of the EPICS diode and of the part of the EPICS base that the repository patches for it.

  The program. Two applications, built on the framework MARTe2, copy EPICS process variables
  through a network diode: the sender subscribes to the variables and sends their values in HTTP
  requests, the receiver takes the requests apart and puts the values to the variables of the
  same names on its own side. A third part replaces files of the EPICS base on both sides of that
  put, so that it carries the time stamp of the value. The path of a value, in the order of the
  calls, and the theories that model it:

  (1) Channel Access calls \<open>GetValueCallback\<close> and \<open>GetTimeoutCallback\<close> of
      EpicsParserAndSubscriber.cpp, which keep value, time stamp and a flag in a cache
      (Subscriber, with the file of names in XmlScan, the types in PvTypes and the shares of the
      pool's threads in Chunks). The record \<open>subscriber\<close> holds the members of the class.
  (2) The main thread of PrioritySender.cpp copies the cache (\<open>Synchronise\<close>), keeps a queue of the
      variables, brings the changed ones to its front, and hands a part of it over to a pool of
      threads (SenderQueue; the record \<open>sender\<close> and the definitions \<open>cycle_body\<close>,
      \<open>prepare_cycle\<close>, \<open>sort_phase\<close>, \<open>limit_phase\<close>, \<open>hand_over\<close>).
  (3) A sending thread takes its slice and writes it in one or several HTTP requests (SenderWire),
      and checks in again; the handshake of the pool with the main thread is the step relation
      \<open>pool_step\<close> of SenderThreads.
  (4) A service thread of DiodeReceiver.cpp reads the request with its headers and chunks
      (ReceiverService) and gives the bytes to the parser (ReceiverParser), which finds the variable by
      name in the table that \<open>Initialise\<close> has sorted (ReceiverTable), and stores value and time
      stamp in its memory. The life of the receiver is in ReceiverStart.
  (5) A writing thread of the receiver copies memory and flags and puts the changed variables
      (\<open>put_cycle\<close>, ReceiverStart) with \<open>ca_array_put\<close>.
  (6) The patched client library builds the message of the put (EpicsPatch: oldChannelNotify.cpp,
      nciu.cpp, tcpiiu.cpp, comQueSend.cpp; EpicsChannel: the state of a channel). The patched server
      takes messages out of its receive buffer and calls a function for each (EpicsServer:
      \<open>camessage\<close> of camessage.c); its \<open>write_action\<close> (EpicsPatch) stores value and stamp in the record,
      whose processing keeps the stamp (EpicsRecord: recGbl.c).
  (7) The applications are started by Main.cpp and Main1.cpp (Startup).

  Conventions. Diode_Base holds the shared vocabulary: bytes, the 32-bit counters of the sources,
  written out on natural numbers with \<open>u32\<close> and \<open>u32_sub\<close>, so that every wrap-around of the code is
  one of the model, and \<open>fault\<close>, the undefined behaviour of C++ (an access outside a buffer, a
  division by zero) as a value. An operation that can fail returns \<open>fault + result\<close>. A loop
  with a measure is a function with its termination proof; a loop that may run for ever is a
  \<open>partial_function (option)\<close>, so that \<open>None\<close> means that it does not return, and returning is
  proved (\<open>parser_total_on_any_bytes\<close>) or refuted (\<open>wrapped_size_never_returns\<close>)
  as such. No fuel is used. Threads are either composed in an explicit
  order of their stages (the start-up of the subscriber, the turns of sender and receiver) or
  interleaved by a step relation (\<open>pool_step\<close>, \<open>channel_life\<close>). Arrays whose lengths an
  invariant fixes (the queue, the descriptors, the flags; \<open>layout_ok\<close>, \<open>queue_ok\<close>, \<open>linked\<close>) are
  read with \<open>!\<close> and copied as a whole, and the theorems assume the invariant; accesses that depend on
  received bytes or on callbacks are checked and fault.

  What is not part of the repository is a parameter: the functions of MARTe2 (Marte, the record
  \<open>marte\<close> and the locale \<open>marte_lib\<close>; Config for the configuration database), the connections of
  sender and receiver (the records \<open>http_client\<close> and \<open>server_conn\<close>), the sizes and constants of
  Channel Access (\<open>ca_proto\<close>), the byte order of the buffers of the send queue (\<open>com_buf\<close>), the
  outcome of database calls (\<open>write_env\<close>) and the functions of the jump table (\<open>server_ops\<close>).
  What the code relies on is a locale, interpreted on the model or on a reference instance that
  the witnesses use: \<open>name_order\<close> and \<open>marte_lib\<close> (string comparison, copying), \<open>xml_source\<close> (a file that ends),
  \<open>change_source\<close> (the contract of \<open>Synchronise\<close> and the events between two calls, an instance of
  which is the subscriber), \<open>reliable_client\<close> and \<open>reliable_server\<close> (connections that do not lose
  bytes), \<open>ca_protocol\<close> (the sizes of the plain types), \<open>com_buf\<close>, and \<open>calm_server\<close> (a function of
  the server does not touch the messages behind its own).

  What the theorems show, by theory.
  SubscriberTheorems, SubscriberLayout and ChangeSource: the descriptors follow the file; however the
  threads' start-up stages interleave, values and time stamps get disjoint places; a callback
  changes one variable; between two calls of \<open>Synchronise\<close> exactly the changed variables are reported.
  SenderSort, SenderTheorems and SenderRounds: the queue stays a permutation, the changed variables
  come first, after those left over from earlier turns, and a round hands over every variable; and where
  that fails (a variable left over that changes again, after the reset of the counter, with a
  bandwidth limit).
  SenderPool: the main thread and the sending threads never use the handed-over memory at the same
  time while the sender runs; the handshake can stop for good.
  SenderStream and SenderWireTheorems: the slices of the threads are the window, a request has the
  receiver's format, a split variable damages the next.
  ReceiverTheorems, ReceiverSafety, ReceiverStream, ReceiverLife and ReceiverRequests: the table is the
  sorted selection and the bisection is exact; on any bytes the parser returns and stays in the slot
  of its variable unless a sum wraps around or a conversion reads beyond the payload; the result does not depend on how a body is cut nor on
  the form of the request; \<open>Start\<close> establishes the invariant, one writing thread puts exactly the
  changes, a thread two turns behind loses them; sockets are owned by exactly one context.
  EpicsStamp, EpicsWire, EpicsServerLoop and EpicsChannel: the message loop serves exactly the complete
  messages and can be kept from returning; a put with its stamp arrives when the size of its value
  is a multiple of 8, and which sizes the server mistakes; the requests a channel counts for, and those it counts twice.
  Diode and EndToEnd: the composition. What a thread sends is what the receiver stores, however it is
  cut on the way, and a cached change reaches the record on the other side.

  Not modelled: the threads, sockets and timers of the client's circuit (tcpiiu.cpp) and the
  buffers of its send queue, over classes that are not in the repository; the list of pending
  requests of a channel, which belongs to \<open>cac\<close>; the functions of the server other than
  \<open>write_action\<close>, which stay a parameter of its loop; in recGbl.c printing, the limits that may be
  not-a-number and the comparison with a deadband; all printing and diagnostics; configurations,
  scripts and test data. Floating point values are only moved as bytes.
\<close>

end
